(* ===== verification/Prelude.thy ===== *)
theory Prelude
  imports Main "HOL-Library.Word" "HOL-Library.Signed_Division"
begin

text \<open>
  Shared vocabulary of the development.

  \<^item> The C integer types the program computes with: \<open>s32\<close>, \<open>s64\<close>, \<open>u32\<close> and \<open>u64\<close>
    bring an exact integer back into the range of \<open>int\<close>, \<open>long\<close> (LP64), \<open>unsigned\<close> and
    \<open>uint64_t\<close>, by two's complement wrap-around.  A definition that models machine
    arithmetic applies them at every operation; the lemmas \<open>s32_id\<close> to \<open>u64_id\<close> remove
    them where the operands are in range, so that every exactness claim also says that no
    overflow happens.
  \<^item> C's division truncates towards zero: \<open>sdiv\<close> and \<open>smod\<close> of Signed_Division.
  \<^item> Positional notation: \<open>dval b ds\<close> is the value of the little-endian digit list \<open>ds\<close>
    in base \<open>b\<close>.  The locale \<open>positional\<close> proves its laws once for every base above 1;
    the limbs of InfInt, the digit strings of BaseConverter and the length bytes of RLP
    are interpretations of it.
\<close>

named_theorems range_simps \<open>removal of wrap-around from in-range machine arithmetic\<close>
named_theorems dval_simps \<open>values of digit lists\<close>

section \<open>Machine integers\<close>

definition s32 :: "int \<Rightarrow> int" where
  "s32 x = (x + 2147483648) mod 4294967296 - 2147483648"

definition s64 :: "int \<Rightarrow> int" where
  "s64 x = (x + 9223372036854775808) mod 18446744073709551616 - 9223372036854775808"

definition u32 :: "int \<Rightarrow> int" where
  "u32 x = x mod 4294967296"

definition u64 :: "int \<Rightarrow> int" where
  "u64 x = x mod 18446744073709551616"

lemma s32_id [range_simps]: "- 2147483648 \<le> x \<Longrightarrow> x < 2147483648 \<Longrightarrow> s32 x = x"
  by (simp add: s32_def)

lemma s64_id [range_simps]:
  "- 9223372036854775808 \<le> x \<Longrightarrow> x < 9223372036854775808 \<Longrightarrow> s64 x = x"
  by (simp add: s64_def)

lemma u32_id [range_simps]: "0 \<le> x \<Longrightarrow> x < 4294967296 \<Longrightarrow> u32 x = x"
  by (simp add: u32_def)

lemma u64_id [range_simps]: "0 \<le> x \<Longrightarrow> x < 18446744073709551616 \<Longrightarrow> u64 x = x"
  by (simp add: u64_def)

lemma s32_range: "- 2147483648 \<le> s32 x" "s32 x < 2147483648"
  by (simp_all add: s32_def)

lemma s64_range: "- 9223372036854775808 \<le> s64 x" "s64 x < 9223372036854775808"
  by (simp_all add: s64_def)

lemma u32_range: "0 \<le> u32 x" "u32 x < 4294967296"
  by (simp_all add: u32_def)

lemma u64_range: "0 \<le> u64 x" "u64 x < 18446744073709551616"
  by (simp_all add: u64_def)

lemma abs_s32_le: "\<bar>s32 x\<bar> \<le> \<bar>x\<bar>"
proof (cases "- 2147483648 \<le> x \<and> x < 2147483648")
  case True
  then show ?thesis by (simp add: s32_id)
next
  case False
  then show ?thesis using s32_range [of x] by linarith
qed

lemma abs_s64_le: "\<bar>s64 x\<bar> \<le> \<bar>x\<bar>"
proof (cases "- 9223372036854775808 \<le> x \<and> x < 9223372036854775808")
  case True
  then show ?thesis by (simp add: s64_id)
next
  case False
  then show ?thesis using s64_range [of x] by linarith
qed

text \<open>Wrapping at the end of a computation is wrapping at every step.\<close>

lemma s32_eq_iff: "s32 x = s32 y \<longleftrightarrow> x mod 4294967296 = y mod 4294967296"
  by (simp add: s32_def mod_eq_dvd_iff)

lemma s64_eq_iff: "s64 x = s64 y \<longleftrightarrow> x mod 18446744073709551616 = y mod 18446744073709551616"
  by (simp add: s64_def mod_eq_dvd_iff)

lemma s32_mod: "s32 x mod 4294967296 = x mod 4294967296"
proof -
  have "s32 (s32 x) = s32 x" by (rule s32_id) (rule s32_range)+
  then show ?thesis by (simp only: s32_eq_iff)
qed

lemma s64_mod: "s64 x mod 18446744073709551616 = x mod 18446744073709551616"
proof -
  have "s64 (s64 x) = s64 x" by (rule s64_id) (rule s64_range)+
  then show ?thesis by (simp only: s64_eq_iff)
qed

lemma horner_s32: "s32 (s32 (s32 x * b) + d) = s32 (x * b + d)"
proof -
  let ?M = "4294967296 :: int"
  have m: "(s32 x * b) mod ?M = (x * b) mod ?M"
    by (subst mod_mult_left_eq [symmetric]) (simp only: s32_mod mod_mult_left_eq)
  have "(s32 (s32 x * b) + d) mod ?M = (s32 (s32 x * b) mod ?M + d) mod ?M" by (simp only: mod_add_left_eq)
  also have "\<dots> = (x * b + d) mod ?M" by (simp only: s32_mod m mod_add_left_eq)
  finally show ?thesis by (simp only: s32_eq_iff)
qed

lemma horner_s64: "s64 (s64 (s64 x * b) + d) = s64 (x * b + d)"
proof -
  let ?M = "18446744073709551616 :: int"
  have m: "(s64 x * b) mod ?M = (x * b) mod ?M"
    by (subst mod_mult_left_eq [symmetric]) (simp only: s64_mod mod_mult_left_eq)
  have "(s64 (s64 x * b) + d) mod ?M = (s64 (s64 x * b) mod ?M + d) mod ?M" by (simp only: mod_add_left_eq)
  also have "\<dots> = (x * b + d) mod ?M" by (simp only: s64_mod m mod_add_left_eq)
  finally show ?thesis by (simp only: s64_eq_iff)
qed

lemma horner_u32: "u32 (u32 (u32 x * b) + u32 d) = u32 (x * b + d)"
  by (simp add: u32_def mod_simps)

lemma horner_u64: "u64 (u64 (u64 x * b) + u64 d) = u64 (x * b + d)"
  by (simp add: u64_def mod_simps)

lemma s32_uminus: "s32 (- s32 x) = s32 (- x)"
proof -
  let ?M = "4294967296 :: int"
  have "(- s32 x) mod ?M = (- (s32 x mod ?M)) mod ?M" by (simp only: mod_minus_eq)
  also have "\<dots> = (- x) mod ?M" by (simp only: s32_mod mod_minus_eq)
  finally show ?thesis by (simp only: s32_eq_iff)
qed

lemma s64_uminus: "s64 (- s64 x) = s64 (- x)"
proof -
  let ?M = "18446744073709551616 :: int"
  have "(- s64 x) mod ?M = (- (s64 x mod ?M)) mod ?M" by (simp only: mod_minus_eq)
  also have "\<dots> = (- x) mod ?M" by (simp only: s64_mod mod_minus_eq)
  finally show ?thesis by (simp only: s64_eq_iff)
qed

text \<open>Truncating division, as the code's \<open>/\<close> on signed operands.\<close>

lemma sdiv_nonneg: "0 \<le> a \<Longrightarrow> 0 < b \<Longrightarrow> a sdiv b = a div (b::int)"
  by (auto simp: signed_divide_int_def sgn_if)

lemma sdiv_neg: "a < 0 \<Longrightarrow> 0 < b \<Longrightarrow> a sdiv b = - ((- a) div (b::int))"
  by (auto simp: signed_divide_int_def sgn_if)

lemma sdiv_rem_bounds:
  fixes a b :: int
  assumes "0 < b"
  shows "\<bar>a - b * (a sdiv b)\<bar> < b" and "0 \<le> a \<Longrightarrow> 0 \<le> a - b * (a sdiv b)"
    and "a \<le> 0 \<Longrightarrow> a - b * (a sdiv b) \<le> 0"
proof -
  have p: "x - b * (x div b) = x mod b" for x
    by (simp add: minus_mult_div_eq_mod)
  have nn: "x \<ge> 0 \<Longrightarrow> x - b * (x sdiv b) = x mod b" for x
    using assms p by (simp add: sdiv_nonneg)
  have ng: "x < 0 \<Longrightarrow> x - b * (x sdiv b) = - ((- x) mod b)" for x
    using assms p [of "- x"] by (simp add: sdiv_neg)
  show "\<bar>a - b * (a sdiv b)\<bar> < b"
    using nn [of a] ng [of a] pos_mod_bound [OF assms, of a] pos_mod_sign [OF assms, of a]
      pos_mod_bound [OF assms, of "- a"] pos_mod_sign [OF assms, of "- a"]
    by (cases "0 \<le> a") auto
  show "0 \<le> a \<Longrightarrow> 0 \<le> a - b * (a sdiv b)"
    using nn [of a] assms by simp
  show "a \<le> 0 \<Longrightarrow> a - b * (a sdiv b) \<le> 0"
    using nn [of a] ng [of a] assms by (cases "a = 0") auto
qed

lemma abs_sdiv: "0 < b \<Longrightarrow> \<bar>a sdiv b\<bar> = \<bar>a\<bar> div (b::int)"
  by (cases "0 \<le> a") (simp_all add: sdiv_nonneg sdiv_neg pos_imp_zdiv_nonneg_iff)

lemma div_less_bound: "a div d < b" if "0 < d" "a < d * (b::int)"
proof (rule ccontr)
  assume "\<not> a div d < b"
  then have "d * b \<le> d * (a div d)" using that(1) by (intro mult_left_mono) auto
  also have "\<dots> \<le> a" using pos_mod_sign [OF that(1), of a] mult_div_mod_eq [of d a] by linarith
  finally show False using that(2) by simp
qed

lemma trunc_div:
  fixes a b :: int
  assumes "b \<noteq> 0"
  shows "a sdiv b = (if (0 \<le> a) = (0 \<le> b) then 1 else - 1) * (\<bar>a\<bar> div \<bar>b\<bar>)"
    "a smod b = (if 0 \<le> a then 1 else - 1) * (\<bar>a\<bar> mod \<bar>b\<bar>)"
  using assms by (simp_all add: signed_divide_int_def signed_modulo_int_def sgn_if)

section \<open>Positional notation\<close>

fun dval :: "int \<Rightarrow> int list \<Rightarrow> int" where
  "dval b [] = 0"
| "dval b (d # ds) = d + b * dval b ds"

lemma dval_append [dval_simps]: "dval b (xs @ ys) = dval b xs + b ^ length xs * dval b ys"
  by (induction xs) (simp_all add: algebra_simps)

lemma dval_replicate_0 [dval_simps]: "dval b (replicate n 0) = 0"
  by (induction n) simp_all

lemma dval_zeros: "list_all (\<lambda>d. d = 0) ds \<Longrightarrow> dval b ds = 0"
  by (induction ds) simp_all

lemma dval_uminus [dval_simps]: "dval b (map uminus ds) = - dval b ds"
  by (induction ds) (simp_all add: algebra_simps)

lemma dval_map_upt: "dval b (map f [0..<n]) = (\<Sum>i<n. f i * b ^ i)"
  by (induction n) (simp_all add: dval_append algebra_simps)

lemma dval_sum: "dval b ds = (\<Sum>i<length ds. ds ! i * b ^ i)"
  using dval_map_upt [of b "\<lambda>i. ds ! i" "length ds"] by (simp add: map_nth)

lemma sum_nth_pad:
  fixes b :: int
  assumes "length ds \<le> k"
  shows "(\<Sum>i<k. (if i < length ds then ds ! i else 0) * b ^ i) = dval b ds"
proof -
  have "(\<Sum>i<k. (if i < length ds then ds ! i else 0) * b ^ i) =
      (\<Sum>i<length ds. (if i < length ds then ds ! i else 0) * b ^ i)"
    using assms by (intro sum.mono_neutral_right) auto
  then show ?thesis by (simp add: dval_sum)
qed

definition digits_ok :: "int \<Rightarrow> int list \<Rightarrow> bool" where
  "digits_ok b ds \<longleftrightarrow> (\<forall>d \<in> set ds. 0 \<le> d \<and> d < b)"

lemma digits_ok_simps [simp]:
  "digits_ok b []"
  "digits_ok b (d # ds) \<longleftrightarrow> 0 \<le> d \<and> d < b \<and> digits_ok b ds"
  "digits_ok b (xs @ ys) \<longleftrightarrow> digits_ok b xs \<and> digits_ok b ys"
  by (auto simp: digits_ok_def)

lemma digits_ok_nth: "digits_ok b ds \<Longrightarrow> i < length ds \<Longrightarrow> 0 \<le> ds ! i \<and> ds ! i < b"
  by (auto simp: digits_ok_def)

locale positional =
  fixes b :: int
  assumes base_gt_1: "1 < b"
begin

lemma base_pos: "0 < b"
  using base_gt_1 by simp

lemma dval_nonneg: "digits_ok b ds \<Longrightarrow> 0 \<le> dval b ds"
  using base_pos by (induction ds) auto

lemma dval_less: "digits_ok b ds \<Longrightarrow> dval b ds < b ^ length ds"
proof (induction ds)
  case Nil
  then show ?case by simp
next
  case (Cons d ds)
  then have "dval b ds \<le> b ^ length ds - 1" by simp
  then have "b * dval b ds \<le> b * (b ^ length ds - 1)"
    using base_pos by (intro mult_left_mono) auto
  with Cons.prems show ?case by (simp add: algebra_simps)
qed

lemma dval_eq_0: "digits_ok b ds \<Longrightarrow> dval b ds = 0 \<longleftrightarrow> list_all (\<lambda>d. d = 0) ds"
proof (induction ds)
  case Nil
  then show ?case by simp
next
  case (Cons d ds)
  have "0 \<le> b * dval b ds" using dval_nonneg [of ds] Cons.prems base_pos by simp
  then have "d + b * dval b ds = 0 \<longleftrightarrow> d = 0 \<and> dval b ds = 0"
    using Cons.prems base_pos by (smt (verit) digits_ok_simps(2) mult_eq_0_iff)
  with Cons show ?case by simp
qed

lemma dval_ge_last:
  assumes "digits_ok b ds" "ds \<noteq> []" "last ds \<noteq> 0"
  shows "b ^ (length ds - 1) \<le> dval b ds"
proof -
  have eq: "ds = butlast ds @ [last ds]" using assms(2) by simp
  have ok: "digits_ok b (butlast ds)" "0 \<le> last ds"
    using assms(1) by (subst (asm) eq, simp)+
  have "dval b ds = dval b (butlast ds) + b ^ length (butlast ds) * last ds"
    by (subst eq) (simp only: dval_append, simp)
  moreover have "1 \<le> last ds" using ok(2) assms(3) by simp
  then have "b ^ length (butlast ds) * 1 \<le> b ^ length (butlast ds) * last ds"
    using base_pos by (intro mult_left_mono) auto
  moreover have "0 \<le> dval b (butlast ds)" using ok(1) by (rule dval_nonneg)
  ultimately show ?thesis by simp
qed

lemma dval_ge_1: "digits_ok b ds \<Longrightarrow> ds \<noteq> [] \<Longrightarrow> last ds \<noteq> 0 \<Longrightarrow> 1 \<le> dval b ds"
  using dval_ge_last [of ds] zero_less_power [OF base_pos, of "length ds - 1"] by linarith

lemma dval_inj_len:
  assumes "digits_ok b xs" "digits_ok b ys" "length xs = length ys" "dval b xs = dval b ys"
  shows "xs = ys"
  using assms(3,1,2,4)
proof (induction xs ys rule: list_induct2)
  case Nil
  then show ?case by simp
next
  case (Cons x xs y ys)
  have "(x + b * dval b xs) mod b = (y + b * dval b ys) mod b"
    using Cons.prems(3) by simp
  then have "x = y" using Cons.prems(1,2) by simp
  with Cons base_pos show ?case by simp
qed

lemma dval_drop_take:
  assumes "digits_ok b ds" "k \<le> length ds"
  shows "dval b (drop k ds) = dval b ds div b ^ k" "dval b (take k ds) = dval b ds mod b ^ k"
proof -
  have ok: "digits_ok b (take k ds)" using assms(1) by (auto simp: digits_ok_def dest: in_set_takeD)
  have eq: "dval b ds = dval b (take k ds) + b ^ k * dval b (drop k ds)"
    using dval_append [of b "take k ds" "drop k ds"] assms(2) by (simp add: min_def)
  have len: "length (take k ds) = k" using assms(2) by simp
  have bd: "0 \<le> dval b (take k ds)" "dval b (take k ds) < b ^ k"
    using dval_nonneg [OF ok] dval_less [OF ok] by (simp_all only: len)
  have bp: "b ^ k \<noteq> 0" using base_pos by simp
  show "dval b (drop k ds) = dval b ds div b ^ k"
    using bd bp by (simp add: eq)
  show "dval b (take k ds) = dval b ds mod b ^ k"
    using bd by (simp add: eq)
qed

end

end
