(* ===== verification/Base_Converter.thy ===== *)
theory Base_Converter
  imports Prelude
begin

text \<open>
  The radix converter of \<^verbatim>\<open>src/cross/src/BaseConverter.cpp\<close>: long division of a digit
  string by the target base, over \<open>unsigned int\<close>.  A digit outside the source set throws; a
  one-character set would loop for ever, so a call has one of three outcomes.  The locale
  \<open>charset\<close> is the contract a digit set has to meet (distinct characters, at least two, fewer
  than 65536); the three sets of the code are interpretations of it, and \<open>convert_exact\<close>
  shows that conversion between two such sets returns the canonical digits of the same
  number.
\<close>

section \<open>The converter\<close>

datatype conv_error = Invalid_base | Invalid_character

datatype 'a outcome = Returns 'a | Throws conv_error | Diverges

record base_converter =
  sourceBaseSet :: string
  targetBaseSet :: string

definition binarySet :: string where "binarySet = ''01''"
definition decimalSet :: string where "decimalSet = ''0123456789''"
definition hexSet :: string where "hexSet = ''0123456789abcdef''"

definition BaseConverter :: "string \<Rightarrow> string \<Rightarrow> base_converter outcome" where
  "BaseConverter src tgt =
     (if src = [] \<or> tgt = [] then Throws Invalid_base
      else Returns \<lparr>sourceBaseSet = src, targetBaseSet = tgt\<rparr>)"

definition DecimalToBinaryConverter :: "base_converter outcome" where
  "DecimalToBinaryConverter = BaseConverter decimalSet binarySet"

definition BinaryToDecimalConverter :: "base_converter outcome" where
  "BinaryToDecimalConverter = BaseConverter binarySet decimalSet"

definition DecimalToHexConverter :: "base_converter outcome" where
  "DecimalToHexConverter = BaseConverter decimalSet hexSet"

definition HexToDecimalConverter :: "base_converter outcome" where
  "HexToDecimalConverter = BaseConverter hexSet decimalSet"

definition GetTargetBase :: "base_converter \<Rightarrow> int" where
  "GetTargetBase bc = u32 (int (length (targetBaseSet bc)))"

definition GetSourceBase :: "base_converter \<Rightarrow> int" where
  "GetSourceBase bc = u32 (int (length (sourceBaseSet bc)))"

text \<open>\<open>std::string::find\<close> of a character: the first position, if any.\<close>

fun str_find :: "string \<Rightarrow> char \<Rightarrow> nat option" where
  "str_find [] c = None"
| "str_find (d # ds) c = (if d = c then Some 0 else map_option Suc (str_find ds c))"

fun base2dec_loop :: "string \<Rightarrow> int \<Rightarrow> string \<Rightarrow> int outcome" where
  "base2dec_loop baseDigits result [] = Returns result"
| "base2dec_loop baseDigits result (v # vs) =
     (let result' = u32 (result * u32 (int (length baseDigits)))
      in case str_find baseDigits v of
           None \<Rightarrow> Throws Invalid_character
         | Some c \<Rightarrow> base2dec_loop baseDigits (u32 (result' + u32 (int c))) vs)"

definition base2dec :: "string \<Rightarrow> string \<Rightarrow> int outcome" where
  "base2dec baseDigits value = base2dec_loop baseDigits 0 value"

partial_function (option) dec2base_loop :: "string \<Rightarrow> int \<Rightarrow> string \<Rightarrow> string option" where
  "dec2base_loop baseDigits value result =
     (let numberBase = u32 (int (length baseDigits));
          result' = result @ [baseDigits ! nat (value mod numberBase)];
          value' = value div numberBase
      in if value' > 0 then dec2base_loop baseDigits value' result' else Some result')"

definition dec2base :: "string \<Rightarrow> int \<Rightarrow> string outcome" where
  "dec2base baseDigits value =
     (case dec2base_loop baseDigits value [] of None \<Rightarrow> Diverges | Some r \<Rightarrow> Returns (rev r))"

text \<open>
  \<open>divide\<close>: the prefix \<open>x.substr(0, j)\<close> is replaced by the digits of its remainder, and the
  quot collects one digit per position.  The string \<open>x\<close> is an in/out parameter.
\<close>

function divide_loop :: "string \<Rightarrow> int \<Rightarrow> nat \<Rightarrow> nat \<Rightarrow> string \<Rightarrow> string \<Rightarrow> (string \<times> string) outcome" where
  "divide_loop baseDigits y len i x quot =
     (if i < len
      then (let j = i + 1 + length x - len
            in if length x < j then Returns (x, quot)
               else (case base2dec baseDigits (take j x) of
                       Throws e \<Rightarrow> Throws e
                     | Diverges \<Rightarrow> Diverges
                     | Returns value \<Rightarrow>
                         (case dec2base baseDigits (value mod y) of
                            Throws e \<Rightarrow> Throws e
                          | Diverges \<Rightarrow> Diverges
                          | Returns r \<Rightarrow>
                              divide_loop baseDigits y len (Suc i) (r @ drop j x)
                                (quot @ [baseDigits ! nat (value div y)]))))
      else Returns (x, quot))"
  by pat_completeness auto
termination by (relation "measure (\<lambda>(_, _, len, i, _). len - i)") auto

declare divide_loop.simps [simp del]

definition divide :: "string \<Rightarrow> string \<Rightarrow> int \<Rightarrow> (int \<times> string) outcome" where
  "divide baseDigits x y =
     (case divide_loop baseDigits y (length x) 0 x [] of
        Throws e \<Rightarrow> Throws e
      | Diverges \<Rightarrow> Diverges
      | Returns (x', quot) \<Rightarrow>
          (case base2dec baseDigits x' of
             Throws e \<Rightarrow> Throws e
           | Diverges \<Rightarrow> Diverges
           | Returns remainder \<Rightarrow>
               Returns (remainder, dropWhile (\<lambda>c. c = baseDigits ! 0) quot)))"

partial_function (option) convert_loop ::
    "base_converter \<Rightarrow> string \<Rightarrow> string \<Rightarrow> (conv_error + string) option" where
  "convert_loop bc value result =
     (case divide (sourceBaseSet bc) value (GetTargetBase bc) of
        Throws e \<Rightarrow> Some (Inl e)
      | Diverges \<Rightarrow> None
      | Returns (remainder, value') \<Rightarrow>
          (let result' = result @ [targetBaseSet bc ! nat remainder]
           in if value' \<noteq> [] \<and> \<not> (length value' = 1 \<and> value' ! 0 = sourceBaseSet bc ! 0)
              then convert_loop bc value' result' else Some (Inr result')))"

definition Convert :: "base_converter \<Rightarrow> string \<Rightarrow> string outcome" where
  "Convert bc value =
     (case convert_loop bc value [] of
        None \<Rightarrow> Diverges
      | Some (Inl e) \<Rightarrow> Throws e
      | Some (Inr r) \<Rightarrow> Returns (rev r))"

definition pad_digits :: "char \<Rightarrow> nat \<Rightarrow> string \<Rightarrow> string" where
  "pad_digits z minDigits result =
     (if length result < minDigits then replicate (minDigits - length result) z @ result else result)"

definition Convert_min :: "base_converter \<Rightarrow> string \<Rightarrow> nat \<Rightarrow> string outcome" where
  "Convert_min bc value minDigits =
     (case Convert bc value of
        Returns r \<Rightarrow> Returns (pad_digits (targetBaseSet bc ! 0) minDigits r)
      | Throws e \<Rightarrow> Throws e
      | Diverges \<Rightarrow> Diverges)"

definition FromDecimal :: "base_converter \<Rightarrow> int \<Rightarrow> string outcome" where
  "FromDecimal bc value = dec2base (targetBaseSet bc) value"

definition FromDecimal_min :: "base_converter \<Rightarrow> int \<Rightarrow> nat \<Rightarrow> string outcome" where
  "FromDecimal_min bc value minDigits =
     (case FromDecimal bc value of
        Returns r \<Rightarrow> Returns (pad_digits (targetBaseSet bc ! 0) minDigits r)
      | Throws e \<Rightarrow> Throws e
      | Diverges \<Rightarrow> Diverges)"

definition ToDecimal :: "base_converter \<Rightarrow> string \<Rightarrow> int outcome" where
  "ToDecimal bc value = base2dec (sourceBaseSet bc) value"

section \<open>The contract of a digit set\<close>

definition char_index :: "string \<Rightarrow> char \<Rightarrow> int" where
  "char_index S c = (case str_find S c of None \<Rightarrow> 0 | Some i \<Rightarrow> int i)"

text \<open>The number a digit string denotes over the set \<open>S\<close>.\<close>

definition sval :: "string \<Rightarrow> string \<Rightarrow> int" where
  "sval S s = dval (int (length S)) (rev (map (char_index S) s))"

lemma sval_simps [simp]:
  "sval S [] = 0"
  "sval S (s @ [c]) = char_index S c + int (length S) * sval S s"
  by (simp_all add: sval_def)

lemma sval_append: "sval S (s @ t) = sval S t + int (length S) ^ length t * sval S s"
  by (simp add: sval_def dval_append)

lemma str_find_set: "str_find S c = None \<longleftrightarrow> c \<notin> set S"
  by (induction S) auto

lemma str_find_nth: "str_find S c = Some i \<Longrightarrow> i < length S \<and> S ! i = c"
  by (induction S arbitrary: i) (auto split: if_splits)

lemma str_find_mem: "str_find S c = Some i \<Longrightarrow> c \<in> set S"
  using str_find_set [of S c] by auto

lemma str_find_distinct: "distinct S \<Longrightarrow> i < length S \<Longrightarrow> str_find S (S ! i) = Some i"
  by (induction S arbitrary: i) (auto simp: nth_Cons split: nat.splits)

locale charset =
  fixes S :: string
  assumes distinct_set: "distinct S"
    and two_digits: "1 < length S"
    and small_set: "length S < 65536"
begin

lemma nonempty: "S \<noteq> []"
  using two_digits by auto

lemma base_u32: "u32 (int (length S)) = int (length S)"
  using small_set by (simp add: u32_id)

lemma index_nth: "0 \<le> d \<Longrightarrow> d < int (length S) \<Longrightarrow> char_index S (S ! nat d) = d"
  using str_find_distinct [OF distinct_set, of "nat d"] by (simp add: char_index_def nat_less_iff)

lemma index_range: "0 \<le> char_index S c" "char_index S c < int (length S)"
proof -
  show "0 \<le> char_index S c" by (simp add: char_index_def split: option.splits)
  show "char_index S c < int (length S)"
    using two_digits str_find_nth [of S c] by (auto simp: char_index_def split: option.splits)
qed

lemma index_zero:
  assumes "c \<in> set S"
  shows "char_index S c = 0 \<longleftrightarrow> c = S ! 0"
proof -
  obtain i where i: "str_find S c = Some i" using assms str_find_set [of S c] by auto
  then have "i < length S" "S ! i = c" using str_find_nth by blast+
  moreover from this have "S ! i = S ! 0 \<longleftrightarrow> i = 0"
    using nth_eq_iff_index_eq [OF distinct_set, of i 0] nonempty by simp
  ultimately show ?thesis using i by (simp add: char_index_def)
qed

lemma digits_index: "digits_ok (int (length S)) (rev (map (char_index S) s))"
  using index_range by (auto simp: digits_ok_def)

end

sublocale charset \<subseteq> positional "int (length S)"
  using two_digits by unfold_locales simp

interpretation binary_digits: charset binarySet
  by unfold_locales (simp_all add: binarySet_def)

interpretation decimal_digits: charset decimalSet
  by unfold_locales (simp_all add: decimalSet_def)

interpretation hex_digits: charset hexSet
  by unfold_locales (simp_all add: hexSet_def)

context charset
begin

lemma sval_bounds: "0 \<le> sval S s" "sval S s < int (length S) ^ length s"
  using dval_nonneg [OF digits_index] dval_less [OF digits_index, of s] by (simp_all add: sval_def)

lemma base2dec_loop_value:
  assumes "set s \<subseteq> set S" "0 \<le> r" "r * int (length S) ^ length s + sval S s < 4294967296"
  shows "base2dec_loop S r s = Returns (r * int (length S) ^ length s + sval S s)"
  using assms
proof (induction s arbitrary: r)
  case Nil
  then show ?case by simp
next
  case (Cons c s)
  let ?B = "int (length S)"
  obtain k where k: "str_find S c = Some k" using Cons.prems(1) str_find_set [of S c] by auto
  have ix: "char_index S c = int k" by (simp add: char_index_def k)
  have v: "sval S (c # s) = sval S s + ?B ^ length s * int k"
    using sval_append [of S "[c]" s] sval_simps(2) [of S "[]" c] by (simp add: ix)
  define q where "q = r * ?B + int k"
  have tot: "r * ?B ^ length (c # s) + sval S (c # s) = q * ?B ^ length s + sval S s"
    unfolding v q_def by (simp add: algebra_simps)
  have q: "0 \<le> q" "0 \<le> r * ?B" using Cons.prems(2) by (simp_all add: q_def)
  have pw: "1 \<le> ?B ^ length s" using two_digits by (intro one_le_power) simp
  have "q * 1 \<le> q * ?B ^ length s" using pw q(1) by (rule mult_left_mono)
  then have small: "q < 4294967296"
    using Cons.prems(3) sval_bounds(1) [of s] unfolding tot by linarith
  have w: "u32 (u32 (r * ?B) + u32 (int k)) = q"
    using small q by (simp add: u32_id q_def)
  have "base2dec_loop S q s = Returns (q * ?B ^ length s + sval S s)"
    using Cons.prems tot q by (intro Cons.IH) simp_all
  then show ?case unfolding tot by (simp add: k base_u32 w Let_def)
qed

lemma base2dec_value:
  "set s \<subseteq> set S \<Longrightarrow> sval S s < 4294967296 \<Longrightarrow> base2dec S s = Returns (sval S s)"
  using base2dec_loop_value [of s 0] by (simp add: base2dec_def)

lemma base2dec_throws: "\<not> set s \<subseteq> set S \<Longrightarrow> base2dec S s = Throws Invalid_character"
proof -
  have "\<not> set s \<subseteq> set S \<Longrightarrow> base2dec_loop S r s = Throws Invalid_character" for r
    by (induction s arbitrary: r) (auto simp: str_find_set Let_def split: option.splits dest: str_find_mem)
  then show "\<not> set s \<subseteq> set S \<Longrightarrow> base2dec S s = Throws Invalid_character"
    by (simp add: base2dec_def)
qed

text \<open>The digits of a number, and that \<open>dec2base\<close> writes them without a leading zero.\<close>

lemma dec2base_loop_value:
  assumes "0 \<le> v" "v < 4294967296"
  shows "\<exists>ds. dec2base_loop S v acc = Some (acc @ ds) \<and> set ds \<subseteq> set S \<and> sval S (rev ds) = v \<and>
    ds \<noteq> [] \<and> (ds = [S ! 0] \<or> last ds \<noteq> S ! 0)"
  using assms
proof (induction "nat v" arbitrary: v acc rule: less_induct)
  case less
  let ?B = "int (length S)"
  let ?c = "S ! nat (v mod ?B)"
  have m: "0 \<le> v mod ?B" "v mod ?B < ?B" using base_pos by simp_all
  have c: "?c \<in> set S" using m by (simp add: nat_less_iff)
  have ix: "char_index S ?c = v mod ?B" by (rule index_nth [OF m])
  have unf: "dec2base_loop S v acc =
      (if v div ?B > 0 then dec2base_loop S (v div ?B) (acc @ [?c]) else Some (acc @ [?c]))"
    by (subst dec2base_loop.simps) (simp add: base_u32 Let_def)
  show ?case
  proof (cases "v div ?B > 0")
    case True
    then have "0 < v" using less.prems(1) by (cases "v = 0") auto
    then have sm: "v div ?B < v" using base_gt_1 by (intro int_div_less_self) auto
    then have "nat (v div ?B) < nat v" "v div ?B < 4294967296" using \<open>0 < v\<close> less.prems(2) by auto
    from less.hyps [OF this(1) _ this(2), of "acc @ [?c]"] True
    obtain ds where ds: "dec2base_loop S (v div ?B) (acc @ [?c]) = Some ((acc @ [?c]) @ ds)"
        "set ds \<subseteq> set S" "sval S (rev ds) = v div ?B" "ds \<noteq> []" "ds = [S ! 0] \<or> last ds \<noteq> S ! 0"
      by auto
    have "ds \<noteq> [S ! 0]"
    proof
      assume "ds = [S ! 0]"
      then have "sval S (rev ds) = char_index S (S ! 0)"
        using sval_simps(2) [of S "[]" "S ! 0"] by simp
      also have "\<dots> = 0" using index_nth [of 0] base_pos by simp
      finally show False using ds(3) True by simp
    qed
    then show ?thesis
      using unf True ds c ix by (intro exI [of _ "?c # ds"]) simp
  next
    case False
    then have "v div ?B = 0" using less.prems(1) base_pos pos_imp_zdiv_nonneg_iff [of ?B v] by simp
    then have "v mod ?B = v" using mult_div_mod_eq [of ?B v] by simp
    then show ?thesis
      using unf False c ix sval_simps(2) [of S "[]" ?c] index_zero [OF c]
      by (intro exI [of _ "[?c]"]) auto
  qed
qed

lemma dec2base_value:
  assumes "0 \<le> v" "v < 4294967296"
  shows "\<exists>s. dec2base S v = Returns s \<and> set s \<subseteq> set S \<and> sval S s = v \<and> s \<noteq> [] \<and>
    (s = [S ! 0] \<or> hd s \<noteq> S ! 0)"
proof -
  obtain ds where "dec2base_loop S v [] = Some ds" "set ds \<subseteq> set S" "sval S (rev ds) = v" "ds \<noteq> []"
      "ds = [S ! 0] \<or> last ds \<noteq> S ! 0"
    using dec2base_loop_value [OF assms, of "[]"] by auto
  then show ?thesis by (intro exI [of _ "rev ds"]) (auto simp: dec2base_def hd_rev)
qed

section \<open>Long division of a digit string\<close>

lemma divide_loop_unfold:
  assumes "len = i + Suc (length rest)"
  shows "divide_loop S y len i (pre @ c # rest) q =
    (case base2dec S (pre @ [c]) of
       Throws e \<Rightarrow> Throws e
     | Diverges \<Rightarrow> Diverges
     | Returns value \<Rightarrow>
         (case dec2base S (value mod y) of
            Throws e \<Rightarrow> Throws e
          | Diverges \<Rightarrow> Diverges
          | Returns r \<Rightarrow> divide_loop S y len (Suc i) (r @ rest) (q @ [S ! nat (value div y)])))"
proof -
  have j: "i + 1 + length (pre @ c # rest) - len = Suc (length pre)"
      "\<not> length (pre @ c # rest) < Suc (length pre)" "i < len"
    using assms by simp_all
  have tk: "take (Suc (length pre)) (pre @ c # rest) = pre @ [c]"
      "drop (Suc (length pre)) (pre @ c # rest) = rest"
    by simp_all
  show ?thesis by (subst divide_loop.simps) (simp only: j tk Let_def if_True if_False)
qed

lemma divide_step:
  assumes "0 < y" "y < 65536" "c \<in> set S" "set pre \<subseteq> set S" "sval S pre < y" "len = i + Suc (length rest)"
    "v = sval S (pre @ [c])"
  shows "\<exists>r d. divide_loop S y len i (pre @ c # rest) q = divide_loop S y len (Suc i) (r @ rest) (q @ [d]) \<and>
    set r \<subseteq> set S \<and> sval S r = v mod y \<and> sval S r < y \<and> d \<in> set S \<and> char_index S d = v div y"
proof -
  let ?B = "int (length S)"
  have v: "v = char_index S c + ?B * sval S pre" "0 \<le> v"
    unfolding assms(7) by (simp, rule sval_bounds(1))
  have "?B * sval S pre \<le> ?B * (y - 1)" using assms(5) base_pos by (intro mult_left_mono) auto
  then have vy: "v < ?B * y" using v(1) index_range [of c] by (simp add: algebra_simps)
  have "?B * y \<le> 65536 * 65536" using small_set assms(1,2) by (intro mult_mono) auto
  then have b: "base2dec S (pre @ [c]) = Returns v"
    using vy assms(3,4) unfolding assms(7) by (intro base2dec_value) auto
  have vy': "v < y * ?B" using vy by (simp add: mult.commute)
  have qd: "0 \<le> v div y" "v div y < ?B"
    using v(2) assms(1) div_less_bound [OF assms(1) vy'] by (simp_all add: pos_imp_zdiv_nonneg_iff)
  have d: "S ! nat (v div y) \<in> set S" "char_index S (S ! nat (v div y)) = v div y"
    using qd index_nth [OF qd] by (simp_all add: nat_less_iff)
  have rm: "0 \<le> v mod y" "v mod y < y" using assms(1) by simp_all
  then have "v mod y < 4294967296" using assms(2) by linarith
  then obtain r where r: "dec2base S (v mod y) = Returns r" "set r \<subseteq> set S" "sval S r = v mod y"
    using dec2base_value [OF rm(1)] by blast
  have "divide_loop S y len i (pre @ c # rest) q =
      divide_loop S y len (Suc i) (r @ rest) (q @ [S ! nat (v div y)])"
    by (simp only: divide_loop_unfold [OF assms(6)] b r(1) outcome.case)
  then show ?thesis using r d rm(2) by (intro exI [of _ r] exI [of _ "S ! nat (v div y)"]) simp
qed

lemma divide_loop_value:
  assumes "0 < y" "y < 65536" "set rest \<subseteq> set S" "set pre \<subseteq> set S" "sval S pre < y"
    "len = i + length rest"
  shows "\<exists>pre' q'. divide_loop S y len i (pre @ rest) q = Returns (pre', q @ q') \<and>
    length q' = length rest \<and> set q' \<subseteq> set S \<and> set pre' \<subseteq> set S \<and>
    sval S pre' < y \<and> sval S q' * y + sval S pre' = sval S (pre @ rest)"
  using assms(3-)
proof (induction rest arbitrary: pre i q)
  case Nil
  then show ?case by (subst divide_loop.simps) simp
next
  case (Cons c rest)
  let ?B = "int (length S)"
  define v where "v = sval S (pre @ [c])"
  obtain w u where wu: "w = v div y" "u = v mod y" by blast
  then have vwu: "y * w + u = v" by simp
  have pc: "c \<in> set S" "set rest \<subseteq> set S" "len = i + Suc (length rest)" "len = Suc i + length rest"
    using Cons.prems by simp_all
  obtain r d where st: "divide_loop S y len i (pre @ c # rest) q = divide_loop S y len (Suc i) (r @ rest) (q @ [d])"
      "set r \<subseteq> set S" "sval S r = u" "sval S r < y" "d \<in> set S" "char_index S d = w"
    using divide_step [OF assms(1,2) pc(1) Cons.prems(2,3) pc(3) v_def] unfolding wu by blast
  obtain pre' q' where ih: "divide_loop S y len (Suc i) (r @ rest) (q @ [d]) = Returns (pre', (q @ [d]) @ q')"
      "length q' = length rest" "set q' \<subseteq> set S" "set pre' \<subseteq> set S" "sval S pre' < y"
      "sval S q' * y + sval S pre' = sval S (r @ rest)"
    using Cons.IH [OF pc(2) st(2,4) pc(4)] by blast
  have "sval S (d # q') = sval S q' + ?B ^ length rest * w"
    using sval_append [of S "[d]" q'] sval_simps(2) [of S "[]" d] st(6) ih(2) by simp
  then have "sval S (d # q') * y + sval S pre' =
      (sval S q' * y + sval S pre') + ?B ^ length rest * (y * w)"
    by (simp add: algebra_simps)
  also have "\<dots> = sval S rest + ?B ^ length rest * (y * w + u)"
    unfolding ih(6) by (simp add: sval_append st(3) algebra_simps)
  also have "y * w + u = v" by (rule vwu)
  also have "sval S rest + ?B ^ length rest * v = sval S (pre @ c # rest)"
    using sval_append [of S "pre @ [c]" rest] by (simp only: v_def append_assoc append_Cons append_Nil)
  finally show ?case
    using ih st(5) unfolding st(1) by (intro exI [of _ pre'] exI [of _ "d # q'"]) simp
qed

lemma divide_loop_throws:
  assumes "0 < y" "y < 65536" "\<not> set rest \<subseteq> set S" "set pre \<subseteq> set S" "sval S pre < y"
    "len = i + length rest"
  shows "divide_loop S y len i (pre @ rest) q = Throws Invalid_character"
  using assms(3-)
proof (induction rest arbitrary: pre i q)
  case Nil
  then show ?case by simp
next
  case (Cons c rest)
  have len: "len = i + Suc (length rest)" "len = Suc i + length rest" using Cons.prems by simp_all
  show ?case
  proof (cases "c \<in> set S")
    case True
    then have "\<not> set rest \<subseteq> set S" using Cons.prems(1) by auto
    then show ?thesis
      using divide_step [OF assms(1,2) True Cons.prems(2,3) len(1) refl, of q] Cons.IH len(2) by force
  next
    case False
    then have "base2dec S (pre @ [c]) = Throws Invalid_character" by (intro base2dec_throws) simp
    then show ?thesis by (simp add: divide_loop_unfold [OF len(1)])
  qed
qed

lemma sval_strip: "set s \<subseteq> set S \<Longrightarrow> sval S (dropWhile (\<lambda>c. c = S ! 0) s) = sval S s"
proof (induction s)
  case (Cons c s)
  have z: "char_index S (S ! 0) = 0" using index_nth [of 0] base_pos by simp
  show ?case
    using Cons sval_append [of S "[c]" s] sval_simps(2) [of S "[]" c] z by auto
qed simp

lemma sval_positive:
  assumes "set s \<subseteq> set S" "s \<noteq> []" "hd s \<noteq> S ! 0"
  shows "0 < sval S s"
proof -
  obtain c t where s: "s = c # t" using assms(2) by (cases s) auto
  have "0 < char_index S c" using index_zero [of c] index_range(1) [of c] assms(1,3) by (simp add: s)
  then have "0 < int (length S) ^ length t * char_index S c" using base_pos by simp
  then show ?thesis
    using sval_append [of S "[c]" t] sval_simps(2) [of S "[]" c] sval_bounds(1) [of t] by (simp add: s)
qed

lemma divide_value:
  assumes "0 < y" "y < 65536" "set x \<subseteq> set S"
  shows "\<exists>x'. divide S x y = Returns (sval S x mod y, x') \<and> set x' \<subseteq> set S \<and>
    sval S x' = sval S x div y \<and> (x' \<noteq> [] \<longrightarrow> hd x' \<noteq> S ! 0)"
proof -
  obtain pre' q' where L: "divide_loop S y (length x) 0 x [] = Returns (pre', q')"
      "set q' \<subseteq> set S" "set pre' \<subseteq> set S" "sval S pre' < y" "sval S q' * y + sval S pre' = sval S x"
    using divide_loop_value [OF assms(1,2,3), of "[]" "length x" 0 "[]"] assms(1) by auto
  have q: "sval S x div y = sval S q'" "sval S x mod y = sval S pre'"
    unfolding L(5) [symmetric] using L(4) sval_bounds(1) [of pre'] by simp_all
  have b: "base2dec S pre' = Returns (sval S pre')"
    using L(3,4) assms(2) by (intro base2dec_value) auto
  let ?x = "dropWhile (\<lambda>c. c = S ! 0) q'"
  have "set ?x \<subseteq> set S" using L(2) set_dropWhileD by fast
  moreover have "?x \<noteq> [] \<longrightarrow> hd ?x \<noteq> S ! 0" using hd_dropWhile [of "\<lambda>c. c = S ! 0" q'] by auto
  ultimately show ?thesis
    using sval_strip [OF L(2)] by (simp add: divide_def L(1) b q)
qed

end

section \<open>Conversion\<close>

text \<open>A canonical digit string has no leading zero, unless it is the zero.\<close>

definition canonical :: "string \<Rightarrow> string \<Rightarrow> bool" where
  "canonical T r \<longleftrightarrow> r \<noteq> [] \<and> set r \<subseteq> set T \<and> (r = [T ! 0] \<or> hd r \<noteq> T ! 0)"

context charset
begin

lemma sval_zero_digit: "sval S [S ! 0] = 0"
  using sval_simps(2) [of S "[]" "S ! 0"] index_nth [of 0] nonempty by simp

lemma canonical_pos: "canonical S r \<Longrightarrow> r \<noteq> [S ! 0] \<longleftrightarrow> 0 < sval S r"
  using sval_positive [of r] sval_zero_digit by (auto simp: canonical_def)

lemma canonical_least:
  assumes "canonical S r" "r \<noteq> [S ! 0]"
  shows "int (length S) ^ (length r - 1) \<le> sval S r"
proof -
  have "hd r \<in> set S" "hd r \<noteq> S ! 0" "r \<noteq> []" using assms by (auto simp: canonical_def)
  then have "last (rev (map (char_index S) r)) \<noteq> 0"
    using index_zero [of "hd r"] by (simp add: last_rev hd_map)
  then show ?thesis
    using dval_ge_last [OF digits_index, of r] \<open>r \<noteq> []\<close> by (simp add: sval_def)
qed

lemma canonical_longer:
  assumes "canonical S r" "canonical S s" "length r < length s"
  shows "sval S r < sval S s"
proof -
  have "length s \<noteq> 1" using assms(1,3) by (cases r) (auto simp: canonical_def)
  then have "s \<noteq> [S ! 0]" by auto
  from canonical_least [OF assms(2) this]
  have "int (length S) ^ (length s - 1) \<le> sval S s" .
  moreover have "int (length S) ^ length r \<le> int (length S) ^ (length s - 1)"
    using assms(3) base_gt_1 by (intro power_increasing) auto
  ultimately show ?thesis using sval_bounds(2) [of r] by linarith
qed

lemma canonical_unique:
  assumes "canonical S r" "canonical S s" "sval S r = sval S s"
  shows "r = s"
proof -
  have len: "length r = length s"
    using canonical_longer [OF assms(1,2)] canonical_longer [OF assms(2,1)] assms(3)
    by (metis less_irrefl linorder_neqE_nat)
  have inj: "inj_on (char_index S) (set S)"
  proof (rule inj_on_inverseI)
    fix c assume "c \<in> set S"
    then obtain i where "str_find S c = Some i" using str_find_set [of S c] by auto
    then show "S ! nat (char_index S c) = c" using str_find_nth [of S c i] by (simp add: char_index_def)
  qed
  have "rev (map (char_index S) r) = rev (map (char_index S) s)"
    using dval_inj_len [OF digits_index digits_index] len assms(3) by (simp add: sval_def)
  then have "map (char_index S) r = map (char_index S) s" by simp
  then show ?thesis
    by (rule map_inj_on) (use inj assms(1,2) in \<open>auto simp: canonical_def inj_on_def\<close>)
qed

end

lemma convert_loop_value:
  assumes S: "charset S" and T: "charset T" and "set x \<subseteq> set S"
  shows "\<exists>ds. convert_loop \<lparr>sourceBaseSet = S, targetBaseSet = T\<rparr> x acc = Some (Inr (acc @ ds)) \<and>
    set ds \<subseteq> set T \<and> sval T (rev ds) = sval S x \<and> ds \<noteq> [] \<and> (ds = [T ! 0] \<or> last ds \<noteq> T ! 0)"
  using assms(3)
proof (induction "nat (sval S x)" arbitrary: x acc rule: less_induct)
  case less
  let ?bc = "\<lparr>sourceBaseSet = S, targetBaseSet = T\<rparr>" and ?y = "int (length T)"
  have y: "0 < ?y" "?y < 65536" "1 < ?y" "u32 ?y = ?y"
    using charset.two_digits [OF T] charset.small_set [OF T] charset.base_u32 [OF T]
      charset.nonempty [OF T] by simp_all
  obtain x' where x': "divide S x ?y = Returns (sval S x mod ?y, x')" "set x' \<subseteq> set S"
      "sval S x' = sval S x div ?y" "x' \<noteq> [] \<longrightarrow> hd x' \<noteq> S ! 0"
    using charset.divide_value [OF S y(1,2) less.prems] by blast
  let ?c = "T ! nat (sval S x mod ?y)"
  have m: "0 \<le> sval S x mod ?y" "sval S x mod ?y < ?y" using y(1) by simp_all
  have c: "?c \<in> set T" "char_index T ?c = sval S x mod ?y"
    using m charset.index_nth [OF T m] by (simp_all add: nat_less_iff)
  have cont: "x' \<noteq> [] \<and> \<not> (length x' = 1 \<and> x' ! 0 = S ! 0) \<longleftrightarrow> x' \<noteq> []"
    using x'(4) by (cases x') auto
  have unf: "convert_loop ?bc x acc =
      (if x' \<noteq> [] then convert_loop ?bc x' (acc @ [?c]) else Some (Inr (acc @ [?c])))"
    by (subst convert_loop.simps)
       (simp only: base_converter.simps GetTargetBase_def y(4) x'(1) outcome.case prod.case Let_def cont)
  show ?case
  proof (cases "x' = []")
    case False
    have x0: "0 < sval S x'" using charset.sval_positive [OF S x'(2) False] x'(4) False by simp
    have "0 \<le> sval S x" by (rule charset.sval_bounds(1) [OF S])
    then have "0 < sval S x" using x0 x'(3) by (cases "sval S x = 0") auto
    then have "sval S x' < sval S x" unfolding x'(3) using y(3) by (intro int_div_less_self) auto
    then have "nat (sval S x') < nat (sval S x)" using x0 by simp
    from less.hyps [OF this x'(2), of "acc @ [?c]"]
    obtain ds where ds: "convert_loop ?bc x' (acc @ [?c]) = Some (Inr ((acc @ [?c]) @ ds))" "set ds \<subseteq> set T"
        "sval T (rev ds) = sval S x'" "ds \<noteq> []" "ds = [T ! 0] \<or> last ds \<noteq> T ! 0"
      by auto
    have "ds \<noteq> [T ! 0]" using ds(3) x0 charset.sval_zero_digit [OF T] by auto
    then show ?thesis
      using unf False ds c by (intro exI [of _ "?c # ds"]) (simp add: x'(3))
  next
    case True
    then have "sval S x div ?y = 0" using x'(3) by simp
    then have "sval S x mod ?y = sval S x" using mult_div_mod_eq [of ?y "sval S x"] by simp
    then show ?thesis
      using unf True c sval_simps(2) [of T "[]" ?c] charset.index_zero [OF T c(1)]
      by (intro exI [of _ "[?c]"]) auto
  qed
qed

lemma convert_exact:
  assumes "charset S" "charset T" "set x \<subseteq> set S"
  shows "\<exists>r. Convert \<lparr>sourceBaseSet = S, targetBaseSet = T\<rparr> x = Returns r \<and> canonical T r \<and>
    sval T r = sval S x"
proof -
  obtain ds where "convert_loop \<lparr>sourceBaseSet = S, targetBaseSet = T\<rparr> x [] = Some (Inr ds)"
      "set ds \<subseteq> set T" "sval T (rev ds) = sval S x" "ds \<noteq> []" "ds = [T ! 0] \<or> last ds \<noteq> T ! 0"
    using convert_loop_value [OF assms, of "[]"] by auto
  then show ?thesis
    by (intro exI [of _ "rev ds"]) (auto simp: Convert_def canonical_def hd_rev)
qed

lemma convert_throws:
  assumes S: "charset S" and "charset T" "\<not> set x \<subseteq> set S"
  shows "Convert \<lparr>sourceBaseSet = S, targetBaseSet = T\<rparr> x = Throws Invalid_character"
proof -
  let ?y = "int (length T)"
  have y: "0 < ?y" "?y < 65536" "u32 ?y = ?y"
    using charset.two_digits [OF assms(2)] charset.small_set [OF assms(2)] charset.base_u32 [OF assms(2)]
      charset.nonempty [OF assms(2)] by simp_all
  have "divide_loop S ?y (length x) 0 x [] = Throws Invalid_character"
    using charset.divide_loop_throws [OF S y(1,2) assms(3), of "[]" "length x" 0 "[]"] y(1) by simp
  then have "divide S x ?y = Throws Invalid_character" by (simp add: divide_def)
  then show ?thesis
    unfolding Convert_def by (subst convert_loop.simps) (simp add: GetTargetBase_def y(3))
qed

text \<open>A one-character set makes \<open>dec2base\<close> loop: the value is divided by one for ever.\<close>

lemma dec2base_unary:
  assumes "length S = 1" "0 < v"
  shows "dec2base S v = Diverges"
proof -
  have step: "\<not> (length S = 1 \<and> 0 < v)" if "dec2base_loop S v acc = Some r" for r acc
  proof (rule dec2base_loop.raw_induct [where P = "\<lambda>S v _ _. \<not> (length S = 1 \<and> 0 < v)", OF _ that])
    fix loop D w result r'
    assume ih: "\<And>S v acc r. loop S v acc = Some r \<Longrightarrow> \<not> (length S = 1 \<and> 0 < v)"
      and r: "(let numberBase = u32 (int (length D));
          result' = result @ [D ! nat (w mod numberBase)]; w' = w div numberBase
        in if w' > 0 then loop D w' result' else Some result') = Some r'"
    show "\<not> (length D = 1 \<and> 0 < w)"
    proof
      assume "length D = 1 \<and> 0 < w"
      moreover from this have "loop D w (result @ [D ! 0]) = Some r'"
        using r by (simp add: Let_def u32_def)
      ultimately show False using ih by blast
    qed
  qed
  have "dec2base_loop S v [] = None" using step [of "[]"] assms by (cases "dec2base_loop S v []") auto
  then show ?thesis by (simp add: dec2base_def)
qed

section \<open>Properties of the converter\<close>

text \<open>
  C37: for two digit sets of distinct characters with at least two digits, conversion of a
  string over the first set returns the canonical digits of the same number over the second,
  with no overflow of the \<open>unsigned int\<close> arithmetic; a string with any other character
  throws.
\<close>

theorem base_convert_value:
  assumes "distinct S" "1 < length S" "length S < 65536" "distinct T" "1 < length T" "length T < 65536"
  shows "if set x \<subseteq> set S
    then \<exists>r. Convert \<lparr>sourceBaseSet = S, targetBaseSet = T\<rparr> x = Returns r \<and> canonical T r \<and> sval T r = sval S x
    else Convert \<lparr>sourceBaseSet = S, targetBaseSet = T\<rparr> x = Throws Invalid_character"
proof -
  have "charset S" "charset T" using assms by (auto intro: charset.intro)
  then show ?thesis using convert_exact [of S T x] convert_throws [of S T x] by simp
qed

lemma base_convert_value_witness:
  "\<exists>r. Convert \<lparr>sourceBaseSet = hexSet, targetBaseSet = decimalSet\<rparr> ''00ff'' = Returns r \<and> sval decimalSet r = 255"
proof -
  have v: "sval hexSet ''00ff'' = 255"
    by (simp add: sval_def char_index_def hexSet_def)
  have "set ''00ff'' \<subseteq> set hexSet" by (simp add: hexSet_def)
  then show ?thesis
    using base_convert_value [OF hex_digits.distinct_set hex_digits.two_digits hex_digits.small_set
        decimal_digits.distinct_set decimal_digits.two_digits decimal_digits.small_set, of "''00ff''"]
    unfolding v by auto
qed

text \<open>
  converting a canonical string to another set and back gives the string itself.
\<close>

theorem base_convert_roundtrip:
  assumes "distinct S" "1 < length S" "length S < 65536" "distinct T" "1 < length T" "length T < 65536"
    "canonical S x"
  shows "\<exists>r. Convert \<lparr>sourceBaseSet = S, targetBaseSet = T\<rparr> x = Returns r \<and>
    Convert \<lparr>sourceBaseSet = T, targetBaseSet = S\<rparr> r = Returns x"
proof -
  have c: "charset S" "charset T" using assms by (auto intro: charset.intro)
  have "set x \<subseteq> set S" using assms(7) by (simp add: canonical_def)
  then obtain r where r: "Convert \<lparr>sourceBaseSet = S, targetBaseSet = T\<rparr> x = Returns r" "canonical T r"
      "sval T r = sval S x"
    using convert_exact [OF c] by blast
  then have "set r \<subseteq> set T" by (simp add: canonical_def)
  then obtain s where s: "Convert \<lparr>sourceBaseSet = T, targetBaseSet = S\<rparr> r = Returns s" "canonical S s"
      "sval S s = sval T r"
    using convert_exact [OF c(2,1)] by blast
  then have "s = x" using charset.canonical_unique [OF c(1) s(2) assms(7)] r(3) by simp
  then show ?thesis using r(1) s(1) by blast
qed

lemma base_convert_roundtrip_witness:
  "\<exists>r. Convert \<lparr>sourceBaseSet = decimalSet, targetBaseSet = hexSet\<rparr> ''1000'' = Returns r \<and>
    Convert \<lparr>sourceBaseSet = hexSet, targetBaseSet = decimalSet\<rparr> r = Returns ''1000''"
proof -
  have "canonical decimalSet ''1000''" by (simp add: canonical_def decimalSet_def)
  then show ?thesis
    by (rule base_convert_roundtrip [OF decimal_digits.distinct_set decimal_digits.two_digits
        decimal_digits.small_set hex_digits.distinct_set hex_digits.two_digits hex_digits.small_set])
qed

text \<open>
  the constructor rejects only empty sets, and with a one-character target set writing
  any positive number does not return.
\<close>

theorem base_unary_diverges:
  assumes "0 < v"
  shows "\<exists>bc. BaseConverter decimalSet [c] = Returns bc \<and> FromDecimal bc v = Diverges"
  using dec2base_unary [of "[c]" v] assms
  by (simp add: BaseConverter_def decimalSet_def FromDecimal_def)

lemma base_unary_diverges_witness:
  "\<exists>bc. BaseConverter decimalSet ''1'' = Returns bc \<and> FromDecimal bc 5 = Diverges"
  using base_unary_diverges [of 5 "CHR ''1''"] by simp

end
