(* ===== verification/Hex_Codec.thy ===== *)
theory Hex_Codec
  imports Base_Converter "HOL-Library.Char_ord"
begin

text \<open>
  Hexadecimal text, \<^verbatim>\<open>src/cross/include/hex.hpp\<close>, and the byte arrays behind it
  (\<^verbatim>\<open>src/cross/include/Header.hpp\<close>).  A \<open>std::string\<close> is a list of characters, a
  \<open>uint8_t\<close> array a list of 8-bit words.  A function that writes to a buffer returns the bytes
  it writes, in order.  The lemmas give the round trips in both directions and tie the text
  to the number it denotes over the digit set \<open>hexSet\<close> of the radix converter.
\<close>

unbundle bit_operations_syntax

type_synonym byte = "8 word"

definition byte_chr :: "byte \<Rightarrow> char" where
  "byte_chr b = char_of (unat b)"

definition chr_byte :: "char \<Rightarrow> byte" where
  "chr_byte c = of_nat (of_char c)"

section \<open>The code\<close>

text \<open>\<open>hash_256\<close> and \<open>hash_512\<close> are arrays of 32 and 64 bytes; the loop of \<open>operator==\<close>.\<close>

fun hash_eq_loop :: "nat \<Rightarrow> byte list \<Rightarrow> byte list \<Rightarrow> nat \<Rightarrow> bool" where
  "hash_eq_loop 0 x y i = True"
| "hash_eq_loop (Suc n) x y i = (if x ! i \<noteq> y ! i then False else hash_eq_loop n x y (Suc i))"

definition hash_256_eq :: "byte list \<Rightarrow> byte list \<Rightarrow> bool" where
  "hash_256_eq this rhs = hash_eq_loop 32 this rhs 0"

definition from_hex_char :: "char \<Rightarrow> byte" where
  "from_hex_char c =
     (if CHR ''0'' \<le> c \<and> c \<le> CHR ''9'' then chr_byte c - chr_byte (CHR ''0'')
      else if CHR ''a'' \<le> c \<and> c \<le> CHR ''f'' then chr_byte c - chr_byte (CHR ''a'') + 10
      else if CHR ''A'' \<le> c \<and> c \<le> CHR ''F'' then chr_byte c - chr_byte (CHR ''A'') + 10
      else 0)"

text \<open>
  The writing loop of \<open>from_hex\<close>: one byte from two characters, until the text or the buffer
  (\<open>room\<close> bytes) is used up.
\<close>

fun from_hex_loop :: "string \<Rightarrow> nat \<Rightarrow> byte list" where
  "from_hex_loop (a # b # cs) (Suc room) =
     (push_bit 4 (from_hex_char a) OR from_hex_char b) # from_hex_loop cs room"
| "from_hex_loop [a] (Suc room) = [push_bit 4 (from_hex_char a)]"
| "from_hex_loop _ _ = []"

definition from_hex :: "string \<Rightarrow> nat \<Rightarrow> byte list" where
  "from_hex hex_str out_data_len =
     (let s = (if odd (length hex_str) then CHR ''0'' # hex_str else hex_str)
      in from_hex_loop s out_data_len)"

text \<open>
  \<open>hex_to_sha256\<close>: \<open>64 - length\<close> is computed in \<open>size_t\<close>, so a text longer than 64 characters
  asks for an insertion of almost \<open>2^64\<close> characters, which throws (None).
\<close>

definition max_size :: int where
  "max_size = 9223372036854775807"

definition hex_to_sha256 :: "string \<Rightarrow> byte list option" where
  "hex_to_sha256 hex_str =
     (let diff = u64 (64 - int (length hex_str))
      in if diff > 0
         then (if diff > max_size - int (length hex_str) then None
               else Some (from_hex (replicate (nat diff) (CHR ''0'') @ hex_str) 32))
         else Some (from_hex hex_str 32))"

definition to_hex_digit :: "byte \<Rightarrow> char" where
  "to_hex_digit b = ''0123456789abcdef'' ! unat b"

fun to_hex :: "byte list \<Rightarrow> string" where
  "to_hex [] = []"
| "to_hex (c # cs) = to_hex_digit (drop_bit 4 c) # to_hex_digit (c AND 15) # to_hex cs"

definition sha256_to_hex :: "byte list \<Rightarrow> string" where
  "sha256_to_hex h = to_hex h"

definition string_to_hex :: "string \<Rightarrow> string" where
  "string_to_hex input =
     concat (map (\<lambda>c. [to_hex_digit (drop_bit 4 (chr_byte c)), to_hex_digit (chr_byte c AND 15)]) input)"

section \<open>Characters and bytes\<close>

lemma of_char_less [simp]: "(of_char c :: nat) < 256"
  using of_char_mod_256 [of c, where 'a = nat] by (metis mod_less_divisor zero_less_numeral)

lemma byte_chr_inv [simp]: "chr_byte (byte_chr b) = b"
proof -
  have "unat b < 256" using unsigned_less [of b, where 'a = nat] by simp
  then show ?thesis by (simp add: byte_chr_def chr_byte_def)
qed

lemma chr_byte_inv [simp]: "byte_chr (chr_byte c) = c"
  by (simp add: byte_chr_def chr_byte_def unat_of_nat)

lemma unat_chr_byte: "unat (chr_byte c) = of_char c"
  by (simp add: chr_byte_def unat_of_nat)

lemma hash_256_eq_iff:
  assumes "length x = 32" "length y = 32"
  shows "hash_256_eq x y \<longleftrightarrow> x = y"
proof -
  have "hash_eq_loop n x y i \<longleftrightarrow> (\<forall>j. i \<le> j \<and> j < i + n \<longrightarrow> x ! j = y ! j)" for n i
  proof (induction n arbitrary: i)
    case (Suc n)
    show ?case
      by (auto simp: Suc) (metis Suc_leI le_neq_implies_less add_Suc add_Suc_right)+
  qed auto
  then show ?thesis
    using assms by (auto simp: hash_256_eq_def list_eq_iff_nth_eq)
qed

section \<open>Round trips\<close>

lemma nibble_cases:
  assumes "unat (n :: byte) < 16"
  shows "\<exists>k < 16. n = of_nat k"
  using assms by (intro exI [of _ "unat n"]) simp

lemma nibble_table:
  "list_all (\<lambda>k. from_hex_char (to_hex_digit (of_nat k)) = of_nat k \<and>
     to_hex_digit (of_nat k) = hexSet ! k) [0..<16]"
  by code_simp

lemma nibble_codec:
  assumes "unat (n :: byte) < 16"
  shows "from_hex_char (to_hex_digit n) = n" "to_hex_digit n = hexSet ! unat n"
proof -
  obtain k where k: "k < 16" "n = of_nat k" using nibble_cases [OF assms] by auto
  have "unat n = k" unfolding k(2) using k(1) by (simp add: unat_of_nat)
  then show "from_hex_char (to_hex_digit n) = n" "to_hex_digit n = hexSet ! unat n"
    using nibble_table k unfolding list_all_iff by (metis atLeastLessThan_iff set_upt zero_le)+
qed

lemma byte_nibbles:
  fixes b :: byte
  shows "unat (drop_bit 4 b) < 16" "unat (b AND 15) < 16" "push_bit 4 (drop_bit 4 b) OR b AND 15 = b"
    "unat b = 16 * unat (drop_bit 4 b) + unat (b AND 15)"
proof -
  have m: "b AND 15 = take_bit 4 b" by (simp add: take_bit_eq_mask mask_eq_exp_minus_1)
  have "unat (drop_bit 4 b) = drop_bit 4 (take_bit 8 (unat b))" by (simp only: unsigned_drop_bit_eq) simp
  moreover have "take_bit 8 (unat b) = unat b"
    by (rule take_bit_nat_eq_self) (use unsigned_less [of b, where 'a = nat] in simp)
  ultimately have d: "unat (drop_bit 4 b) = unat b div 16" by (simp only: drop_bit_eq_div) simp
  have t: "unat (b AND 15) = unat b mod 16"
    unfolding m by (simp add: unsigned_take_bit_eq) (simp add: take_bit_eq_mod)
  have "unat b < 256" using unsigned_less [of b, where 'a = nat] by simp
  then show "unat (drop_bit 4 b) < 16" "unat (b AND 15) < 16"
    "unat b = 16 * unat (drop_bit 4 b) + unat (b AND 15)"
    by (simp_all add: d t)
  show "push_bit 4 (drop_bit 4 b) OR b AND 15 = b"
    unfolding m by (rule bit_eqI) (auto simp: bit_simps)
qed

lemma from_to_hex: "length bs \<le> room \<Longrightarrow> from_hex_loop (to_hex bs) room = bs"
proof (induction bs arbitrary: room)
  case (Cons b bs)
  then obtain r where "room = Suc r" "length bs \<le> r" by (cases room) auto
  then show ?case using Cons.IH byte_nibbles [of b] nibble_codec by simp
qed simp

lemma length_to_hex [simp]: "length (to_hex bs) = 2 * length bs"
  by (induction bs) simp_all

lemma to_hex_digits: "set (to_hex bs) \<subseteq> set hexSet"
proof (induction bs)
  case (Cons b bs)
  have "length hexSet = 16" by (simp add: hexSet_def)
  then have "hexSet ! k \<in> set hexSet" if "k < 16" for k using that nth_mem by metis
  then show ?case using Cons byte_nibbles [of b] by (auto simp: nibble_codec)
qed simp

text \<open>The number of a byte array, most significant byte first, is that of its hex text.\<close>

definition be_value :: "byte list \<Rightarrow> int" where
  "be_value bs = dval 256 (rev (map uint bs))"

lemma be_value_simps [simp]:
  "be_value [] = 0"
  "be_value (bs @ [b]) = uint b + 256 * be_value bs"
  by (simp_all add: be_value_def)

lemma hex_index: "k < 16 \<Longrightarrow> char_index hexSet (hexSet ! k) = int k"
  using hex_digits.index_nth [of "int k"] by (simp add: hexSet_def)

lemma to_hex_append: "to_hex (xs @ ys) = to_hex xs @ to_hex ys"
  by (induction xs) simp_all

lemma sval_to_hex: "sval hexSet (to_hex bs) = be_value bs"
proof (induction bs rule: rev_induct)
  case (snoc b bs)
  note n = byte_nibbles [of b]
  have u: "uint b = 16 * int (unat (drop_bit 4 b)) + int (unat (b AND 15))"
    using n(4) by (metis of_nat_add of_nat_mult of_nat_numeral uint_nat)
  have "to_hex (bs @ [b]) = (to_hex bs @ [hexSet ! unat (drop_bit 4 b)]) @ [hexSet ! unat (b AND 15)]"
    using n by (simp add: to_hex_append nibble_codec)
  then show ?case
    using snoc n u by (simp only: sval_simps hex_index be_value_simps) (simp add: hexSet_def)
qed simp

lemma to_hex_inj: "to_hex xs = to_hex ys \<Longrightarrow> xs = ys"
proof -
  assume eq: "to_hex xs = to_hex ys"
  let ?m = "max (length xs) (length ys)"
  have "xs = from_hex_loop (to_hex xs) ?m" by (rule from_to_hex [symmetric]) simp
  also have "\<dots> = ys" unfolding eq by (rule from_to_hex) simp
  finally show ?thesis .
qed

lemma from_hex_to_hex: "length bs \<le> room \<Longrightarrow> from_hex (to_hex bs) room = bs"
  by (simp add: from_hex_def from_to_hex)

lemma string_to_hex_bytes: "string_to_hex s = to_hex (map chr_byte s)"
  by (induction s) (simp_all add: string_to_hex_def)

section \<open>\<open>hex_to_sha256\<close>\<close>

lemma length_from_hex_loop: "length (from_hex_loop s room) = min ((length s + 1) div 2) room"
  by (induction s room rule: from_hex_loop.induct) auto

lemma hex_to_sha256_short:
  assumes "length s \<le> 64"
  shows "hex_to_sha256 s = Some (from_hex_loop (replicate (64 - length s) (CHR ''0'') @ s) 32)"
proof -
  have u: "u64 (64 - int (length s)) = 64 - int (length s)" using assms by (simp add: u64_id)
  have n: "nat (64 - int (length s)) = 64 - length s" by simp
  have e: "even (length (replicate (64 - length s) (CHR ''0'') @ s))" using assms by simp
  show ?thesis
    using assms e
    by (cases "length s = 64") (simp_all only: hex_to_sha256_def from_hex_def Let_def u n, simp_all add: max_size_def u64_def)
qed

lemma hex_to_sha256_long:
  assumes "64 < length s" "int (length s) < 9223372036854775807"
  shows "hex_to_sha256 s = None"
proof -
  have "u64 (64 - int (length s)) = 18446744073709551616 + 64 - int (length s)"
  proof -
    have "u64 (64 - int (length s)) = (64 - int (length s) + 18446744073709551616) mod 18446744073709551616"
      by (simp only: u64_def mod_add_self2)
    also have "\<dots> = 64 - int (length s) + 18446744073709551616"
      by (rule mod_pos_pos_trivial) (use assms in simp_all)
    finally show ?thesis by simp
  qed
  then show ?thesis using assms by (simp add: hex_to_sha256_def Let_def max_size_def)
qed

lemma hex_chars:
  assumes "c \<in> set hexSet"
  shows "unat (from_hex_char c) < 16" "to_hex_digit (from_hex_char c) = c"
proof -
  have "length hexSet = 16" by (simp add: hexSet_def)
  then obtain k where k: "k < 16" "c = hexSet ! k" using assms by (metis in_set_conv_nth)
  have u: "unat (of_nat k :: byte) = k" using k(1) by (simp add: unat_of_nat)
  then have c: "c = to_hex_digit (of_nat k)" using nibble_codec(2) [of "of_nat k"] k by simp
  then have "from_hex_char c = of_nat k" using nibble_codec(1) [of "of_nat k"] u k(1) by simp
  then show "unat (from_hex_char c) < 16" "to_hex_digit (from_hex_char c) = c"
    using u k(1) c by simp_all
qed

lemma join_nibbles:
  fixes a b :: byte
  assumes "unat a < 16" "unat b < 16"
  shows "drop_bit 4 (push_bit 4 a OR b) = a" "(push_bit 4 a OR b) AND 15 = b"
proof -
  have nb: "n < 4" if "unat w < 16" "bit w n" for w :: byte and n
  proof (rule ccontr)
    assume "\<not> n < 4"
    have "take_bit 4 (unat w) = unat w" using that(1) by (simp add: take_bit_nat_eq_self)
    then have "\<not> bit (unat w) n" using \<open>\<not> n < 4\<close> by (metis bit_take_bit_iff)
    moreover have "n < 8" using bit_imp_le_length [OF that(2)] by simp
    ultimately show False using that(2) by (simp add: bit_unsigned_iff)
  qed
  have m: "w AND 15 = take_bit 4 w" for w :: byte by (simp add: take_bit_eq_mask mask_eq_exp_minus_1)
  show "drop_bit 4 (push_bit 4 a OR b) = a"
    by (rule bit_eqI) (auto simp: bit_simps dest: nb [OF assms(1)] nb [OF assms(2)])
  show "(push_bit 4 a OR b) AND 15 = b"
    unfolding m by (rule bit_eqI) (auto simp: bit_simps dest: nb [OF assms(2)])
qed

lemma to_from_hex:
  assumes "set s \<subseteq> set hexSet" "length s = 2 * room"
  shows "to_hex (from_hex_loop s room) = s"
  using assms
proof (induction s room rule: from_hex_loop.induct)
  case (1 a b cs room)
  then have h: "unat (from_hex_char a) < 16" "to_hex_digit (from_hex_char a) = a"
      "unat (from_hex_char b) < 16" "to_hex_digit (from_hex_char b) = b"
      "to_hex (from_hex_loop cs room) = cs"
    using hex_chars [of a] hex_chars [of b] by simp_all
  show ?case
    by (simp only: from_hex_loop.simps to_hex.simps join_nibbles [OF h(1,3)] h(2,4,5))
qed auto

lemma drop_zeros: "dropWhile (\<lambda>c. c = z) (replicate k z @ s) = dropWhile (\<lambda>c. c = z) s"
  by (induction k) simp_all

lemma hex_to_sha256_value:
  assumes "set s \<subseteq> set hexSet" "length s \<le> 64"
  shows "\<exists>h. hex_to_sha256 s = Some h \<and> length h = 32 \<and> be_value h = sval hexSet s"
proof -
  let ?p = "replicate (64 - length s) (CHR ''0'') @ s"
  let ?h = "from_hex_loop ?p 32"
  have z: "CHR ''0'' = hexSet ! 0" "CHR ''0'' \<in> set hexSet" by (simp_all add: hexSet_def)
  have th: "to_hex ?h = ?p"
    by (rule to_from_hex) (use assms z(2) in auto)
  have sub: "set ?p \<subseteq> set hexSet" using assms(1) z(2) by auto
  have "dropWhile (\<lambda>c. c = hexSet ! 0) ?p = dropWhile (\<lambda>c. c = hexSet ! 0) s"
    unfolding z(1) by (rule drop_zeros)
  then have "sval hexSet ?p = sval hexSet s"
    using hex_digits.sval_strip [OF sub] hex_digits.sval_strip [OF assms(1)] by (simp only:)
  then have "be_value ?h = sval hexSet s" using sval_to_hex [of ?h] th by simp
  moreover have "length ?h = 32" using assms(2) by (simp add: length_from_hex_loop)
  ultimately show ?thesis using hex_to_sha256_short [OF assms(2)] by blast
qed

section \<open>Properties\<close>

text \<open>
  hexadecimal text of a byte array reads back as the array, denotes its big-endian
  number, and is what \<open>string_to_hex\<close> writes for the same bytes; conversely, text over the
  digit set is what its bytes are written as.
\<close>

theorem hex_roundtrip:
  assumes "set s \<subseteq> set hexSet" "even (length s)"
  shows "from_hex (to_hex bs) (length bs) = bs \<and> sval hexSet (to_hex bs) = be_value bs \<and>
    string_to_hex (map byte_chr bs) = to_hex bs \<and>
    to_hex (from_hex s (length s div 2)) = s"
proof -
  have "map chr_byte (map byte_chr bs) = bs" by (simp add: o_def)
  then show ?thesis
    using assms to_from_hex [OF assms(1), of "length s div 2"]
    by (simp add: from_hex_to_hex sval_to_hex string_to_hex_bytes) (simp add: from_hex_def)
qed

lemma hex_roundtrip_witness:
  "from_hex (to_hex [0, 255, 18]) 3 = [0, 255, 18] \<and> to_hex (from_hex ''00ff12'' 3) = ''00ff12''"
proof -
  have l: "length ''00ff12'' div 2 = 3" "length [0, 255, 18 :: byte] = 3" by simp_all
  have "set ''00ff12'' \<subseteq> set hexSet" "even (length ''00ff12'')" by (simp_all add: hexSet_def)
  from hex_roundtrip [OF this, of "[0, 255, 18]"] show ?thesis unfolding l by blast
qed

text \<open>
  \<open>hex_to_sha256\<close> pads text of at most 64 hexadecimal digits to the 32 bytes of the
  number it denotes, and reverses \<open>sha256_to_hex\<close>; longer text throws, because the padding
  length is computed in unsigned arithmetic.
\<close>

theorem hex_to_sha256_spec:
  assumes "set s \<subseteq> set hexSet" "int (length s) < 9223372036854775807" "length h = 32"
  shows "hex_to_sha256 (sha256_to_hex h) = Some h \<and>
    (if length s \<le> 64
     then \<exists>h. hex_to_sha256 s = Some h \<and> length h = 32 \<and> be_value h = sval hexSet s
     else hex_to_sha256 s = None)"
  using hex_to_sha256_value [OF assms(1)] hex_to_sha256_long [OF _ assms(2)]
    hex_to_sha256_short [of "to_hex h"] from_to_hex [of h 32] assms(3)
  by (simp add: sha256_to_hex_def)

lemma hex_to_sha256_spec_witness:
  "(\<exists>h. hex_to_sha256 ''ff'' = Some h \<and> be_value h = 255) \<and>
   hex_to_sha256 (replicate 65 (CHR ''0'')) = None"
proof -
  have v: "sval hexSet ''ff'' = 255" by (simp add: sval_def char_index_def hexSet_def)
  show ?thesis
    using hex_to_sha256_spec [of "''ff''" "replicate 32 0"]
      hex_to_sha256_spec [of "replicate 65 (CHR ''0'')" "replicate 32 0"]
    unfolding v by (auto simp: hexSet_def)
qed

end
