(* ===== verification/Keccak.thy ===== *)
theory Keccak
  imports Hex_Codec
begin

text \<open>
  The Keccak sponge of \<^verbatim>\<open>src/cross/src/keccak.cpp\<close>: the permutation on 25 lanes of 64 bits
  with its in-place loops, absorption, padding and squeezing on the 200 state bytes, and the
  SHAKE, SHA-3 and Keccak instances.  The specification is FIPS 202's, on a function of the
  two lane coordinates, with the rotation offsets as triangular numbers along the walk
  \<open>(x, y) \<rightarrow> (y, 2x + 3y)\<close>, the round constants from the linear feedback shift register, and
  the sponge on the padded message; the code refines it step by step.

  Null pointers are not modelled.  The functions return None where the code returns -1 and
  otherwise the bytes written to the output.
\<close>

type_synonym lane = "64 word"

section \<open>The permutation\<close>

definition rho :: "nat list" where
  "rho = [1, 3, 6, 10, 15, 21,
    28, 36, 45, 55, 2, 14,
    27, 41, 56, 8, 25, 43,
    62, 18, 39, 61, 20, 44]"

definition pi :: "nat list" where
  "pi = [10, 7, 11, 17, 18, 3,
    5, 16, 8, 21, 24, 4,
    15, 23, 19, 13, 12, 2,
    20, 14, 22, 9, 6, 1]"

definition RC :: "lane list" where
  "RC = [0x1, 0x8082, 0x800000000000808a, 0x8000000080008000,
    0x808b, 0x80000001, 0x8000000080008081, 0x8000000000008009,
    0x8a, 0x88, 0x80008009, 0x8000000a,
    0x8000808b, 0x800000000000008b, 0x8000000000008089, 0x8000000000008003,
    0x8000000000008002, 0x8000000000000080, 0x800a, 0x800000008000000a,
    0x8000000080008081, 0x8000000000008080, 0x80000001, 0x8000000080008008]"

definition rol :: "lane \<Rightarrow> nat \<Rightarrow> lane" where
  "rol x s = push_bit s x OR drop_bit (64 - s) x"

definition theta_b :: "lane list \<Rightarrow> lane list" where
  "theta_b a = map (\<lambda>x. foldl (\<lambda>t y. t XOR a ! (x + y)) 0 [0, 5, 10, 15, 20]) [0, 1, 2, 3, 4]"

definition theta :: "lane list \<Rightarrow> lane list" where
  "theta a =
     (let b = theta_b a
      in foldl (\<lambda>a x. foldl (\<lambda>a y. a[y + x := a ! (y + x) XOR
                  (b ! ((x + 4) mod 5) XOR rol (b ! ((x + 1) mod 5)) 1)]) a [0, 5, 10, 15, 20])
           a [0, 1, 2, 3, 4])"

definition rho_pi :: "lane list \<Rightarrow> lane list" where
  "rho_pi a =
     fst (foldl (\<lambda>(a, t) x. (a[pi ! x := rol t (rho ! x)], a ! (pi ! x))) (a, a ! 1) [0..<24])"

definition chi :: "lane list \<Rightarrow> lane list" where
  "chi a =
     foldl (\<lambda>a y.
         let b = map (\<lambda>x. a ! (y + x)) [0, 1, 2, 3, 4]
         in foldl (\<lambda>a x. a[y + x := b ! x XOR (NOT (b ! ((x + 1) mod 5)) AND b ! ((x + 2) mod 5))])
              a [0, 1, 2, 3, 4])
       a [0, 5, 10, 15, 20]"

definition iota :: "nat \<Rightarrow> lane list \<Rightarrow> lane list" where
  "iota i a = a[0 := a ! 0 XOR RC ! i]"

definition keccak_round :: "lane list \<Rightarrow> nat \<Rightarrow> lane list" where
  "keccak_round a i = iota i (chi (rho_pi (theta a)))"

definition permute :: "lane list \<Rightarrow> lane list" where
  "permute a = foldl keccak_round a [0..<24]"

text \<open>\<open>keccakf\<close> views the 200 bytes as lanes in the machine's little-endian order.\<close>

definition lane_of_bytes :: "byte list \<Rightarrow> lane" where
  "lane_of_bytes bs = foldr (\<lambda>b w. push_bit 8 w OR ucast b) bs 0"

definition bytes_of_lane :: "lane \<Rightarrow> byte list" where
  "bytes_of_lane w = map (\<lambda>i. ucast (drop_bit (8 * i) w)) [0..<8]"

definition keccakf :: "byte list \<Rightarrow> byte list" where
  "keccakf state =
     concat (map bytes_of_lane
       (permute (map (\<lambda>i. lane_of_bytes (take 8 (drop (8 * i) state))) [0..<25])))"

section \<open>The sponge\<close>

definition xorin :: "byte list \<Rightarrow> byte list \<Rightarrow> nat \<Rightarrow> byte list" where
  "xorin dst src len = foldl (\<lambda>d i. d[i := d ! i XOR src ! i]) dst [0..<len]"

definition setout :: "byte list \<Rightarrow> nat \<Rightarrow> byte list" where
  "setout src len = map (\<lambda>i. src ! i) [0..<len]"

text \<open>
  \<open>foldP\<close> on the input and on the output.  The rates of the instances below are positive;
  with rate 0 the loops of the code would not end.
\<close>

function foldP_in :: "nat \<Rightarrow> byte list \<Rightarrow> byte list \<Rightarrow> byte list \<times> byte list" where
  "foldP_in rate a inp =
     (if length inp \<ge> rate \<and> rate > 0
      then foldP_in rate (keccakf (xorin a inp rate)) (drop rate inp) else (a, inp))"
  by pat_completeness auto
termination by (relation "measure (\<lambda>(_, _, inp). length inp)") auto

function foldP_out :: "nat \<Rightarrow> byte list \<Rightarrow> nat \<Rightarrow> byte list \<Rightarrow> byte list \<times> nat \<times> byte list" where
  "foldP_out rate a outlen out =
     (if outlen \<ge> rate \<and> rate > 0
      then foldP_out rate (keccakf a) (outlen - rate) (out @ setout a rate) else (a, outlen, out))"
  by pat_completeness auto
termination by (relation "measure (\<lambda>(_, _, outlen, _). outlen)") auto

declare foldP_in.simps [simp del] foldP_out.simps [simp del]

definition Plen :: nat where "Plen = 200"

definition keccak_hash :: "nat \<Rightarrow> byte list \<Rightarrow> nat \<Rightarrow> byte \<Rightarrow> byte list option" where
  "keccak_hash outlen inp rate delim =
     (if rate \<ge> Plen then None
      else (let (a, rest) = foldP_in rate (replicate Plen 0) inp;
                inlen = length rest;
                a = a[inlen := a ! inlen XOR delim];
                a = a[rate - 1 := a ! (rate - 1) XOR 0x80];
                a = keccakf (xorin a rest inlen);
                (a, outlen', out) = foldP_out rate a outlen []
            in Some (out @ setout a outlen')))"

definition shake :: "nat \<Rightarrow> nat \<Rightarrow> byte list \<Rightarrow> byte list option" where
  "shake bits outlen inp = keccak_hash outlen inp (200 - bits div 4) 0x1f"

definition sha3 :: "nat \<Rightarrow> nat \<Rightarrow> byte list \<Rightarrow> byte list option" where
  "sha3 bits outlen inp =
     (if outlen > bits div 8 then None else keccak_hash outlen inp (200 - bits div 4) 0x06)"

definition keccak :: "nat \<Rightarrow> nat \<Rightarrow> byte list \<Rightarrow> byte list option" where
  "keccak bits outlen inp =
     (if outlen > bits div 8 then None else keccak_hash outlen inp (200 - bits div 4) 0x01)"

definition shake128 :: "nat \<Rightarrow> byte list \<Rightarrow> byte list option" where "shake128 = shake 128"
definition shake256 :: "nat \<Rightarrow> byte list \<Rightarrow> byte list option" where "shake256 = shake 256"
definition sha3_224 :: "nat \<Rightarrow> byte list \<Rightarrow> byte list option" where "sha3_224 = sha3 224"
definition sha3_256 :: "nat \<Rightarrow> byte list \<Rightarrow> byte list option" where "sha3_256 = sha3 256"
definition sha3_384 :: "nat \<Rightarrow> byte list \<Rightarrow> byte list option" where "sha3_384 = sha3 384"
definition sha3_512 :: "nat \<Rightarrow> byte list \<Rightarrow> byte list option" where "sha3_512 = sha3 512"
definition keccak_256 :: "nat \<Rightarrow> byte list \<Rightarrow> byte list option" where "keccak_256 = keccak 256"
definition keccak_512 :: "nat \<Rightarrow> byte list \<Rightarrow> byte list option" where "keccak_512 = keccak 512"

section \<open>FIPS 202\<close>

type_synonym lanes = "nat \<Rightarrow> nat \<Rightarrow> lane"

text \<open>The lane at \<open>(x, y)\<close> of the array.\<close>

definition at :: "lane list \<Rightarrow> lanes" where
  "at a x y = a ! (5 * y + x)"

definition spec_C :: "lanes \<Rightarrow> nat \<Rightarrow> lane" where
  "spec_C A x = A x 0 XOR A x 1 XOR A x 2 XOR A x 3 XOR A x 4"

definition spec_theta :: "lanes \<Rightarrow> lanes" where
  "spec_theta A x y =
     A x y XOR (spec_C A ((x + 4) mod 5) XOR word_rotl 1 (spec_C A ((x + 1) mod 5)))"

text \<open>The walk that numbers the lanes other than \<open>(0, 0)\<close>.\<close>

fun walk :: "nat \<Rightarrow> nat \<times> nat" where
  "walk 0 = (1, 0)"
| "walk (Suc t) = (let (x, y) = walk t in (y, (2 * x + 3 * y) mod 5))"

fun walk_index :: "nat \<Rightarrow> nat \<Rightarrow> nat \<Rightarrow> nat \<Rightarrow> nat option" where
  "walk_index 0 t x y = None"
| "walk_index (Suc n) t x y = (if walk t = (x, y) then Some t else walk_index n (Suc t) x y)"

definition offset :: "nat \<Rightarrow> nat \<Rightarrow> nat" where
  "offset x y =
     (case walk_index 24 0 x y of None \<Rightarrow> 0 | Some t \<Rightarrow> ((t + 1) * (t + 2) div 2) mod 64)"

definition spec_rho :: "lanes \<Rightarrow> lanes" where
  "spec_rho A x y = word_rotl (offset x y) (A x y)"

definition spec_pi :: "lanes \<Rightarrow> lanes" where
  "spec_pi A x y = A ((x + 3 * y) mod 5) x"

definition spec_chi :: "lanes \<Rightarrow> lanes" where
  "spec_chi A x y = A x y XOR (NOT (A ((x + 1) mod 5) y) AND A ((x + 2) mod 5) y)"

text \<open>
  The round constants: bit \<open>2^j - 1\<close> of constant \<open>i\<close> is the lowest bit of the register
  after \<open>j + 7 i\<close> steps.
\<close>

fun lfsr_seq :: "nat \<Rightarrow> byte \<Rightarrow> byte list" where
  "lfsr_seq 0 r = []"
| "lfsr_seq (Suc n) r = r # lfsr_seq n (push_bit 1 r XOR (if bit r 7 then 0x71 else 0))"

definition round_constant :: "bool list \<Rightarrow> lane" where
  "round_constant bs =
     foldl (\<lambda>w (j, b). if b then w OR push_bit (2 ^ j - 1) 1 else w) 0 (zip [0..<7] bs)"

fun round_constants :: "nat \<Rightarrow> bool list \<Rightarrow> lane list" where
  "round_constants 0 bs = []"
| "round_constants (Suc n) bs = round_constant (take 7 bs) # round_constants n (drop 7 bs)"

definition spec_RC :: "lane list" where
  "spec_RC = round_constants 24 (map (\<lambda>r. bit r 0) (lfsr_seq 168 1))"

definition spec_iota :: "nat \<Rightarrow> lanes \<Rightarrow> lanes" where
  "spec_iota i A x y = (if x = 0 \<and> y = 0 then A x y XOR spec_RC ! i else A x y)"

definition spec_round :: "nat \<Rightarrow> lanes \<Rightarrow> lanes" where
  "spec_round i A = spec_iota i (spec_chi (spec_pi (spec_rho (spec_theta A))))"

section \<open>The permutation refines FIPS 202\<close>

definition tabulate :: "lanes \<Rightarrow> lane list" where
  "tabulate A = map (\<lambda>i. A (i mod 5) (i div 5)) [0..<25]"

lemma length_tabulate [simp]: "length (tabulate A) = 25"
  by (simp add: tabulate_def)

lemma at_tabulate: "x < 5 \<Longrightarrow> y < 5 \<Longrightarrow> at (tabulate A) x y = A x y"
  by (simp add: at_def tabulate_def)

lemma rol_word_rotl: "0 < s \<Longrightarrow> s < 64 \<Longrightarrow> rol x s = word_rotl s x"
proof (rule bit_word_eqI)
  fix n
  assume s: "0 < s" "s < 64" and n: "n < LENGTH(64)"
  have l: "bit (rol x s) n \<longleftrightarrow> s \<le> n \<and> bit x (n - s) \<or> bit x (n + (64 - s))"
    using n by (auto simp: rol_def bit_or_iff bit_push_bit_iff bit_drop_bit_eq add.commute)
  have r: "bit (word_rotl s x) n \<longleftrightarrow> bit x ((n + (64 - s)) mod 64)"
    using n s by (simp add: bit_word_rotl_iff)
  show "bit (rol x s) n = bit (word_rotl s x) n"
  proof (cases "s \<le> n")
    case True
    then have "(n + (64 - s)) mod 64 = n - s" using s n by (simp add: mod_if)
    moreover have "\<not> bit x (n + (64 - s))" using True s bit_imp_le_length [of x "n + (64 - s)"] by auto
    ultimately show ?thesis using l r True by simp
  next
    case False
    then have "(n + (64 - s)) mod 64 = n + (64 - s)" using s by simp
    then show ?thesis using l r False by simp
  qed
qed

lemma upt_25: "[0..<25] = [0, 1, 2, 3, 4, 5, 6, 7, 8, 9, 10, 11, 12, 13, 14, 15, 16, 17, 18, 19,
    20, 21, 22, 23, 24 :: nat]"
  by (simp add: upt_rec)

lemma lanes_cases:
  assumes "length a = 25"
  obtains a0 a1 a2 a3 a4 a5 a6 a7 a8 a9 a10 a11 a12 a13 a14 a15 a16 a17 a18 a19 a20 a21 a22 a23 a24
    where "a = [a0, a1, a2, a3, a4, a5, a6, a7, a8, a9, a10, a11, a12, a13, a14, a15, a16, a17, a18, a19, a20, a21, a22, a23, a24]"
proof (rule that)
  have "a = map (\<lambda>i. a ! i) [0..<25]" using map_nth [of a] assms by simp
  then show "a = [a ! 0, a ! 1, a ! 2, a ! 3, a ! 4, a ! 5, a ! 6, a ! 7, a ! 8, a ! 9, a ! 10, a ! 11, a ! 12, a ! 13, a ! 14, a ! 15, a ! 16, a ! 17, a ! 18, a ! 19, a ! 20, a ! 21, a ! 22, a ! 23, a ! 24]"
    unfolding upt_25 list.map .
qed

lemma theta_spec:
  assumes "length a = 25"
  shows "theta a = tabulate (spec_theta (at a))"
proof -
  show ?thesis
  proof (rule lanes_cases [OF assms])
    fix a0 a1 a2 a3 a4 a5 a6 a7 a8 a9 a10 a11 a12 a13 a14 a15 a16 a17 a18 a19 a20 a21 a22 a23 a24
    assume a: "a = [a0, a1, a2, a3, a4, a5, a6, a7, a8, a9, a10, a11, a12, a13, a14, a15, a16, a17, a18, a19, a20, a21, a22, a23, a24]"
    show ?thesis
      unfolding a tabulate_def upt_25 theta_def theta_b_def Let_def
      by (simp add: spec_theta_def spec_C_def at_def rol_word_rotl xor.assoc)
  qed
qed

text \<open>The tables: the lane numbers along the walk, their offsets, and the round constants.\<close>

lemma offset_table:
  "offset 0 0 = 0 \<and> offset 1 0 = 1 \<and> offset 2 0 = 62 \<and> offset 3 0 = 28 \<and> offset 4 0 = 27 \<and>
    offset 0 1 = 36 \<and> offset 1 1 = 44 \<and> offset 2 1 = 6 \<and> offset 3 1 = 55 \<and> offset 4 1 = 20 \<and>
    offset 0 2 = 3 \<and> offset 1 2 = 10 \<and> offset 2 2 = 43 \<and> offset 3 2 = 25 \<and> offset 4 2 = 39 \<and>
    offset 0 3 = 41 \<and> offset 1 3 = 45 \<and> offset 2 3 = 15 \<and> offset 3 3 = 21 \<and> offset 4 3 = 8 \<and>
    offset 0 4 = 18 \<and> offset 1 4 = 2 \<and> offset 2 4 = 61 \<and> offset 3 4 = 56 \<and> offset 4 4 = 14"
  by code_simp

lemma upt_24: "[0..<24] = [0, 1, 2, 3, 4, 5, 6, 7, 8, 9, 10, 11, 12, 13, 14, 15, 16, 17, 18, 19,
    20, 21, 22, 23 :: nat]"
  by (simp add: upt_rec)

lemma rho_pi_spec:
  assumes "length a = 25"
  shows "rho_pi a = tabulate (spec_pi (spec_rho (at a)))"
proof (rule lanes_cases [OF assms])
  fix a0 a1 a2 a3 a4 a5 a6 a7 a8 a9 a10 a11 a12 a13 a14 a15 a16 a17 a18 a19 a20 a21 a22 a23 a24
  assume a: "a = [a0, a1, a2, a3, a4, a5, a6, a7, a8, a9, a10, a11, a12, a13, a14, a15, a16, a17, a18, a19, a20, a21, a22, a23, a24]"
  have r0: "word_rotl 0 w = w" for w :: lane by (rule bit_word_eqI) (simp add: bit_word_rotl_iff)
  note off = offset_table [unfolded numeral_1_eq_Suc_0 One_nat_def]
  show ?thesis
    unfolding a tabulate_def upt_25 rho_pi_def upt_24 rho_def pi_def
    by (simp add: spec_pi_def spec_rho_def at_def rol_word_rotl off r0)
qed

lemma chi_spec:
  assumes "length a = 25"
  shows "chi a = tabulate (spec_chi (at a))"
proof (rule lanes_cases [OF assms])
  fix a0 a1 a2 a3 a4 a5 a6 a7 a8 a9 a10 a11 a12 a13 a14 a15 a16 a17 a18 a19 a20 a21 a22 a23 a24
  assume a: "a = [a0, a1, a2, a3, a4, a5, a6, a7, a8, a9, a10, a11, a12, a13, a14, a15, a16, a17, a18, a19, a20, a21, a22, a23, a24]"
  show ?thesis
    unfolding a tabulate_def upt_25 chi_def Let_def
    by (simp add: spec_chi_def at_def)
qed

lemma RC_spec: "RC = spec_RC"
  by code_simp

definition agree :: "lanes \<Rightarrow> lanes \<Rightarrow> bool" where
  "agree A B \<longleftrightarrow> (\<forall>x < 5. \<forall>y < 5. A x y = B x y)"

lemma tabulate_cong: "agree A B \<Longrightarrow> tabulate A = tabulate B"
  by (auto simp: tabulate_def agree_def)

lemma agree_tabulate: "agree (at (tabulate A)) A"
  by (simp add: agree_def at_tabulate)

lemma agree_steps:
  assumes "agree A B"
  shows "agree (spec_theta A) (spec_theta B)" "agree (spec_pi (spec_rho A)) (spec_pi (spec_rho B))"
    "agree (spec_chi A) (spec_chi B)" "agree (spec_iota i A) (spec_iota i B)"
  using assms
  by (simp_all add: agree_def spec_theta_def spec_C_def spec_pi_def spec_rho_def spec_chi_def spec_iota_def)

lemma iota_spec:
  assumes "length a = 25"
  shows "iota i a = tabulate (spec_iota i (at a))"
proof (rule nth_equalityI)
  show "length (iota i a) = length (tabulate (spec_iota i (at a)))" using assms by (simp add: iota_def)
  fix k
  assume "k < length (iota i a)"
  then have k: "k < 25" using assms by (simp add: iota_def)
  then have "k mod 5 = 0 \<and> k div 5 = 0 \<longleftrightarrow> k = 0" by auto
  then show "iota i a ! k = tabulate (spec_iota i (at a)) ! k"
    using k assms by (auto simp: iota_def tabulate_def spec_iota_def at_def nth_list_update RC_spec)
qed

lemma keccak_round_spec:
  assumes "length a = 25"
  shows "keccak_round a i = tabulate (spec_round i (at a))"
proof -
  have t: "theta a = tabulate (spec_theta (at a))" by (rule theta_spec [OF assms])
  have r: "rho_pi (theta a) = tabulate (spec_pi (spec_rho (spec_theta (at a))))"
    unfolding t rho_pi_spec [OF length_tabulate]
    by (intro tabulate_cong agree_steps agree_tabulate)
  have c: "chi (rho_pi (theta a)) = tabulate (spec_chi (spec_pi (spec_rho (spec_theta (at a)))))"
    unfolding r chi_spec [OF length_tabulate] by (intro tabulate_cong agree_steps agree_tabulate)
  show ?thesis
    unfolding keccak_round_def c iota_spec [OF length_tabulate] spec_round_def
    by (intro tabulate_cong agree_steps agree_tabulate)
qed

lemma agree_round: "agree A B \<Longrightarrow> agree (spec_round i A) (spec_round i B)"
  unfolding spec_round_def by (intro agree_steps)

definition spec_permute :: "lanes \<Rightarrow> lanes" where
  "spec_permute A = foldl (\<lambda>A i. spec_round i A) A [0..<24]"

lemma permute_spec:
  assumes "length a = 25"
  shows "permute a = tabulate (spec_permute (at a))"
proof -
  have "length b = 25 \<Longrightarrow> agree (at b) B \<Longrightarrow>
      foldl keccak_round b (i # is') = tabulate (foldl (\<lambda>A i. spec_round i A) B (i # is'))" for b B i is'
  proof (induction is' arbitrary: b B i)
    case Nil
    then show ?case using tabulate_cong [OF agree_round [OF Nil(2), of i]] by (simp add: keccak_round_spec)
  next
    case (Cons j js)
    have "keccak_round b i = tabulate (spec_round i B)"
      using Cons.prems tabulate_cong [OF agree_round [OF Cons.prems(2), of i]] by (simp add: keccak_round_spec)
    then show ?case using Cons.IH [OF length_tabulate agree_tabulate, of "spec_round i B" j] by simp
  qed
  then show ?thesis
    using assms by (simp add: permute_def spec_permute_def upt_24 agree_def del: foldl_Cons)
qed

section \<open>The sponge refines its specification on the padded message\<close>

lemma length_foldl_map [simp]: "length (concat (map bytes_of_lane ls)) = 8 * length ls"
  by (induction ls) (simp_all add: bytes_of_lane_def)

lemma length_permute: "length a = 25 \<Longrightarrow> length (permute a) = 25"
  by (simp add: permute_spec)

lemma length_keccakf [simp]: "length (keccakf s) = 200"
  by (simp add: keccakf_def length_permute)

lemma length_xorin [simp]: "length (xorin d s n) = length d"
  by (induction n) (simp_all add: xorin_def)

lemma xorin_nth: "i < length d \<Longrightarrow> xorin d s n ! i = (if i < n then d ! i XOR s ! i else d ! i)"
proof (induction n)
  case (Suc n)
  have "xorin d s (Suc n) = (xorin d s n)[n := xorin d s n ! n XOR s ! n]" by (simp add: xorin_def)
  then show ?case using Suc by (cases "i = n") auto
qed (simp add: xorin_def)

text \<open>
  A block is xored into the first bytes of the state; the padding appends the domain byte,
  zeros, and the final bit.
\<close>

definition spec_xor :: "byte list \<Rightarrow> byte list \<Rightarrow> byte list" where
  "spec_xor s b = map2 (\<lambda>x y. x XOR y) s (b @ replicate (length s - length b) 0)"

function spec_absorb :: "nat \<Rightarrow> byte list \<Rightarrow> byte list \<Rightarrow> byte list" where
  "spec_absorb rate s p =
     (if 0 < rate \<and> p \<noteq> [] then spec_absorb rate (keccakf (spec_xor s (take rate p))) (drop rate p) else s)"
  by pat_completeness auto
termination by (relation "measure (\<lambda>(_, _, p). length p)") auto

declare spec_absorb.simps [simp del]

definition spec_pad :: "nat \<Rightarrow> byte \<Rightarrow> nat \<Rightarrow> byte list" where
  "spec_pad rate delim n =
     (let k = rate - n mod rate
      in if k = 1 then [delim XOR 0x80] else delim # replicate (k - 2) 0 @ [0x80])"

fun spec_squeeze :: "nat \<Rightarrow> nat \<Rightarrow> byte list \<Rightarrow> byte list" where
  "spec_squeeze rate 0 s = []"
| "spec_squeeze rate (Suc k) s = take rate s @ spec_squeeze rate k (keccakf s)"

definition spec_sponge :: "nat \<Rightarrow> byte \<Rightarrow> byte list \<Rightarrow> nat \<Rightarrow> byte list" where
  "spec_sponge rate delim m n =
     take n (spec_squeeze rate (Suc (n div rate))
       (spec_absorb rate (replicate 200 0) (m @ spec_pad rate delim (length m))))"

lemma length_spec_xor [simp]: "length b \<le> length s \<Longrightarrow> length (spec_xor s b) = length s"
  by (simp add: spec_xor_def)

lemma spec_xor_nth:
  "length b \<le> length s \<Longrightarrow> i < length s \<Longrightarrow>
     spec_xor s b ! i = s ! i XOR (if i < length b then b ! i else 0)"
  by (simp add: spec_xor_def nth_append)

lemma xorin_block: "length s = 200 \<Longrightarrow> n \<le> length inp \<Longrightarrow> n \<le> 200 \<Longrightarrow>
    xorin s inp n = spec_xor s (take n inp)"
  by (rule nth_equalityI) (simp_all add: xorin_nth spec_xor_nth)

lemma length_spec_pad: "0 < rate \<Longrightarrow> length (spec_pad rate delim n) = rate - n mod rate"
proof -
  assume "0 < rate"
  then have "n mod rate < rate" by simp
  then show ?thesis by (auto simp: spec_pad_def Let_def)
qed

lemma spec_pad_nth:
  assumes "0 < rate" "n < rate" "i < rate - n"
  shows "spec_pad rate delim n ! i =
    (if i = 0 then delim else 0) XOR (if Suc (n + i) = rate then 0x80 else 0)"
proof (cases "rate - n = 1")
  case True
  then have "Suc n = rate" "i = 0" using assms by linarith+
  then show ?thesis using True assms by (simp add: spec_pad_def)
next
  case False
  show ?thesis
  proof (cases i)
    case 0
    have "Suc n \<noteq> rate" using False assms(2) by linarith
    then show ?thesis using 0 assms False by (simp add: spec_pad_def Let_def)
  next
    case (Suc j)
    then show ?thesis using assms False
      by (auto simp: spec_pad_def Let_def nth_append)
  qed
qed

lemma last_block:
  assumes "0 < rate" "rate < 200" "length s = 200" "length rest < rate"
    "n = length rest"
  shows "xorin (let a = s[n := s ! n XOR delim] in a[rate - 1 := a ! (rate - 1) XOR 0x80]) rest n =
    spec_xor s (rest @ spec_pad rate delim n)"
proof (rule nth_equalityI)
  have lp: "length (spec_pad rate delim n) = rate - n"
    using length_spec_pad [OF assms(1)] assms(4,5) by simp
  show "length (xorin (let a = s[n := s ! n XOR delim] in a[rate - 1 := a ! (rate - 1) XOR 0x80]) rest n) =
    length (spec_xor s (rest @ spec_pad rate delim n))"
    using assms lp by (simp add: Let_def)
  fix i
  assume "i < length (xorin (let a = s[n := s ! n XOR delim] in a[rate - 1 := a ! (rate - 1) XOR 0x80]) rest n)"
  then have i: "i < 200" using assms(3) by (simp add: Let_def)
  have r: "spec_xor s (rest @ spec_pad rate delim n) ! i =
      s ! i XOR (if i < rate then (rest @ spec_pad rate delim n) ! i else 0)"
    using i assms lp by (simp add: spec_xor_nth)
  have p: "spec_pad rate delim n ! (i - n) =
      (if i = n then delim else 0) XOR (if Suc i = rate then 0x80 else 0)" if "n \<le> i" "i < rate"
    using spec_pad_nth [OF assms(1), of n "i - n" delim] assms(4,5) that by simp
  show "xorin (let a = s[n := s ! n XOR delim] in a[rate - 1 := a ! (rate - 1) XOR 0x80]) rest n ! i =
    spec_xor s (rest @ spec_pad rate delim n) ! i"
    unfolding r using i assms p
    by (auto simp: Let_def xorin_nth nth_list_update nth_append xor.assoc)
qed

lemma absorb_spec:
  assumes "0 < rate" "rate < 200" "length s = 200"
  shows "\<exists>a rest. foldP_in rate s inp = (a, rest) \<and> length rest < rate \<and> length a = 200 \<and>
    spec_absorb rate s (inp @ spec_pad rate delim (length inp)) =
      keccakf (spec_xor a (rest @ spec_pad rate delim (length rest)))"
  using assms
proof (induction rate s inp rule: foldP_in.induct)
  case (1 rate s inp)
  have ne: "spec_pad rate delim (length inp) \<noteq> []"
    by (simp add: spec_pad_def Let_def)
  show ?case
  proof (cases "rate \<le> length inp")
    case True
    have pad: "spec_pad rate delim (length inp) = spec_pad rate delim (length (drop rate inp))"
      using True by (simp add: spec_pad_def le_mod_geq)
    have "spec_absorb rate s (inp @ spec_pad rate delim (length inp)) =
        spec_absorb rate (keccakf (xorin s inp rate))
          (drop rate inp @ spec_pad rate delim (length (drop rate inp)))"
      using True 1(2-4) ne unfolding pad
      by (subst spec_absorb.simps) (simp add: xorin_block)
    moreover have "foldP_in rate s inp = foldP_in rate (keccakf (xorin s inp rate)) (drop rate inp)"
      using True 1(2) by (subst foldP_in.simps) simp
    ultimately show ?thesis using 1(1) True 1(2,3) by simp
  next
    case False
    have l: "length (inp @ spec_pad rate delim (length inp)) = rate"
      using False length_spec_pad [OF 1(2)] by simp
    have "spec_absorb rate s (inp @ spec_pad rate delim (length inp)) =
        keccakf (spec_xor s (inp @ spec_pad rate delim (length inp)))"
      using 1(2) ne l by (subst spec_absorb.simps) (simp add: spec_absorb.simps [of _ _ "[]"])
    moreover have "foldP_in rate s inp = (s, inp)" using False by (subst foldP_in.simps) simp
    ultimately show ?thesis using False 1(4) by auto
  qed
qed

lemma setout_take: "n \<le> length s \<Longrightarrow> setout s n = take n s"
  by (rule nth_equalityI) (simp_all add: setout_def)


lemma squeeze_spec:
  assumes "0 < rate" "rate < 200" "length a = 200"
  shows "\<exists>a' n' o'. foldP_out rate a n out = (a', n', out @ o') \<and>
    o' @ setout a' n' = take n (spec_squeeze rate (Suc (n div rate)) a)"
  using assms
proof (induction rate a n out rule: foldP_out.induct)
  case (1 rate a n out)
  show ?case
  proof (cases "rate \<le> n")
    case True
    then have d: "n div rate = Suc ((n - rate) div rate)" using 1(2) by (simp add: le_div_geq)
    obtain a' n' o' where ih: "foldP_out rate (keccakf a) (n - rate) (out @ setout a rate) =
          (a', n', (out @ setout a rate) @ o')"
        "o' @ setout a' n' = take (n - rate) (spec_squeeze rate (Suc ((n - rate) div rate)) (keccakf a))"
      using 1(1) True 1(2,3) by auto
    have "foldP_out rate a n out = (a', n', out @ (setout a rate @ o'))"
      using ih(1) True 1(2) by (subst foldP_out.simps) simp
    moreover have "(setout a rate @ o') @ setout a' n' = take n (spec_squeeze rate (Suc (n div rate)) a)"
      using ih(2) True 1(3,4) unfolding d by (simp add: setout_take)
    ultimately show ?thesis by blast
  next
    case False
    then have "n div rate = 0" by simp
    moreover have "foldP_out rate a n out = (a, n, out @ [])" using False by (subst foldP_out.simps) simp
    ultimately show ?thesis using False 1(3,4)
      by (intro exI [of _ a] exI [of _ n] exI [of _ "[]"]) (simp add: setout_take min_def)
  qed
qed

lemma keccak_hash_spec:
  assumes "0 < rate" "rate < 200"
  shows "keccak_hash outlen inp rate delim = Some (spec_sponge rate delim inp outlen)"
proof -
  obtain a rest where ab: "foldP_in rate (replicate 200 0) inp = (a, rest)" "length rest < rate" "length a = 200"
      "spec_absorb rate (replicate 200 0) (inp @ spec_pad rate delim (length inp)) =
        keccakf (spec_xor a (rest @ spec_pad rate delim (length rest)))"
    using absorb_spec [OF assms, of "replicate 200 0" inp delim] by auto
  define b where "b = keccakf (spec_xor a (rest @ spec_pad rate delim (length rest)))"
  have b: "keccakf (xorin (let a' = a[length rest := a ! length rest XOR delim]
      in a'[rate - 1 := a' ! (rate - 1) XOR 0x80]) rest (length rest)) = b"
    unfolding b_def using last_block [OF assms ab(3,2) refl] by simp
  obtain a' n' o' where sq: "foldP_out rate b outlen [] = (a', n', [] @ o')"
      "o' @ setout a' n' = take outlen (spec_squeeze rate (Suc (outlen div rate)) b)"
    using squeeze_spec [OF assms, of b outlen "[]"] by (auto simp: b_def)
  show ?thesis
    using assms sq b ab
    by (simp add: keccak_hash_def Plen_def Let_def spec_sponge_def b_def)
qed

lemma length_spec_squeeze:
  "0 < rate \<Longrightarrow> rate \<le> 200 \<Longrightarrow> length s = 200 \<Longrightarrow> length (spec_squeeze rate k s) = rate * k"
  by (induction k arbitrary: s) simp_all

lemma length_spec_absorb: "0 < rate \<Longrightarrow> length s = 200 \<Longrightarrow> length (spec_absorb rate s p) = 200"
proof (induction rate s p rule: spec_absorb.induct)
  case (1 rate s p)
  then show ?case by (subst spec_absorb.simps) simp
qed

lemma length_spec_sponge:
  assumes "0 < rate" "rate < 200"
  shows "length (spec_sponge rate delim m n) = n"
proof -
  have "rate * (n div rate) + n mod rate = n" "n mod rate < rate"
      "rate * Suc (n div rate) = rate + rate * (n div rate)"
    using assms(1) by simp_all
  then have "n \<le> rate * Suc (n div rate)" by linarith
  then show ?thesis
    unfolding spec_sponge_def
    by (simp only: length_take length_spec_squeeze [OF assms(1) less_imp_le [OF assms(2)]
          length_spec_absorb [OF assms(1) length_replicate]] min_absorb2)
qed

section \<open>The hash as an interface\<close>

text \<open>
  What the callers of a hash rely on: it returns a digest of the requested length for every
  input.
\<close>

locale fixed_hash =
  fixes h :: "byte list \<Rightarrow> byte list option" and n :: nat
  assumes total: "\<exists>d. h m = Some d \<and> length d = n"
begin

definition digest :: "byte list \<Rightarrow> byte list" where
  "digest m = the (h m)"

lemma digest_eq: "h m = Some (digest m)"
  using total [of m] by (auto simp: digest_def)

lemma length_digest: "length (digest m) = n"
  using total [of m] by (auto simp: digest_def)

end

interpretation k256: fixed_hash "keccak_256 32" 32
  by unfold_locales (simp add: keccak_256_def keccak_def keccak_hash_spec length_spec_sponge)

interpretation k512: fixed_hash "keccak_512 64" 64
  by unfold_locales (simp add: keccak_512_def keccak_def keccak_hash_spec length_spec_sponge)

section \<open>Properties\<close>

text \<open>
  C29: the in-place permutation is 24 rounds of FIPS 202's step mappings on the lanes, with
  the offsets and round constants the standard derives.
\<close>

theorem keccak_permutation_refines:
  assumes "length a = 25" "x < 5" "y < 5"
  shows "at (permute a) x y = foldl (\<lambda>A i. spec_round i A) (at a) [0..<24] x y \<and>
    at (keccak_round a i) x y = spec_round i (at a) x y"
  using assms by (simp add: permute_spec keccak_round_spec at_tabulate spec_permute_def del: upt_Suc)

lemma keccak_permutation_refines_witness:
  "at (keccak_round (replicate 25 0) 1) 0 0 = spec_round 1 (at (replicate 25 0)) 0 0"
  using keccak_permutation_refines [of "replicate 25 0" 0 0 1] by simp

text \<open>
  C16: every instance is the sponge on the padded message: the Keccak and SHA-3 functions fail
  exactly when more than the digest length is asked for, SHAKE never fails, and otherwise
  the requested number of bytes of the sponge is written.
\<close>

theorem keccak_sponge_refines:
  assumes "bits \<in> {128, 224, 256, 384, 512}"
  shows "keccak bits n m = (if n > bits div 8 then None else Some (spec_sponge (200 - bits div 4) 1 m n)) \<and>
    sha3 bits n m = (if n > bits div 8 then None else Some (spec_sponge (200 - bits div 4) 6 m n)) \<and>
    shake bits n m = Some (spec_sponge (200 - bits div 4) 31 m n) \<and>
    length (spec_sponge (200 - bits div 4) delim m n) = n"
  using assms by (auto simp: keccak_def sha3_def shake_def keccak_hash_spec length_spec_sponge)

lemma keccak_sponge_refines_witness:
  "keccak 256 33 [1] = None \<and> shake 256 300 [1] = Some (spec_sponge 136 31 [1] 300)"
  using keccak_sponge_refines [of 256 33 "[1]"] keccak_sponge_refines [of 256 300 "[1]"] by simp

end
