(* ===== verification/Ethash.thy ===== *)
theory Ethash
  imports Keccak Dataset_Sizes
begin

text \<open>
  The Ethash proof of work, the members \<open>genseed\<close>, \<open>gencache\<close>, \<open>fnv\<close>, \<open>fnvHash\<close>,
  \<open>lookup\<close> and \<open>hashimoto\<close> of \<open>cross_plugin_impl\<close> (\<^verbatim>\<open>src/cross/plugin/cross_plugin.cpp\<close>): byte
  buffers with offsets, and words read and written in little-endian order.  The
  specification is Ethash's, on rows: the cache as a list of 64-byte rows, the dataset items
  as lists of sixteen words, the mix as a list of thirty-two; the code refines it.

  Reading the size tables at an epoch they do not have is undefined, the value None here.
\<close>

type_synonym word32 = "32 word"

section \<open>Buffers\<close>

definition put :: "'a list \<Rightarrow> nat \<Rightarrow> 'a list \<Rightarrow> 'a list" where
  "put xs off ds = take off xs @ ds @ drop (off + length ds) xs"

definition get :: "'a list \<Rightarrow> nat \<Rightarrow> nat \<Rightarrow> 'a list" where
  "get xs off n = take n (drop off xs)"

definition le_word :: "byte list \<Rightarrow> nat \<Rightarrow> word32" where
  "le_word c i =
     ucast (c ! i) OR push_bit 8 (ucast (c ! (i + 1))) OR push_bit 16 (ucast (c ! (i + 2))) OR
     push_bit 24 (ucast (c ! (i + 3)))"

definition bytes_of_word :: "word32 \<Rightarrow> byte list" where
  "bytes_of_word w = [ucast w, ucast (drop_bit 8 w), ucast (drop_bit 16 w), ucast (drop_bit 24 w)]"

text \<open>A hash call leaves the buffer as it is when it returns -1.\<close>

definition hash_into :: "byte list \<Rightarrow> nat \<Rightarrow> byte list option \<Rightarrow> byte list" where
  "hash_into buf off h = (case h of None \<Rightarrow> buf | Some d \<Rightarrow> put buf off d)"

definition table_at :: "int list \<Rightarrow> nat \<Rightarrow> nat option" where
  "table_at t epoch = (if epoch < length t then Some (nat (t ! epoch)) else None)"

section \<open>The code\<close>

definition genseed :: "nat \<Rightarrow> byte list" where
  "genseed block_num =
     (let epoch = block_num div nat BLOCKS_PER_EPOCH
      in ((\<lambda>seed. hash_into seed 0 (keccak_256 32 seed)) ^^ epoch) (replicate 32 0))"

definition gencache_fill :: "nat \<Rightarrow> byte list \<Rightarrow> byte list" where
  "gencache_fill sz seed =
     (let part = sz mod 64;
          c = hash_into (replicate sz 0) 0 (keccak_512 64 seed);
          c = foldl (\<lambda>c i. hash_into c (i * 64) (keccak_512 64 (get c ((i - 1) * 64) 64))) c
                [1..<sz div 64]
      in hash_into c (sz - part) (keccak_512 part (get c (sz - part - 64) 64)))"

definition gencache_step :: "nat \<Rightarrow> byte list \<Rightarrow> nat \<Rightarrow> byte list" where
  "gencache_step rows c j =
     (let srcOff = nat (u32 (int (((j + rows - 1) mod rows) * 64)));
          dstOff = nat (u32 (int (j * 64)));
          i32 = le_word c dstOff;
          xorOff = nat (u32 (int (unat i32 mod rows * 64)));
          xorRow = map (\<lambda>k. c ! (srcOff + k) XOR c ! (xorOff + k)) [0..<64]
      in hash_into c dstOff (keccak_512 64 xorRow))"

definition gencache_mix :: "nat \<Rightarrow> byte list \<Rightarrow> byte list" where
  "gencache_mix rows c = ((\<lambda>c. foldl (gencache_step rows) c [0..<rows]) ^^ 3) c"

definition gencache :: "nat \<Rightarrow> word32 list option" where
  "gencache block_num =
     (let seed = genseed block_num;
          epoch = block_num div nat BLOCKS_PER_EPOCH
      in case table_at datasetSizes epoch of
           None \<Rightarrow> None
         | Some sz \<Rightarrow>
             (let c = gencache_mix (sz div 64) (gencache_fill sz seed)
              in Some (map (\<lambda>i. le_word c (i * 4)) [0..<sz div 4])))"

definition fnv :: "word32 \<Rightarrow> word32 \<Rightarrow> word32" where
  "fnv a b = (a * 0x01000193) XOR b"

definition fnvHash :: "word32 list \<Rightarrow> word32 list \<Rightarrow> nat \<Rightarrow> word32 list" where
  "fnvHash mix data len = foldl (\<lambda>m i. m[i := (m ! i * 0x01000193) XOR data ! i]) mix [0..<len]"

definition lookup_parent :: "word32 \<Rightarrow> nat \<Rightarrow> word32 list \<Rightarrow> word32 list \<Rightarrow> nat \<Rightarrow> word32 list" where
  "lookup_parent index rows cache intMix i =
     (let parent = unat (fnv (index XOR of_nat i) (intMix ! (i mod 16))) mod rows
      in fnvHash intMix (drop (parent * 16) cache) 16)"

definition lookup :: "nat \<Rightarrow> word32 \<Rightarrow> word32 list \<Rightarrow> word32 list option" where
  "lookup epoch index cache =
     (case table_at datasetSizes epoch of
        None \<Rightarrow> None
      | Some sz \<Rightarrow>
          (let cache_length = sz div 4;
               hashWords = 16;
               rows = cache_length div hashWords;
               t = cache ! (unat index mod rows * hashWords) XOR index;
               mix = put (replicate 64 0) 0 (bytes_of_word t);
               mix = foldl (\<lambda>m i. put m (i * 4)
                             (bytes_of_word (cache ! (unat index mod rows * hashWords + i)))) mix [1..<16];
               mix = hash_into mix 0 (keccak_512 64 mix);
               intMix = map (\<lambda>i. le_word mix (i * 4)) [0..<hashWords];
               intMix = foldl (lookup_parent index rows cache) intMix [0..<256];
               mix = hash_into mix 0 (keccak_512 64 (concat (map bytes_of_word intMix)))
           in Some (map (\<lambda>i. le_word mix (i * 4)) [0..<hashWords])))"

definition hashimoto_access ::
    "nat \<Rightarrow> word32 list \<Rightarrow> word32 \<Rightarrow> nat \<Rightarrow> word32 list option \<Rightarrow> nat \<Rightarrow> word32 list option" where
  "hashimoto_access epoch cache seed_head rows mix i =
     (case mix of
        None \<Rightarrow> None
      | Some mix \<Rightarrow>
          (let parent = unat (fnv (of_nat i XOR seed_head) (mix ! (i mod 32))) mod rows
           in case (lookup epoch (of_nat (2 * parent + 0)) cache, lookup epoch (of_nat (2 * parent + 1)) cache) of
                (Some d0, Some d1) \<Rightarrow>
                  (let temp = put (put (replicate 32 0) 0 (map (\<lambda>k. d0 ! k) [0..<16])) 16
                                (map (\<lambda>k. d1 ! k) [0..<16])
                   in Some (fnvHash mix temp 32))
              | _ \<Rightarrow> None))"

definition hashimoto_compress :: "word32 list \<Rightarrow> word32 list" where
  "hashimoto_compress mix =
     foldl (\<lambda>m i. m[i div 4 := fnv (fnv (fnv (m ! i) (m ! (i + 1))) (m ! (i + 2))) (m ! (i + 3))]) mix
       [0, 4, 8, 12, 16, 20, 24, 28]"

definition hashimoto ::
    "nat \<Rightarrow> word32 list \<Rightarrow> byte list \<Rightarrow> 64 word \<Rightarrow> (byte list \<times> byte list) option" where
  "hashimoto epoch cache hash nonce =
     (case table_at cacheSizes epoch of
        None \<Rightarrow> None
      | Some sz \<Rightarrow>
          (let rows = nat (u32 (int (sz div 128)));
               seed = map (\<lambda>i. hash ! i) [0..<32] @ map (\<lambda>i. bytes_of_lane nonce ! i) [0..<8];
               seed_hash = hash_into (replicate 64 0) 0 (keccak_512 64 seed);
               seed_head = le_word seed_hash 0;
               mix = map (\<lambda>i. le_word seed_hash (i mod 16 * 4)) [0..<32]
           in case foldl (hashimoto_access epoch cache seed_head rows) (Some mix) [0..<64] of
                None \<Rightarrow> None
              | Some mix \<Rightarrow>
                  (let mix = hashimoto_compress mix;
                       digest = concat (map (\<lambda>i. bytes_of_word (mix ! i)) [0..<8]);
                       append = map (\<lambda>i. if i < 64 then seed_hash ! i else digest ! (i - 64)) [0..<96];
                       result = hash_into (replicate 32 0) 0 (keccak_256 32 append)
                   in Some (digest, result))))"

section \<open>Ethash\<close>

abbreviation H512 :: "byte list \<Rightarrow> byte list" where "H512 \<equiv> k512.digest"
abbreviation H256 :: "byte list \<Rightarrow> byte list" where "H256 \<equiv> k256.digest"

definition xor_row :: "byte list \<Rightarrow> byte list \<Rightarrow> byte list" where
  "xor_row = map2 (\<lambda>x y. x XOR y)"

definition spec_fill :: "nat \<Rightarrow> byte list \<Rightarrow> byte list list" where
  "spec_fill n seed = map (\<lambda>i. (H512 ^^ Suc i) seed) [0..<n]"

definition spec_step :: "nat \<Rightarrow> byte list list \<Rightarrow> nat \<Rightarrow> byte list list" where
  "spec_step n R j =
     R[j := H512 (xor_row (R ! ((j + n - 1) mod n)) (R ! (unat (le_word (R ! j) 0) mod n)))]"

definition spec_cache :: "nat \<Rightarrow> byte list \<Rightarrow> byte list list" where
  "spec_cache n seed = ((\<lambda>R. foldl (spec_step n) R [0..<n]) ^^ 3) (spec_fill n seed)"

definition words :: "nat \<Rightarrow> byte list \<Rightarrow> word32 list" where
  "words n bs = map (\<lambda>i. le_word bs (i * 4)) [0..<n]"

definition bytes :: "word32 list \<Rightarrow> byte list" where
  "bytes ws = concat (map bytes_of_word ws)"

text \<open>The hash on words, and an item of the dataset from the rows \<open>C\<close> of the cache.\<close>

definition hash_words :: "word32 list \<Rightarrow> word32 list" where
  "hash_words ws = words 16 (H512 (bytes ws))"

definition spec_item :: "word32 list list \<Rightarrow> word32 \<Rightarrow> word32 list" where
  "spec_item C i =
     (let n = length C;
          m = C ! (unat i mod n);
          m = hash_words (m[0 := m ! 0 XOR i]);
          m = foldl (\<lambda>m j. map2 fnv m (C ! (unat (fnv (i XOR of_nat j) (m ! (j mod 16))) mod n))) m [0..<256]
      in hash_words m)"

abbreviation mix_quad :: "word32 list \<Rightarrow> nat \<Rightarrow> word32" where
  "mix_quad m i \<equiv> fnv (fnv (fnv (m ! (4 * i)) (m ! (4 * i + 1))) (m ! (4 * i + 2))) (m ! (4 * i + 3))"

definition spec_hashimoto ::
    "nat \<Rightarrow> (nat \<Rightarrow> word32 list) \<Rightarrow> byte list \<Rightarrow> 64 word \<Rightarrow> byte list \<times> byte list" where
  "spec_hashimoto full_size item hash nonce =
     (let s = H512 (hash @ bytes_of_lane nonce);
          sw = words 16 s;
          m = foldl (\<lambda>m i. let p = unat (fnv (of_nat i XOR sw ! 0) (m ! (i mod 32))) mod (full_size div 128)
                           in map2 fnv m (item (2 * p) @ item (2 * p + 1))) (sw @ sw) [0..<64];
          cm = map (mix_quad m) [0..<8]
      in (bytes cm, H256 (s @ bytes cm)))"

section \<open>Rows of a buffer\<close>

definition rows_ok :: "nat \<Rightarrow> 'a list list \<Rightarrow> bool" where
  "rows_ok w R \<longleftrightarrow> (\<forall>r \<in> set R. length r = w)"

lemma rows_ok_simps [simp]:
  "rows_ok w []" "rows_ok w (r # R) \<longleftrightarrow> length r = w \<and> rows_ok w R"
  "rows_ok w (R @ S) \<longleftrightarrow> rows_ok w R \<and> rows_ok w S"
  by (auto simp: rows_ok_def)

lemma length_rows: "rows_ok w R \<Longrightarrow> length (concat R) = w * length R"
  by (induction R) simp_all

lemma rows_split:
  assumes "rows_ok w R" "i < length R"
  shows "concat R = concat (take i R) @ R ! i @ concat (drop (Suc i) R)"
    "length (concat (take i R)) = i * w" "length (R ! i) = w"
proof -
  have "R = take i R @ R ! i # drop (Suc i) R" using assms(2) by (rule id_take_nth_drop)
  then show "concat R = concat (take i R) @ R ! i @ concat (drop (Suc i) R)"
    by (metis concat.simps(2) concat_append)
  have "rows_ok w (take i R)" using assms(1) by (auto simp: rows_ok_def dest: in_set_takeD)
  from length_rows [OF this] show "length (concat (take i R)) = i * w"
    using assms(2) by (simp add: min_absorb2 mult.commute del: length_concat)
  show "length (R ! i) = w" using assms by (simp add: rows_ok_def)
qed

lemma get_row: "rows_ok w R \<Longrightarrow> i < length R \<Longrightarrow> get (concat R) (i * w) w = R ! i"
  using rows_split [of w R i] by (simp add: get_def)

lemma nth_row: "rows_ok w R \<Longrightarrow> i < length R \<Longrightarrow> k < w \<Longrightarrow> concat R ! (i * w + k) = R ! i ! k"
  using rows_split [of w R i] by (simp add: nth_append)

lemma put_row:
  assumes "rows_ok w R" "i < length R" "length d = w"
  shows "put (concat R) (i * w) d = concat (R[i := d])" "rows_ok w (R[i := d])"
proof -
  note s = rows_split [OF assms(1,2)]
  have "put (concat R) (i * w) d = concat (take i R) @ d @ concat (drop (Suc i) R)"
    using s(2,3) assms(3) by (subst s(1)) (simp add: put_def)
  then show "put (concat R) (i * w) d = concat (R[i := d])"
    using assms(2) by (simp add: upd_conv_take_nth_drop)
  show "rows_ok w (R[i := d])" using assms by (auto simp: rows_ok_def dest: set_update_subset_insert [THEN subsetD])
qed

lemma foldl_sim:
  assumes "P a b" "\<And>x a b. x \<in> set xs \<Longrightarrow> P a b \<Longrightarrow> P (f a x) (g b x)"
  shows "P (foldl f a xs) (foldl g b xs)"
  using assms by (induction xs arbitrary: a b) auto

lemma funpow_sim:
  assumes "P a b" "\<And>a b. P a b \<Longrightarrow> P (f a) (g b)"
  shows "P ((f ^^ n) a) ((g ^^ n) b)"
  using assms by (induction n) auto

lemma foldl_update:
  "k \<le> length xs \<Longrightarrow> foldl (\<lambda>m i. m[i := f i (m ! i)]) xs [0..<k] = map (\<lambda>i. f i (xs ! i)) [0..<k] @ drop k xs"
proof (induction k)
  case (Suc k)
  then have "drop k xs = xs ! k # drop (Suc k) xs" by (simp add: Cons_nth_drop_Suc)
  then show ?case using Suc by (simp add: nth_append list_update_append)
qed simp

definition rows_rel :: "nat \<Rightarrow> nat \<Rightarrow> 'a list \<Rightarrow> 'a list list \<Rightarrow> bool" where
  "rows_rel w n c R \<longleftrightarrow> c = concat R \<and> rows_ok w R \<and> length R = n"

lemma rows_rel_put:
  "rows_rel w n c R \<Longrightarrow> i < n \<Longrightarrow> length d = w \<Longrightarrow> rows_rel w n (put c (i * w) d) (R[i := d])"
  by (auto simp: rows_rel_def put_row)

lemma rows_rel_replicate: "rows_rel w n (replicate (n * w) x) (replicate n (replicate w x))"
  by (induction n) (auto simp: rows_rel_def rows_ok_def replicate_add)

lemma hash_into_digest:
  "hash_into c i (keccak_512 64 m) = put c i (H512 m)"
  "hash_into c i (keccak_256 32 m) = put c i (H256 m)"
  by (simp_all add: hash_into_def k512.digest_eq k256.digest_eq)

lemma put_whole: "length c = length d \<Longrightarrow> put c 0 d = d"
  by (simp add: put_def)

section \<open>The cache\<close>

lemma genseed_digest: "genseed b = (H256 ^^ (b div 30000)) (replicate 32 0)"
proof -
  have "length ((H256 ^^ n) (replicate 32 0)) = 32" for n by (cases n) (simp_all add: k256.length_digest)
  then have "((\<lambda>seed. hash_into seed 0 (keccak_256 32 seed)) ^^ n) (replicate 32 0) = (H256 ^^ n) (replicate 32 0)" for n
    by (induction n) (simp_all add: hash_into_digest put_whole k256.length_digest)
  then show ?thesis by (simp add: genseed_def BLOCKS_PER_EPOCH_def)
qed

lemma fill_chain:
  assumes "k < n"
  shows "foldl (\<lambda>R i. R[i := H512 (R ! (i - 1))]) ((replicate n z)[0 := H512 s]) [1..<Suc k] =
    map (\<lambda>i. (H512 ^^ Suc i) s) [0..<Suc k] @ replicate (n - Suc k) z"
  using assms
proof (induction k)
  case 0
  then show ?case by (cases n) simp_all
next
  case (Suc k)
  define xs where "xs = map (\<lambda>i. (H512 ^^ Suc i) s) [0..<Suc k]"
  have xs: "length xs = Suc k" "xs ! k = (H512 ^^ Suc k) s" by (simp_all add: xs_def del: upt_Suc)
  have z: "replicate (n - Suc k) z = z # replicate (n - Suc (Suc k)) z"
    using Suc.prems by (metis Suc_diff_Suc replicate_Suc)
  have "foldl (\<lambda>R i. R[i := H512 (R ! (i - 1))]) ((replicate n z)[0 := H512 s]) [1..<Suc (Suc k)] =
    (xs @ z # replicate (n - Suc (Suc k)) z)[length xs := H512 ((xs @ z # replicate (n - Suc (Suc k)) z) ! k)]"
    using Suc xs(1) by (simp add: xs_def [symmetric] z del: upt_Suc) (simp add: xs_def)
  also have "\<dots> = (xs @ [(H512 ^^ Suc (Suc k)) s]) @ replicate (n - Suc (Suc k)) z"
    by (simp only: list_update_length) (simp add: nth_append xs)
  finally show ?case by (simp add: xs_def)
qed

lemma keccak_512_none: "keccak_512 0 m = Some []"
  using length_spec_sponge [of 72 1 m 0] by (simp add: keccak_512_def keccak_def keccak_hash_spec)

lemma put_Nil [simp]: "put c i [] = c"
  by (simp add: put_def)

lemma fill_step:
  assumes "i < n" "rows_rel 64 n c R"
  shows "rows_rel 64 n (hash_into c (i * 64) (keccak_512 64 (get c ((i - 1) * 64) 64))) (R[i := H512 (R ! (i - 1))])"
proof -
  have "get c ((i - 1) * 64) 64 = R ! (i - 1)"
    using assms unfolding rows_rel_def by (simp add: get_row less_imp_diff_less)
  then show ?thesis
    unfolding hash_into_digest using rows_rel_put [OF assms(2,1) k512.length_digest] by simp
qed

lemma gencache_fill_spec:
  assumes "0 < n"
  shows "rows_rel 64 n (gencache_fill (n * 64) seed) (spec_fill n seed)"
proof -
  let ?z = "replicate 64 0" and ?g = "\<lambda>R i. R[i := H512 (R ! (i - 1))]"
  let ?f = "\<lambda>c i. hash_into c (i * 64) (keccak_512 64 (get c ((i - 1) * 64) 64))"
  have "rows_rel 64 n (put (replicate (n * 64) 0) (0 * 64) (H512 seed)) ((replicate n ?z)[0 := H512 seed])"
    by (rule rows_rel_put [OF rows_rel_replicate assms k512.length_digest])
  then have "rows_rel 64 n (foldl ?f (put (replicate (n * 64) 0) 0 (H512 seed)) [1..<n])
     (foldl ?g ((replicate n ?z)[0 := H512 seed]) [1..<n])"
    by (intro foldl_sim [where P = "rows_rel 64 n"]) (simp only: mult_zero_left, rule fill_step, simp_all)
  moreover have "foldl ?g ((replicate n ?z)[0 := H512 seed]) [1..<n] = spec_fill n seed"
    using fill_chain [of "n - 1" n ?z seed] assms unfolding spec_fill_def by simp
  moreover have "gencache_fill (n * 64) seed = foldl ?f (put (replicate (n * 64) 0) 0 (H512 seed)) [1..<n]"
    by (simp only: gencache_fill_def Let_def hash_into_digest(1) mod_mult_self2_is_0 keccak_512_none)
      (simp add: hash_into_def [of _ _ "Some []"])
  ultimately show ?thesis by simp
qed

lemma u32_row: "a < n \<Longrightarrow> n * 64 < 2 ^ 32 \<Longrightarrow> nat (u32 (int (a * 64))) = a * 64"
  by (simp add: u32_def)

lemma le_word_row:
  assumes "rows_ok w R" "i < length R" "k + 3 < w"
  shows "le_word (concat R) (i * w + k) = le_word (R ! i) k"
  using nth_row [OF assms(1,2), of k] nth_row [OF assms(1,2), of "k + 1"] nth_row [OF assms(1,2), of "k + 2"]
    nth_row [OF assms(1,2), of "k + 3"] assms(3) by (simp add: le_word_def add.assoc)

lemma xor_rows:
  assumes "rows_ok w R" "i < length R" "j < length R"
  shows "map (\<lambda>k. concat R ! (i * w + k) XOR concat R ! (j * w + k)) [0..<w] = xor_row (R ! i) (R ! j)"
proof (rule nth_equalityI)
  have "length (R ! i) = w" "length (R ! j) = w" using rows_split(3) assms by blast+
  then show "length (map (\<lambda>k. concat R ! (i * w + k) XOR concat R ! (j * w + k)) [0..<w]) = length (xor_row (R ! i) (R ! j))"
    by (simp add: xor_row_def)
  fix k assume "k < length (map (\<lambda>k. concat R ! (i * w + k) XOR concat R ! (j * w + k)) [0..<w])"
  then show "map (\<lambda>k. concat R ! (i * w + k) XOR concat R ! (j * w + k)) [0..<w] ! k = xor_row (R ! i) (R ! j) ! k"
    using nth_row [OF assms(1)] assms(2,3) \<open>length (R ! i) = w\<close> \<open>length (R ! j) = w\<close> by (simp add: xor_row_def)
qed

lemma gencache_step_spec:
  assumes "j < n" "n * 64 < 2 ^ 32" "rows_rel 64 n c R"
  shows "rows_rel 64 n (gencache_step n c j) (spec_step n R j)"
proof -
  have R: "c = concat R" "rows_ok 64 R" "length R = n" using assms(3) by (simp_all add: rows_rel_def)
  have n: "(j + n - 1) mod n < n" "unat w mod n < n" for w :: word32 using assms(1) by simp_all
  have o: "nat (u32 (int (j * 64))) = j * 64" "nat (u32 (int ((j + n - 1) mod n * 64))) = (j + n - 1) mod n * 64"
      "nat (u32 (int (unat w mod n * 64))) = unat w mod n * 64" for w :: word32
    using u32_row [OF _ assms(2)] assms(1) n by blast+
  have l: "le_word c (j * 64) = le_word (R ! j) 0"
    using le_word_row [OF R(2), of j 0] R(1,3) assms(1) by simp
  have "gencache_step n c j = put c (j * 64) (H512 (xor_row (R ! ((j + n - 1) mod n)) (R ! (unat (le_word (R ! j) 0) mod n))))"
    using xor_rows [OF R(2), of "(j + n - 1) mod n" "unat (le_word (R ! j) 0) mod n"] n R(3)
    by (simp only: gencache_step_def Let_def o l hash_into_digest) (simp add: R(1))
  then show ?thesis
    unfolding spec_step_def using rows_rel_put [OF assms(3,1) k512.length_digest] by simp
qed

lemma gencache_mix_spec:
  assumes "n * 64 < 2 ^ 32" "rows_rel 64 n c R"
  shows "rows_rel 64 n (gencache_mix n c) (((\<lambda>R. foldl (spec_step n) R [0..<n]) ^^ 3) R)"
  unfolding gencache_mix_def
  by (rule funpow_sim [where P = "rows_rel 64 n", OF assms(2)], rule foldl_sim [where P = "rows_rel 64 n"])
    (auto intro: gencache_step_spec assms(1))

lemma words_concat:
  "rows_ok 64 R \<Longrightarrow> words (16 * length R) (concat R) = concat (map (words 16) R)"
proof (induction R)
  case (Cons r R)
  have "[0..<16 * length (r # R)] = [0..<16] @ map (\<lambda>i. i + 16) [0..<16 * length R]"
    by (simp add: map_add_upt upt_add_eq_append [of 0 16, symmetric] add.commute)
  moreover have "map (\<lambda>i. le_word (concat (r # R)) (i * 4)) [0..<16] = words 16 r"
    using Cons.prems by (auto simp: words_def le_word_def nth_append)
  moreover have "le_word (concat (r # R)) ((i + 16) * 4) = le_word (concat R) (i * 4)" for i
    using Cons.prems by (simp add: le_word_def nth_append add.commute)
  ultimately show ?case using Cons by (simp add: words_def o_def del: upt_Suc)
qed (simp add: words_def)

lemma dataset_rows:
  assumes "e < 2048"
  obtains n where "table_at datasetSizes e = Some (n * 64)" "0 < n" "n * 64 < 2 ^ 29" "n = nat (datasetSizes ! e) div 64"
proof -
  let ?d = "datasetSizes ! e"
  have e: "e < length datasetSizes" using assms by (simp add: datasetSizes_ok)
  have d: "?d mod 64 = 0" "16777216 + 131072 * int e - 16384 \<le> ?d" "?d < 16777216 + 131072 * int e"
    using table_ok_nth [OF datasetSizes_ok(1) e] by (simp_all add: mult.commute)
  have b: "64 \<le> ?d" "?d < 2 ^ 29" using d(2,3) assms by simp_all
  have "int (nat ?d mod 64) = 0" using d(1) b(1) by (simp add: zmod_int)
  then have "nat ?d mod 64 = 0" by simp
  then have "nat ?d = nat ?d div 64 * 64" by (metis add.right_neutral div_mult_mod_eq)
  moreover have "nat ?d < nat (2 ^ 29)" using b by (intro nat_mono_iff [THEN iffD2]) simp_all
  then have "0 < nat ?d div 64" "nat ?d < 2 ^ 29" using b(1) by simp_all
  moreover have "table_at datasetSizes e = Some (nat ?d)" using e by (simp add: table_at_def)
  ultimately show ?thesis using that [of "nat ?d div 64"] by simp
qed

lemma gencache_spec:
  assumes "b div 30000 < 2048" "table_at datasetSizes (b div 30000) = Some (n * 64)" "0 < n" "n * 64 < 2 ^ 29"
  shows "gencache b = Some (concat (map (words 16) (spec_cache n (genseed b))))"
proof -
  have "rows_rel 64 n (gencache_mix n (gencache_fill (n * 64) (genseed b))) (spec_cache n (genseed b))"
    unfolding spec_cache_def using gencache_mix_spec [OF _ gencache_fill_spec [OF assms(3)]] assms(4) by simp
  then have "words (16 * n) (gencache_mix n (gencache_fill (n * 64) (genseed b))) = concat (map (words 16) (spec_cache n (genseed b)))"
    using words_concat [of "spec_cache n (genseed b)"] by (simp add: rows_rel_def)
  then show ?thesis
    using assms(2) by (simp add: gencache_def Let_def BLOCKS_PER_EPOCH_def words_def mult.commute)
qed

section \<open>The dataset and the hash\<close>

lemma length_bytes_of_word [simp]: "length (bytes_of_word w) = 4"
  by (simp add: bytes_of_word_def)

lemma bytes_rows: "rows_ok 4 (map bytes_of_word ws)"
  by (simp add: rows_ok_def)

lemma length_bytes [simp]: "length (bytes ws) = 4 * length ws"
  using length_rows [OF bytes_rows, of ws] by (simp add: bytes_def)

lemma length_words [simp]: "length (words n bs) = n"
  by (simp add: words_def)

lemma map2_upd:
  "length xs = length ys \<Longrightarrow> foldl (\<lambda>m i. m[i := f (m ! i) (ys ! i)]) xs [0..<length xs] = map2 f xs ys"
  using foldl_update [of "length xs" xs "\<lambda>i x. f x (ys ! i)"] by (auto intro: nth_equalityI)

lemma fnvHash_map2:
  assumes "length mix = n" "n \<le> length d"
  shows "fnvHash mix d n = map2 fnv mix (take n d)"
proof -
  have "fnvHash mix d n = foldl (\<lambda>m i. m[i := fnv (m ! i) (take n d ! i)]) mix [0..<length mix]"
    unfolding fnvHash_def using assms by (auto simp: fnv_def intro!: foldl_cong)
  then show ?thesis using map2_upd [of mix "take n d" fnv] assms by simp
qed

lemma put_words:
  assumes "length vs = length ws" "k \<le> length ws"
  shows "foldl (\<lambda>m i. put m (i * 4) (bytes_of_word (ws ! i))) (bytes vs) [0..<k] = bytes (map (\<lambda>i. ws ! i) [0..<k] @ drop k vs)"
  using assms(2)
proof (induction k)
  case (Suc k)
  then have d: "drop k vs = vs ! k # drop (Suc k) vs" using assms(1) by (simp add: Cons_nth_drop_Suc)
  let ?b = "map (\<lambda>i. ws ! i) [0..<k] @ drop k vs"
  have "put (bytes ?b) (k * 4) (bytes_of_word (ws ! k)) = bytes (?b[k := ws ! k])"
    using put_row(1) [OF bytes_rows, of k ?b "bytes_of_word (ws ! k)"] Suc.prems assms(1)
    by (simp add: bytes_def map_update del: map_append)
  then show ?case using Suc by (simp add: d list_update_append del: drop_Suc_Cons)
qed simp

lemma words_digest: "map (\<lambda>i. le_word m (i * 4)) [0..<16] = words 16 m"
  by (simp add: words_def)

lemma lookup_parents:
  assumes "rows_ok 16 C" "length C = n" "0 < n"
  shows "length m = 16 \<Longrightarrow> foldl (lookup_parent i n (concat C)) m js =
     foldl (\<lambda>m j. map2 fnv m (C ! (unat (fnv (i XOR of_nat j) (m ! (j mod 16))) mod n))) m js"
proof (induction js arbitrary: m)
  case (Cons j js)
  let ?p = "unat (fnv (i XOR of_nat j) (m ! (j mod 16))) mod n"
  have p: "?p < length C" using assms by simp
  have "length (drop (?p * 16) (concat C)) \<ge> 16"
    using rows_split [OF assms(1) p] by (subst rows_split(1) [OF assms(1) p]) simp
  then have "lookup_parent i n (concat C) m j = map2 fnv m (C ! ?p)"
    using fnvHash_map2 [of m 16 "drop (?p * 16) (concat C)"] get_row [OF assms(1) p] Cons.prems
    by (simp add: lookup_parent_def Let_def get_def)
  moreover have "length (map2 fnv m (C ! ?p)) = 16" using Cons.prems rows_split(3) [OF assms(1) p] by simp
  ultimately show ?case using Cons.IH by simp
qed simp

lemma lookup_seed:
  assumes "length r = 16"
  shows "foldl (\<lambda>m i. put m (i * 4) (bytes_of_word (r ! i))) (put (replicate 64 0) 0 (bytes_of_word t)) [1..<16] =
    bytes (r[0 := t])"
proof -
  let ?r = "r[0 := t]"
  have z: "replicate 64 0 = bytes (replicate 16 0)" by (simp add: bytes_def bytes_of_word_def numeral_eq_Suc)
  have "[0..<16] = 0 # [1..<16::nat]" by (simp add: upt_conv_Cons)
  then have "foldl (\<lambda>m i. put m (i * 4) (bytes_of_word (?r ! i))) (bytes (replicate 16 0)) [0..<16] =
    foldl (\<lambda>m i. put m (i * 4) (bytes_of_word (?r ! i))) (put (replicate 64 0) 0 (bytes_of_word t)) [1..<16]"
    using assms by (simp add: z)
  also have "\<dots> = foldl (\<lambda>m i. put m (i * 4) (bytes_of_word (r ! i))) (put (replicate 64 0) 0 (bytes_of_word t)) [1..<16]"
    by (intro foldl_cong) auto
  finally show ?thesis
    using put_words [of "replicate 16 0" ?r 16] assms map_nth [of ?r] by simp
qed

lemma lookup_spec:
  assumes "table_at datasetSizes e = Some (n * 64)" "0 < n" "rows_ok 16 C" "length C = n"
  shows "lookup e i (concat C) = Some (spec_item C i)"
proof -
  let ?r = "unat i mod n"
  have r: "?r < length C" using assms by simp
  have row: "concat C ! (?r * 16 + k) = C ! ?r ! k" if "k < 16" for k using nth_row [OF assms(3) r that] .
  have l: "length (C ! ?r) = 16" using rows_split(3) [OF assms(3) r] .
  have n: "n * 64 div 4 div 16 = n" by simp
  let ?m = "(C ! ?r)[0 := C ! ?r ! 0 XOR i]"
  have s: "foldl (\<lambda>m k. put m (k * 4) (bytes_of_word (concat C ! (?r * 16 + k))))
       (put (replicate 64 0) 0 (bytes_of_word (concat C ! (?r * 16) XOR i))) [1..<16] = bytes ?m"
    unfolding lookup_seed [OF l, of "C ! ?r ! 0 XOR i", symmetric] using row [of 0]
    by (intro foldl_cong) (simp_all add: row)
  have h: "hash_into (bytes m) 0 (keccak_512 64 (bytes m)) = H512 (bytes m)" "hash_into (H512 b) 0 (keccak_512 64 a) = H512 a"
    if "length m = 16" for m a b using that by (simp_all add: hash_into_digest put_whole k512.length_digest)
  have "length ?m = 16" using l by simp
  from h [OF this] show ?thesis
    unfolding lookup_def assms(1) option.case Let_def n s
    using lookup_parents [OF assms(3,4,2), of "words 16 (H512 (bytes ?m))"]
    by (simp add: words_digest spec_item_def hash_words_def assms(4) Let_def flip: bytes_def)
qed

lemma length_spec_item [simp]: "length (spec_item C i) = 16"
  by (simp add: spec_item_def hash_words_def Let_def)

lemma access_spec:
  assumes "\<And>j. lookup e j cache = Some (item j)" "\<And>j. length (item j) = 16"
  shows "length m = 32 \<Longrightarrow> foldl (hashimoto_access e cache s rows) (Some m) is =
    Some (foldl (\<lambda>m i. let p = unat (fnv (of_nat i XOR s) (m ! (i mod 32))) mod rows
                       in map2 fnv m (item (of_nat (2 * p)) @ item (of_nat (2 * p + 1)))) m is)"
proof (induction "is" arbitrary: m)
  case (Cons i "is")
  define p where "p = unat (fnv (of_nat i XOR s) (m ! (i mod 32))) mod rows"
  have it: "map (\<lambda>k. item j ! k) [0..<16] = item j" for j using map_nth [of "item j"] assms(2) by simp
  have "hashimoto_access e cache s rows (Some m) i = Some (map2 fnv m (item (of_nat (2 * p)) @ item (of_nat (2 * p + 1))))"
    using fnvHash_map2 [OF Cons.prems, of "item (of_nat (2 * p)) @ item (of_nat (2 * p + 1))"] assms(2)
    unfolding hashimoto_access_def Let_def option.case assms(1) p_def [symmetric]
    by (simp add: put_def it)
  then show ?case using Cons.IH [of "map2 fnv m (item (of_nat (2 * p)) @ item (of_nat (2 * p + 1)))"] Cons.prems assms(2)
    by (simp add: p_def [symmetric] Let_def)
qed simp

text \<open>The compression is in place; it writes below what it still has to read.\<close>

lemma compress_in_place:
  "4 * k \<le> length m \<Longrightarrow> foldl (\<lambda>m i. m[i := mix_quad m i]) m [0..<k] = map (mix_quad m) [0..<k] @ drop k m"
proof (induction k)
  case (Suc k)
  let ?x = "map (mix_quad m) [0..<k] @ drop k m"
  have "?x ! (4 * k + j) = m ! (4 * k + j)" if "j < 4" for j using Suc.prems that by (simp add: nth_append)
  from this [of 0] this [of 1] this [of 2] this [of 3] have "mix_quad ?x k = mix_quad m k" by (simp add: numeral_eq_Suc)
  moreover have "drop k m = m ! k # drop (Suc k) m" using Suc.prems by (simp add: Cons_nth_drop_Suc)
  then have "?x[k := v] = map (mix_quad m) [0..<k] @ v # drop (Suc k) m" for v by (simp add: list_update_append)
  ultimately show ?case using Suc by simp
qed simp

lemma compress_spec:
  assumes "length m = 32"
  shows "map (\<lambda>i. hashimoto_compress m ! i) [0..<8] = map (mix_quad m) [0..<8]"
proof -
  have "[0, 4, 8, 12, 16, 20, 24, 28] = map (\<lambda>i. 4 * i) [0..<8::nat]" by (simp add: upt_rec numeral_eq_Suc)
  then have "hashimoto_compress m = foldl (\<lambda>m i. m[i := mix_quad m i]) m [0..<8]"
    by (simp add: hashimoto_compress_def foldl_map del: upt_Suc)
  also have "\<dots> = map (mix_quad m) [0..<8] @ drop 8 m" by (rule compress_in_place) (simp add: assms)
  finally show ?thesis by (auto simp: nth_append)
qed

lemma dataset_items:
  assumes "e < 2048"
  obtains n where "table_at cacheSizes e = Some n" "nat (u32 (int (n div 128))) = n div 128" "n = nat (cacheSizes ! e)"
proof -
  have e: "e < length cacheSizes" using assms by (simp add: cacheSizes_ok)
  have "cacheSizes ! e < 1073741824 + 8388608 * int e"
    using table_ok_nth(4) [OF cacheSizes_ok(1) e] by (simp add: mult.commute)
  moreover have "0 < cacheSizes ! e" using table_ok_nth(2) [OF cacheSizes_ok(1) e] .
  ultimately have "int (nat (cacheSizes ! e)) < 2 ^ 39" using assms by simp
  with \<open>0 < cacheSizes ! e\<close> have "u32 (int (nat (cacheSizes ! e) div 128)) = int (nat (cacheSizes ! e) div 128)"
    unfolding u32_def by (intro mod_pos_pos_trivial) (simp_all add: zdiv_int pos_imp_zdiv_nonneg_iff)
  then show ?thesis using that [of "nat (cacheSizes ! e)"] e by (simp add: table_at_def)
qed

lemma length_mix:
  "length m = 32 \<Longrightarrow> (\<And>j. length (item j) = 16) \<Longrightarrow>
   length (foldl (\<lambda>m i. let p = q i m in map2 f m (item (2 * p) @ item (2 * p + 1))) m is) = 32"
  by (induction "is" arbitrary: m) (simp_all add: Let_def)

lemma hashimoto_spec:
  assumes "e < 2048" "\<And>j. lookup e j cache = Some (item j)" "\<And>j. length (item j) = 16" "length hash = 32"
  shows "hashimoto e cache hash nonce = Some (spec_hashimoto (nat (cacheSizes ! e)) (\<lambda>j. item (of_nat j)) hash nonce)"
proof -
  obtain n where n: "table_at cacheSizes e = Some n" "nat (u32 (int (n div 128))) = n div 128" "n = nat (cacheSizes ! e)"
    by (rule dataset_items [OF assms(1)])
  define s where "s = H512 (hash @ bytes_of_lane nonce)"
  have ls: "length s = 64" by (simp add: s_def k512.length_digest)
  define sw where "sw = words 16 s"
  have seed: "map (\<lambda>i. hash ! i) [0..<32] @ map (\<lambda>i. bytes_of_lane nonce ! i) [0..<8] = hash @ bytes_of_lane nonce"
    using map_nth [of hash] map_nth [of "bytes_of_lane nonce"] assms(4) by (simp add: bytes_of_lane_def)
  have sh: "hash_into (replicate 64 0) 0 (keccak_512 64 (hash @ bytes_of_lane nonce)) = s"
    by (simp add: hash_into_digest s_def put_whole k512.length_digest)
  have "map (\<lambda>i. le_word s (i mod 16 * 4)) ([0..<16] @ map (\<lambda>i. i + 16) [0..<16]) = sw @ sw"
    unfolding map_append by (simp add: sw_def words_def o_def)
  moreover have "[0..<32] = [0..<16] @ map (\<lambda>i. i + 16) [0..<16::nat]"
    by (simp add: map_add_upt upt_add_eq_append [of 0 16 16, simplified])
  ultimately have mix: "map (\<lambda>i. le_word s (i mod 16 * 4)) [0..<32] = sw @ sw" by simp
  have head: "le_word s 0 = sw ! 0" by (simp add: sw_def words_def)
  define m where "m = foldl (\<lambda>m i. let p = unat (fnv (of_nat i XOR sw ! 0) (m ! (i mod 32))) mod (n div 128)
                       in map2 fnv m (item (of_nat (2 * p)) @ item (of_nat (2 * p + 1)))) (sw @ sw) [0..<64]"
  have lm: "length m = 32"
    unfolding m_def by (rule length_mix [where item = "\<lambda>j. item (of_nat j)"]) (simp_all add: sw_def assms(3))
  have acc: "foldl (hashimoto_access e cache (sw ! 0) (n div 128)) (Some (sw @ sw)) [0..<64] = Some m"
    unfolding m_def by (rule access_spec [OF assms(2,3)]) (simp add: sw_def)
  have dig: "concat (map (\<lambda>i. bytes_of_word (hashimoto_compress m ! i)) [0..<8]) = bytes (map (mix_quad m) [0..<8])"
    using arg_cong [OF compress_spec [OF lm], of bytes] by (simp only: bytes_def map_map o_def)
  have app: "map (\<lambda>i. if i < 64 then s ! i else d ! (i - 64)) [0..<96] = s @ d" if "length d = 32" for d
    using ls that by (intro nth_equalityI) (simp_all add: nth_append)
  have "length (bytes (map (mix_quad m) [0..<8])) = 32" by simp
  from app [OF this] show ?thesis
    unfolding hashimoto_def n(1) option.case Let_def n(2) seed sh mix head acc dig
      spec_hashimoto_def s_def [symmetric] sw_def [symmetric] n(3) [symmetric]
    by (simp add: hash_into_digest put_whole k256.length_digest m_def [unfolded Let_def])
qed

lemma table_None:
  assumes "2048 \<le> e"
  shows "table_at datasetSizes e = None" "table_at cacheSizes e = None"
  using assms by (simp_all add: table_at_def datasetSizes_ok cacheSizes_ok)

text \<open>The cache \<open>gencache\<close> makes is one the hash accepts; both results are 32 bytes.\<close>

lemma gencache_rows:
  assumes "gencache b = Some c"
  obtains C where "c = concat C" "rows_ok 16 C" "length C = nat (datasetSizes ! (b div 30000)) div 64" "b div 30000 < 2048"
proof -
  have e: "b div 30000 < 2048"
    using assms table_None(1) by (rule_tac ccontr) (simp add: gencache_def Let_def BLOCKS_PER_EPOCH_def)
  obtain n where n: "table_at datasetSizes (b div 30000) = Some (n * 64)" "0 < n" "n * 64 < 2 ^ 29"
      "n = nat (datasetSizes ! (b div 30000)) div 64"
    by (rule dataset_rows [OF e])
  let ?R = "spec_cache n (genseed b)"
  have "rows_rel 64 n (gencache_mix n (gencache_fill (n * 64) (genseed b))) ?R"
    unfolding spec_cache_def using gencache_mix_spec [OF _ gencache_fill_spec [OF n(2)]] n(3) by simp
  then have "length (map (words 16) ?R) = n" by (simp add: rows_rel_def)
  moreover have "rows_ok 16 (map (words 16) ?R)" by (simp add: rows_ok_def)
  moreover have "c = concat (map (words 16) ?R)" using gencache_spec [OF e n(1-3)] assms by simp
  ultimately show ?thesis using that e n(4) by blast
qed

lemma spec_hashimoto_lengths:
  assumes "spec_hashimoto n item hash nonce = (digest, result)"
  shows "length digest = 32" "length result = 32"
  using assms by (auto simp: spec_hashimoto_def Let_def k256.length_digest)

section \<open>Properties\<close>

text \<open>
  C28: for a block of one of the 2048 epochs of the tables the generated cache is Ethash's: the
  rows of the chain of hashes from the epoch's seed, mixed three times, as little-endian
  words; for a later block the size is read outside the table.
\<close>

theorem ethash_cache:
  "gencache b =
     (let e = b div 30000
      in if e < 2048
         then Some (concat (map (words 16) (spec_cache (nat (datasetSizes ! e) div 64) ((H256 ^^ e) (replicate 32 0)))))
         else None)"
proof (cases "b div 30000 < 2048")
  case True
  obtain n where n: "table_at datasetSizes (b div 30000) = Some (n * 64)" "0 < n" "n * 64 < 2 ^ 29"
      "n = nat (datasetSizes ! (b div 30000)) div 64"
    by (rule dataset_rows [OF True])
  show ?thesis using gencache_spec [OF True n(1-3)] True by (simp add: Let_def genseed_digest n(4))
next
  case False
  then show ?thesis using table_None by (simp add: gencache_def Let_def BLOCKS_PER_EPOCH_def)
qed

text \<open>
  C15: on a cache of the epoch's number of rows the computed digest and result are Ethash's
  light evaluation: 64 accesses of pairs of dataset items, each computed from 256 parent
  rows of the cache, then the compression and the final hash.
\<close>

theorem ethash_hashimoto:
  assumes "length hash = 32" "rows_ok 16 C" "length C = nat (datasetSizes ! e) div 64"
  shows "hashimoto e (concat C) hash nonce =
    (if e < 2048 then Some (spec_hashimoto (nat (cacheSizes ! e)) (\<lambda>j. spec_item C (of_nat j)) hash nonce) else None)"
proof (cases "e < 2048")
  case True
  obtain n where n: "table_at datasetSizes e = Some (n * 64)" "0 < n" "n = nat (datasetSizes ! e) div 64"
    using dataset_rows [OF True] by metis
  have l: "lookup e j (concat C) = Some (spec_item C j)" for j
    by (rule lookup_spec [OF n(1,2) assms(2)]) (simp add: n(3) assms(3))
  show ?thesis using hashimoto_spec [OF True l length_spec_item assms(1)] True by simp
next
  case False
  then show ?thesis using table_None(2) [of e] by (simp add: hashimoto_def)
qed

lemma ethash_hashimoto_witness:
  "hashimoto 0 (concat (replicate (nat (datasetSizes ! 0) div 64) (replicate 16 0))) (replicate 32 0) 5 =
     Some (spec_hashimoto (nat (cacheSizes ! 0))
       (\<lambda>j. spec_item (replicate (nat (datasetSizes ! 0) div 64) (replicate 16 0)) (of_nat j)) (replicate 32 0) 5)"
  using ethash_hashimoto [of "replicate 32 0" "replicate (nat (datasetSizes ! 0) div 64) (replicate 16 0)" 0 5]
  by (simp add: rows_ok_def)

end
