(* ===== verification/Epoch_Cache.thy ===== *)
theory Epoch_Cache
  imports Ethash
begin

text \<open>
  The epoch caches of \<open>cross_plugin_impl\<close> (\<^verbatim>\<open>src/cross/plugin/cross_plugin.cpp\<close>): the
  members \<open>lower_epoch\<close>, \<open>cache_vec\<close>, \<open>is_generating\<close> and \<open>epoch_initialized\<close>, the row of the
  contract table that remembers the lower epoch, \<open>start_epoch\<close>, \<open>generate_epoch\<close>,
  \<open>get_db_epoch\<close> and \<open>on_accepted_block\<close>.

  What \<open>epoch_mutex\<close> protects is one step of the relation \<open>epoch_step\<close>; a generator is either
  about to take the lock for the first time or computing a cache with the lock released.
  The database library packs and finds rows: \<open>pack\<close> and \<open>unpack\<close> are parameters, and an
  operation that throws is one of the \<open>fails\<close>.  An epoch outside the size tables is undefined
  in the code; a generator at such an epoch makes no step here.
\<close>

type_synonym word64 = "64 word"

section \<open>State\<close>

definition epoch_vec_size :: word64 where "epoch_vec_size = 5"

definition update_epoch_pos :: word64 where "update_epoch_pos = 2"

text \<open>A generator runs on its own thread or, \<open>sync\<close>, inside the node's main thread.\<close>

datatype generator =
    Entering (sync: bool) (goal: word64)
  | Computing (sync: bool) (goal: word64) (current: word64)

type_synonym 'b epoch_db = "(word64 \<rightharpoonup> 'b) option"

record 'b epoch_state =
  lower_epoch :: word64
  cache_vec :: "word32 list list"
  is_generating :: bool
  epoch_initialized :: bool
  epoch_db :: "'b epoch_db"
  generators :: "generator list"

definition epoch_start :: "'b epoch_db \<Rightarrow> 'b epoch_state" where
  "epoch_start db = \<lparr>lower_epoch = 0, cache_vec = [], is_generating = False, epoch_initialized = False,
     epoch_db = db, generators = []\<rparr>"

definition upper_epoch :: "'b epoch_state \<Rightarrow> word64" where
  "upper_epoch s = lower_epoch s + of_nat (length (cache_vec s))"

section \<open>The epoch table\<close>

datatype db_operation = Create_Table | Modify_Row | Create_Row

definition write_row :: "(word64 \<Rightarrow> 'b) \<Rightarrow> (db_operation \<Rightarrow> bool) \<Rightarrow> word64 \<Rightarrow> (word64 \<rightharpoonup> 'b) \<Rightarrow> (word64 \<rightharpoonup> 'b)" where
  "write_row pack fails v rows =
     (case rows 0 of
        Some _ \<Rightarrow> if fails Modify_Row then rows else rows(0 \<mapsto> pack v)
      | None \<Rightarrow> if fails Create_Row then rows else rows(0 \<mapsto> pack v))"

definition write_epoch :: "(word64 \<Rightarrow> 'b) \<Rightarrow> (db_operation \<Rightarrow> bool) \<Rightarrow> word64 \<Rightarrow> 'b epoch_db \<Rightarrow> 'b epoch_db" where
  "write_epoch pack fails v db =
     (case db of
        None \<Rightarrow> if fails Create_Table then None else Some (write_row pack fails v Map.empty)
      | Some rows \<Rightarrow> Some (write_row pack fails v rows))"

definition get_db_epoch :: "('b \<Rightarrow> word64 option) \<Rightarrow> 'b epoch_db \<Rightarrow> bool \<times> word64" where
  "get_db_epoch unpack db =
     (case db of
        None \<Rightarrow> (False, 0)
      | Some rows \<Rightarrow>
          (case rows 0 of
             None \<Rightarrow> (False, 0)
           | Some data \<Rightarrow> (case unpack data of None \<Rightarrow> (False, 0) | Some epoch \<Rightarrow> (True, epoch))))"

section \<open>Generators\<close>

text \<open>The loop test, under the lock: go on computing, or leave with the flag cleared.\<close>

definition generate_test :: "bool \<Rightarrow> word64 \<Rightarrow> 'b epoch_state \<Rightarrow> generator option \<times> 'b epoch_state" where
  "generate_test sy epoch s =
     (if upper_epoch s \<le> epoch then (Some (Computing sy epoch (upper_epoch s)), s)
      else (None, s\<lparr>is_generating := False\<rparr>))"

definition generate_enter :: "bool \<Rightarrow> word64 \<Rightarrow> 'b epoch_state \<Rightarrow> generator option \<times> 'b epoch_state" where
  "generate_enter sy epoch s =
     generate_test sy epoch
       (if lower_epoch s = 0 then s\<lparr>lower_epoch := epoch - epoch_vec_size + 1\<rparr> else s)"

definition generate_push :: "word32 list \<Rightarrow> 'b epoch_state \<Rightarrow> 'b epoch_state" where
  "generate_push result s =
     (let s = s\<lparr>cache_vec := cache_vec s @ [result]\<rparr>
      in if of_nat (length (cache_vec s)) > epoch_vec_size
         then s\<lparr>cache_vec := tl (cache_vec s), lower_epoch := lower_epoch s + 1\<rparr> else s)"

definition generate_cache :: "word64 \<Rightarrow> word32 list option" where
  "generate_cache epoch = gencache (unat (epoch * of_int BLOCKS_PER_EPOCH))"

definition generate_next ::
    "bool \<Rightarrow> word64 \<Rightarrow> word64 \<Rightarrow> 'b epoch_state \<Rightarrow> (generator option \<times> 'b epoch_state) option" where
  "generate_next sy epoch cur s =
     map_option (\<lambda>result. generate_test sy epoch (generate_push result s)) (generate_cache cur)"

text \<open>
  The whole of \<open>generate_epoch\<close> run without interruption: None when a cache is undefined or the
  loop does not end.
\<close>

partial_function (option) generate_run :: "generator option \<times> 'b epoch_state \<Rightarrow> 'b epoch_state option" where
  "generate_run p =
     (case p of
        (Some (Computing sy epoch cur), s) \<Rightarrow>
          (case generate_next sy epoch cur s of None \<Rightarrow> None | Some p' \<Rightarrow> generate_run p')
      | (_, s) \<Rightarrow> Some s)"

definition generate_epoch :: "word64 \<Rightarrow> 'b epoch_state \<Rightarrow> 'b epoch_state option" where
  "generate_epoch epoch s = generate_run (generate_enter True epoch s)"

section \<open>Handlers\<close>

definition start_epoch :: "(word64 \<Rightarrow> 'b) \<Rightarrow> (db_operation \<Rightarrow> bool) \<Rightarrow> word64 \<Rightarrow> 'b epoch_state \<Rightarrow> 'b epoch_state" where
  "start_epoch pack fails epoch s =
     (let new_lower_epoch = epoch - epoch_vec_size + 1;
          s = s\<lparr>epoch_db := write_epoch pack fails new_lower_epoch (epoch_db s)\<rparr>;
          s = (if lower_epoch s = 0 then s\<lparr>lower_epoch := new_lower_epoch\<rparr> else s)
      in if \<not> is_generating s \<and> upper_epoch s \<le> epoch
         then s\<lparr>is_generating := True, generators := generators s @ [Entering False epoch]\<rparr> else s)"

text \<open>
  The call of \<open>generate_epoch\<close> on the main thread is a synchronous generator: until it has
  finished, the main thread does nothing else, so that setting \<open>epoch_initialized\<close> before it
  runs cannot be observed.
\<close>

definition on_accepted_block :: "('b \<Rightarrow> word64 option) \<Rightarrow> 'b epoch_state \<Rightarrow> 'b epoch_state" where
  "on_accepted_block unpack s =
     (if epoch_initialized s then s
      else let cache_empty = (cache_vec s = []);
               epoch_pair = get_db_epoch unpack (epoch_db s);
               s = (if cache_empty \<and> fst epoch_pair
                    then s\<lparr>generators := generators s @ [Entering True (snd epoch_pair + epoch_vec_size - 1)]\<rparr>
                    else s)
           in s\<lparr>epoch_initialized := True\<rparr>)"

definition register_epoch :: "('b \<Rightarrow> word64 option) \<Rightarrow> 'b epoch_state \<Rightarrow> 'b epoch_state" where
  "register_epoch unpack s =
     (let epoch_pair = get_db_epoch unpack (epoch_db s)
      in if fst epoch_pair
         then s\<lparr>generators := generators s @ [Entering True (snd epoch_pair + epoch_vec_size - 1)]\<rparr> else s)"

definition find_cache :: "word64 \<Rightarrow> 'b epoch_state \<Rightarrow> word32 list option" where
  "find_cache epoch s =
     (if lower_epoch s \<le> epoch \<and> upper_epoch s > epoch then Some (cache_vec s ! unat (epoch - lower_epoch s))
      else None)"

definition get_epoch :: "('b \<Rightarrow> word64 option) \<Rightarrow> 'b epoch_state \<Rightarrow> word64 \<times> word64 \<times> word64" where
  "get_epoch unpack s =
     (snd (get_db_epoch unpack (epoch_db s)), lower_epoch s, of_nat (length (cache_vec s)))"

section \<open>Interleavings\<close>

text \<open>
  \<open>reqs\<close> are the epochs the contract asks for.  With \<open>quiet\<close> the first block is only accepted
  while no generator runs; the code does not ensure it.
\<close>

abbreviation resume :: "generator list \<Rightarrow> generator list \<Rightarrow> generator option \<times> 'b epoch_state \<Rightarrow> 'b epoch_state" where
  "resume gs hs p \<equiv> (snd p)\<lparr>generators := gs @ (case fst p of None \<Rightarrow> [] | Some g \<Rightarrow> [g]) @ hs\<rparr>"

inductive epoch_step ::
    "(word64 \<Rightarrow> 'b) \<Rightarrow> ('b \<Rightarrow> word64 option) \<Rightarrow> word64 set \<Rightarrow> bool \<Rightarrow> 'b epoch_state \<Rightarrow> 'b epoch_state \<Rightarrow> bool"
  for pack unpack reqs quiet where
  Start: "e \<in> reqs \<Longrightarrow> \<forall>g \<in> set (generators s). \<not> sync g \<Longrightarrow>
    epoch_step pack unpack reqs quiet s (start_epoch pack fails e s)"
| Accepted: "\<forall>g \<in> set (generators s). \<not> sync g \<Longrightarrow> quiet \<longrightarrow> generators s = [] \<Longrightarrow>
    epoch_step pack unpack reqs quiet s (on_accepted_block unpack s)"
| Enter: "generators s = gs @ Entering sy e # hs \<Longrightarrow>
    epoch_step pack unpack reqs quiet s (resume gs hs (generate_enter sy e s))"
| Next: "generators s = gs @ Computing sy e c # hs \<Longrightarrow> generate_next sy e c s = Some p \<Longrightarrow>
    epoch_step pack unpack reqs quiet s (resume gs hs p)"

inductive epoch_reach ::
    "(word64 \<Rightarrow> 'b) \<Rightarrow> ('b \<Rightarrow> word64 option) \<Rightarrow> word64 set \<Rightarrow> bool \<Rightarrow> 'b epoch_db \<Rightarrow> 'b epoch_state \<Rightarrow> bool"
  for pack unpack reqs quiet db where
  Registered: "epoch_reach pack unpack reqs quiet db (register_epoch unpack (epoch_start db))"
| Step: "epoch_reach pack unpack reqs quiet db s \<Longrightarrow> epoch_step pack unpack reqs quiet s s' \<Longrightarrow>
    epoch_reach pack unpack reqs quiet db s'"

section \<open>The caches stay aligned\<close>

lemmas epoch_consts = epoch_vec_size_def update_epoch_pos_def

lemma unat_of_nat64: "n < 2 ^ 64 \<Longrightarrow> unat (of_nat n :: word64) = n"
  by (simp add: unat_of_nat take_bit_nat_eq_self)

lemma unat_numeral_2048: "unat (2048 :: word64) = 2048"
  by simp

lemma unat_upper:
  "unat (lower_epoch s) + length (cache_vec s) \<le> 2048 \<Longrightarrow>
   unat (upper_epoch s) = unat (lower_epoch s) + length (cache_vec s)"
  using unat_of_nat64 [of "unat (lower_epoch s) + length (cache_vec s)"] by (simp add: upper_epoch_def)

definition caches_ok :: "'b epoch_state \<Rightarrow> bool" where
  "caches_ok s \<longleftrightarrow>
     (lower_epoch s = 0 \<longrightarrow> cache_vec s = []) \<and> length (cache_vec s) \<le> 5 \<and>
     unat (lower_epoch s) + length (cache_vec s) \<le> 2048 \<and>
     (\<forall>i < length (cache_vec s). generate_cache (lower_epoch s + of_nat i) = Some (cache_vec s ! i))"

lemma generate_push_facts:
  assumes "caches_ok s" "lower_epoch s \<noteq> 0" "generate_cache (upper_epoch s) = Some r" "unat (upper_epoch s) < 2048"
  shows "caches_ok (generate_push r s)" "lower_epoch (generate_push r s) \<noteq> 0"
    "upper_epoch (generate_push r s) = upper_epoch s + 1"
    "generators (generate_push r s) = generators s" "epoch_db (generate_push r s) = epoch_db s"
    "is_generating (generate_push r s) = is_generating s"
    "length (cache_vec (generate_push r s)) = 5 \<or> lower_epoch (generate_push r s) = lower_epoch s"
proof -
  let ?l = "lower_epoch s" and ?n = "length (cache_vec s)"
  have b: "unat ?l + ?n < 2048" "?n \<le> 5" using assms(1,4) by (auto simp: caches_ok_def unat_upper)
  have big: "(epoch_vec_size < of_nat (length (cache_vec s @ [r]))) = (?n = 5)"
    using b(2) unat_of_nat64 [of "Suc ?n"] by (auto simp: epoch_consts word_less_nat_alt simp del: of_nat_Suc)
  have l1: "unat (?l + 1) = unat ?l + 1"
    using b(1) unat_of_nat64 [of "unat ?l + 1"] by (simp add: add.commute)
  have nth: "generate_cache (?l + of_nat i) = Some ((cache_vec s @ [r]) ! i)" if "i < Suc ?n" for i
    using that assms(1,3) by (cases "i = ?n") (auto simp: caches_ok_def upper_epoch_def nth_append)
  have nth': "generate_cache (?l + 1 + of_nat i) = Some ((cache_vec s @ [r]) ! Suc i)" if "i < ?n" for i
    using nth [of "Suc i"] that by (simp add: ac_simps)
  have l0: "?l + 1 \<noteq> 0" using l1 by (metis One_nat_def add_is_0 nat.distinct(1) unat_0)
  have push: "generate_push r s =
      (if ?n = 5 then s\<lparr>cache_vec := tl (cache_vec s @ [r]), lower_epoch := ?l + 1\<rparr>
       else s\<lparr>cache_vec := cache_vec s @ [r]\<rparr>)"
  proof -
    have "(epoch_vec_size < of_nat (length (cache_vec (s\<lparr>cache_vec := cache_vec s @ [r]\<rparr>)))) = (?n = 5)"
      using big by simp
    then show ?thesis unfolding generate_push_def Let_def by (simp only:) simp
  qed
  show "caches_ok (generate_push r s)"
    using nth nth' b l1 l0 assms(2) unfolding push caches_ok_def by (simp add: nth_tl)
  show "lower_epoch (generate_push r s) \<noteq> 0" using l0 assms(2) by (simp add: push)
  show "upper_epoch (generate_push r s) = upper_epoch s + 1"
    by (simp add: push upper_epoch_def ac_simps)
  show "generators (generate_push r s) = generators s" "epoch_db (generate_push r s) = epoch_db s"
    "is_generating (generate_push r s) = is_generating s"
    "length (cache_vec (generate_push r s)) = 5 \<or> lower_epoch (generate_push r s) = lower_epoch s"
    by (simp_all add: push)
qed

fun generator_ok :: "word64 set \<Rightarrow> 'b epoch_state \<Rightarrow> generator \<Rightarrow> bool" where
  "generator_ok reqs s (Entering sy e) \<longleftrightarrow> (\<not> sy \<longrightarrow> is_generating s) \<and> e \<in> reqs"
| "generator_ok reqs s (Computing sy e c) \<longleftrightarrow>
     (\<not> sy \<longrightarrow> is_generating s) \<and> e \<in> reqs \<and> c = upper_epoch s \<and> lower_epoch s \<noteq> 0 \<and> c \<le> e"

definition db_ok :: "('b \<Rightarrow> word64 option) \<Rightarrow> word64 set \<Rightarrow> 'b epoch_db \<Rightarrow> bool" where
  "db_ok unpack reqs db \<longleftrightarrow> (\<forall>v. get_db_epoch unpack db = (True, v) \<longrightarrow> v + 4 \<in> reqs)"

definition epoch_inv :: "('b \<Rightarrow> word64 option) \<Rightarrow> word64 set \<Rightarrow> 'b epoch_state \<Rightarrow> bool" where
  "epoch_inv unpack reqs s \<longleftrightarrow>
     caches_ok s \<and> db_ok unpack reqs (epoch_db s) \<and>
     (generators s = [] \<and> \<not> is_generating s \<or> (\<exists>g. generators s = [g] \<and> generator_ok reqs s g))"

lemma one_generator:
  assumes "epoch_inv unpack reqs s" "generators s = gs @ g # hs"
  shows "gs = []" "hs = []" "generator_ok reqs s g" "caches_ok s" "db_ok unpack reqs (epoch_db s)"
  using assms by (auto simp: epoch_inv_def append_eq_Cons_conv Cons_eq_append_conv)

lemma resume_inv:
  assumes "caches_ok s" "lower_epoch s \<noteq> 0" "e \<in> reqs" "\<not> sy \<longrightarrow> is_generating s" "db_ok unpack reqs (epoch_db s)"
  shows "epoch_inv unpack reqs (resume [] [] (generate_test sy e s))"
  using assms by (simp add: epoch_inv_def generate_test_def caches_ok_def upper_epoch_def)

lemma write_epoch_ok:
  assumes "\<And>v. unpack (pack v) = Some v" "db_ok unpack reqs db" "v + 4 \<in> reqs"
  shows "db_ok unpack reqs (write_epoch pack fails v db)"
  using assms
  by (auto simp: db_ok_def get_db_epoch_def write_epoch_def write_row_def split: option.splits if_splits)

lemma start_lower:
  assumes "5 \<le> e" "e < 2048"
  shows "e - epoch_vec_size + 1 \<noteq> (0 :: word64)" "unat (e - epoch_vec_size + 1) = unat e - 4"
proof -
  have e: "5 \<le> unat e" using assms(1) by (simp add: word_le_nat_alt)
  then have "e - epoch_vec_size + 1 = of_nat (unat e - 4)" by (simp add: epoch_consts of_nat_diff)
  then show u: "unat (e - epoch_vec_size + 1) = unat e - 4"
    using unat_of_nat64 [of "unat e - 4"] unsigned_less [of e, where 'a = nat] by (simp add: less_imp_diff_less)
  show "e - epoch_vec_size + 1 \<noteq> (0 :: word64)" using u e by (auto simp flip: unat_eq_0)
qed

text \<open>The first lower epoch is set by whoever comes first; it does not move what is cached.\<close>

lemma set_lower:
  assumes "caches_ok s" "5 \<le> e" "e < 2048"
  defines "l \<equiv> (if lower_epoch s = 0 then e - epoch_vec_size + 1 else lower_epoch s)"
  shows "caches_ok (s\<lparr>lower_epoch := l\<rparr>)" "l \<noteq> 0"
  using assms(1) start_lower [OF assms(2,3)] word_less_nat_alt [of e 2048] assms(3)
  by (auto simp: l_def caches_ok_def)

lemma caches_ok_update [simp]:
  "caches_ok (s\<lparr>epoch_db := db\<rparr>) = caches_ok s" "caches_ok (s\<lparr>generators := gs\<rparr>) = caches_ok s"
  "caches_ok (s\<lparr>is_generating := b\<rparr>) = caches_ok s" "caches_ok (s\<lparr>epoch_initialized := b\<rparr>) = caches_ok s"
  by (simp_all add: caches_ok_def)

lemma upper_epoch_update [simp]:
  "upper_epoch (s\<lparr>epoch_db := db\<rparr>) = upper_epoch s" "upper_epoch (s\<lparr>generators := gs\<rparr>) = upper_epoch s"
  "upper_epoch (s\<lparr>is_generating := b\<rparr>) = upper_epoch s" "upper_epoch (s\<lparr>epoch_initialized := b\<rparr>) = upper_epoch s"
  by (simp_all add: upper_epoch_def)

lemma start_epoch_inv:
  assumes "epoch_inv unpack reqs s" "e \<in> reqs" "\<forall>g \<in> set (generators s). \<not> sync g"
    "5 \<le> e" "e < 2048" "\<And>v. unpack (pack v) = Some v"
  shows "epoch_inv unpack reqs (start_epoch pack fails e s)"
proof -
  let ?l = "e - epoch_vec_size + 1"
  define t where "t = s\<lparr>epoch_db := write_epoch pack fails ?l (epoch_db s),
    lower_epoch := (if lower_epoch s = 0 then ?l else lower_epoch s)\<rparr>"
  have "?l + 4 = e" by (simp add: epoch_consts)
  then have db: "db_ok unpack reqs (epoch_db t)"
    using write_epoch_ok [of unpack pack reqs "epoch_db s" ?l fails] assms(1,2,6) by (simp add: epoch_inv_def t_def)
  have "caches_ok (s\<lparr>epoch_db := write_epoch pack fails ?l (epoch_db s)\<rparr>)" using assms(1) by (simp add: epoch_inv_def)
  from set_lower [OF this assms(4,5)] have c: "caches_ok t"
    using assms(1) by (auto simp: t_def epoch_inv_def)
  have eq: "start_epoch pack fails e s =
     (if \<not> is_generating t \<and> upper_epoch t \<le> e
      then t\<lparr>is_generating := True, generators := generators t @ [Entering False e]\<rparr> else t)"
    by (simp add: start_epoch_def t_def Let_def)
  show ?thesis
  proof (cases "generators s = []")
    case True
    then show ?thesis unfolding eq using c db assms(1,2) by (auto simp: epoch_inv_def) (simp_all add: t_def)
  next
    case False
    then obtain g where g: "generators s = [g]" "generator_ok reqs s g" using assms(1) by (auto simp: epoch_inv_def)
    have "is_generating s" "generator_ok reqs t g"
      using g assms(3) by (cases g; simp add: t_def upper_epoch_def)+
    then show ?thesis unfolding eq using c db g(1) by (simp add: epoch_inv_def) (simp add: t_def)
  qed
qed

lemma accepted_inv:
  assumes "epoch_inv unpack reqs s" "generators s = []"
  shows "epoch_inv unpack reqs (on_accepted_block unpack s)" "epoch_inv unpack reqs (register_epoch unpack s)"
proof -
  obtain b v where p: "get_db_epoch unpack (epoch_db s) = (b, v)" by fastforce
  have "b \<Longrightarrow> v + 4 \<in> reqs" using assms(1) p by (simp add: epoch_inv_def db_ok_def)
  then have "b \<Longrightarrow> v + epoch_vec_size - 1 \<in> reqs" by (simp add: epoch_consts add_diff_eq [symmetric])
  then show "epoch_inv unpack reqs (on_accepted_block unpack s)" "epoch_inv unpack reqs (register_epoch unpack s)"
    using assms p by (simp_all add: epoch_inv_def on_accepted_block_def register_epoch_def Let_def)
qed

lemma enter_inv:
  assumes "epoch_inv unpack reqs s" "generators s = [Entering sy e]" "5 \<le> e" "e < 2048"
  shows "epoch_inv unpack reqs (resume [] [] (generate_enter sy e s))"
proof -
  have o: "caches_ok s" "db_ok unpack reqs (epoch_db s)" "e \<in> reqs" "\<not> sy \<longrightarrow> is_generating s"
    using one_generator [of unpack reqs s "[]" "Entering sy e" "[]"] assms(1,2) by simp_all
  let ?l = "if lower_epoch s = 0 then e - epoch_vec_size + 1 else lower_epoch s"
  have eq: "(if lower_epoch s = 0 then s\<lparr>lower_epoch := e - epoch_vec_size + 1\<rparr> else s) = s\<lparr>lower_epoch := ?l\<rparr>"
    by simp
  show ?thesis
    unfolding generate_enter_def eq
  proof (rule resume_inv)
    show "caches_ok (s\<lparr>lower_epoch := ?l\<rparr>)" by (rule set_lower(1) [OF o(1) assms(3,4)])
    show "lower_epoch (s\<lparr>lower_epoch := ?l\<rparr>) \<noteq> 0" using set_lower(2) [OF o(1) assms(3,4)] by simp
  qed (use o in simp_all)
qed

lemma next_inv:
  assumes "epoch_inv unpack reqs s" "generators s = [Computing sy e c]" "generate_next sy e c s = Some p" "e < 2048"
  shows "epoch_inv unpack reqs (resume [] [] p)"
proof -
  have o: "caches_ok s" "db_ok unpack reqs (epoch_db s)" "e \<in> reqs" "\<not> sy \<longrightarrow> is_generating s"
      "c = upper_epoch s" "lower_epoch s \<noteq> 0" "c \<le> e"
    using one_generator [of unpack reqs s "[]" "Computing sy e c" "[]"] assms(1,2) by auto
  obtain r where r: "generate_cache c = Some r" "p = generate_test sy e (generate_push r s)"
    using assms(3) by (auto simp: generate_next_def)
  have "upper_epoch s < 2048" using o(5,7) assms(4) by (metis le_less_trans)
  then have "unat (upper_epoch s) < 2048" by (simp add: word_less_nat_alt)
  from generate_push_facts [OF o(1,6) r(1) [unfolded o(5)] this] show ?thesis
    unfolding r(2) using o(2-4) by (intro resume_inv) simp_all
qed

lemma step_inv:
  assumes "epoch_step pack unpack reqs True s s'" "epoch_inv unpack reqs s"
    "\<forall>e \<in> reqs. 5 \<le> e \<and> e < 2048" "\<And>v. unpack (pack v) = Some v"
  shows "epoch_inv unpack reqs s'"
  using assms(1)
proof cases
  case (Start e fails)
  then show ?thesis using start_epoch_inv [OF assms(2)] assms(3,4) by simp
next
  case Accepted
  then show ?thesis using accepted_inv(1) [OF assms(2)] by simp
next
  case (Enter gs sy e hs)
  note o = one_generator [OF assms(2) Enter(2)]
  have "5 \<le> e" "e < 2048" using o(3) assms(3) by simp_all
  then show ?thesis using enter_inv [OF assms(2)] Enter o(1,2) by simp
next
  case (Next gs sy e c hs p)
  note o = one_generator [OF assms(2) Next(2)]
  have "e < 2048" using o(3) assms(3) by simp
  then show ?thesis using next_inv [OF assms(2)] Next o(1,2) by simp
qed

lemma reach_inv:
  assumes "epoch_reach pack unpack reqs True db s" "db_ok unpack reqs db"
    "\<forall>e \<in> reqs. 5 \<le> e \<and> e < 2048" "\<And>v. unpack (pack v) = Some v"
  shows "epoch_inv unpack reqs s"
  using assms(1)
proof induction
  case Registered
  have "epoch_inv unpack reqs (epoch_start db)"
    using assms(2) by (simp add: epoch_inv_def epoch_start_def caches_ok_def)
  then show ?case by (rule accepted_inv(2)) (simp add: epoch_start_def)
next
  case (Step s s')
  then show ?case using step_inv [OF Step(2,3)] assms(3,4) by blast
qed

lemma find_cache_ok:
  assumes "caches_ok s"
  shows "find_cache e s = Some c \<Longrightarrow> generate_cache e = Some c \<and> e < 2048"
    "(find_cache e s \<noteq> None) = (unat (lower_epoch s) \<le> unat e \<and> unat e < unat (lower_epoch s) + length (cache_vec s))"
proof -
  have u: "unat (upper_epoch s) = unat (lower_epoch s) + length (cache_vec s)" "unat (upper_epoch s) \<le> 2048"
    using assms unat_upper [of s] by (auto simp: caches_ok_def)
  show "(find_cache e s \<noteq> None) = (unat (lower_epoch s) \<le> unat e \<and> unat e < unat (lower_epoch s) + length (cache_vec s))"
    using u by (simp add: find_cache_def word_le_nat_alt word_less_nat_alt)
  assume f: "find_cache e s = Some c"
  then have r: "lower_epoch s \<le> e" "e < upper_epoch s" "c = cache_vec s ! unat (e - lower_epoch s)"
    by (simp_all add: find_cache_def split: if_splits)
  let ?i = "unat (e - lower_epoch s)"
  have "?i = unat e - unat (lower_epoch s)" using r(1) by (simp add: unat_sub)
  then have "?i < length (cache_vec s)" using r(1,2) u(1) by (simp add: word_le_nat_alt word_less_nat_alt)
  then have "generate_cache (lower_epoch s + of_nat ?i) = Some c"
    using assms r(3) unfolding caches_ok_def by blast
  then show "generate_cache e = Some c \<and> e < 2048" using r(2) u(2) by (simp add: word_less_nat_alt)
qed

section \<open>Generation ends\<close>

lemma generate_cache_block:
  assumes "e < 2048"
  shows "generate_cache e = gencache (unat e * 30000)" "unat e < 2048"
proof -
  show e: "unat e < 2048" using assms by (simp add: word_less_nat_alt)
  have "e * of_int BLOCKS_PER_EPOCH = of_nat (unat e * 30000)" by (simp add: BLOCKS_PER_EPOCH_def)
  then show "generate_cache e = gencache (unat e * 30000)"
    using unat_of_nat64 [of "unat e * 30000"] e by (simp add: generate_cache_def del: of_nat_mult)
qed

lemma generate_cache_total:
  assumes "e < 2048"
  obtains c C where "generate_cache e = Some c" "c = concat C" "rows_ok 16 C" "length C = nat (datasetSizes ! unat e) div 64"
proof -
  note b = generate_cache_block [OF assms]
  obtain n where n: "table_at datasetSizes (unat e) = Some (n * 64)" "0 < n" "n * 64 < 2 ^ 29"
    by (rule dataset_rows [OF b(2)])
  have "gencache (unat e * 30000) = Some (concat (map (words 16) (spec_cache n (genseed (unat e * 30000)))))"
    by (rule gencache_spec) (use n b(2) in simp_all)
  with b(1) gencache_rows [OF this] show ?thesis using that by (metis div_mult_self_is_m zero_less_numeral)
qed

lemma generate_run_simps:
  "generate_run (None, s) = Some s"
  "generate_run (Some (Computing sy e c), s) =
     (case generate_next sy e c s of None \<Rightarrow> None | Some p \<Rightarrow> generate_run p)"
  by (simp_all add: generate_run.simps)

lemma generate_run_ends:
  assumes "caches_ok s" "lower_epoch s \<noteq> 0" "e < 2048"
  shows "\<exists>s'. generate_run (generate_test sy e s) = Some s' \<and> caches_ok s' \<and> \<not> is_generating s' \<and>
    unat (upper_epoch s') = max (unat (upper_epoch s)) (unat e + 1) \<and>
    (length (cache_vec s') = 5 \<or> lower_epoch s' = lower_epoch s)"
  using assms(1,2)
proof (induction "unat e + 1 - unat (upper_epoch s)" arbitrary: s)
  case 0
  then have "\<not> upper_epoch s \<le> e" "unat e < unat (upper_epoch s)" by (simp_all add: word_le_nat_alt)
  then show ?case using 0 by (simp add: generate_test_def generate_run_simps)
next
  case (Suc d)
  then have u: "upper_epoch s \<le> e" by (simp add: word_le_nat_alt)
  have e: "unat e < 2048" using assms(3) by (simp add: word_less_nat_alt)
  have u': "unat (upper_epoch s) \<le> unat e" using u by (simp add: word_le_nat_alt)
  obtain r where r: "generate_cache (upper_epoch s) = Some r"
    using generate_cache_total [of "upper_epoch s"] u assms(3) by (metis le_less_trans)
  have "unat (upper_epoch s) < 2048" using u' e by simp
  note p = generate_push_facts [OF Suc(3,4) r this]
  have "unat (upper_epoch s + 1) = unat (upper_epoch s) + 1"
    using u' e unat_of_nat64 [of "unat (upper_epoch s) + 1"] by (simp add: add.commute)
  then have d: "unat (upper_epoch (generate_push r s)) = unat (upper_epoch s) + 1" using p(3) by simp
  have run: "generate_run (generate_test sy e s) = generate_run (generate_test sy e (generate_push r s))"
    using u r by (simp add: generate_test_def [of sy e s] generate_run_simps generate_next_def)
  have "d = unat e + 1 - unat (upper_epoch (generate_push r s))" using Suc(2) d by simp
  from Suc(1) [OF this p(1,2)] obtain s' where s': "generate_run (generate_test sy e s) = Some s'" "caches_ok s'"
      "\<not> is_generating s'" "unat (upper_epoch s') = max (unat (upper_epoch (generate_push r s))) (unat e + 1)"
      "length (cache_vec s') = 5 \<or> lower_epoch s' = lower_epoch (generate_push r s)"
    using run by auto
  have "unat (upper_epoch s') = max (unat (upper_epoch s)) (unat e + 1)" using s'(4) d u' by simp
  moreover have "length (cache_vec s') = 5 \<or> lower_epoch s' = lower_epoch s"
  proof (cases "length (cache_vec s') = 5")
    case False
    then have l: "lower_epoch s' = lower_epoch (generate_push r s)" using s'(5) by simp
    have "unat (upper_epoch (generate_push r s)) \<le> unat (upper_epoch s')" using s'(4) by simp
    then have "length (cache_vec (generate_push r s)) \<le> length (cache_vec s')"
      using unat_upper [of s'] unat_upper [of "generate_push r s"] s'(2) p(1) l by (simp add: caches_ok_def)
    then show ?thesis using False p(7) l s'(2) by (auto simp: caches_ok_def)
  qed simp
  ultimately show ?case using s'(1-3) by blast
qed

section \<open>Properties\<close>





lemma caches_differ:
  assumes "i < j" "j < 2048" "length C = nat (datasetSizes ! i) div 64" "length D = nat (datasetSizes ! j) div 64"
    "rows_ok 16 C" "rows_ok 16 D"
  shows "concat C \<noteq> concat D"
proof -
  have i: "i < 2048" using assms(1,2) by simp
  obtain m where m: "table_at datasetSizes i = Some (m * 64)" "m = nat (datasetSizes ! i) div 64" by (rule dataset_rows [OF i])
  obtain n where n: "table_at datasetSizes j = Some (n * 64)" "n = nat (datasetSizes ! j) div 64" by (rule dataset_rows [OF assms(2)])
  have "datasetSizes ! i < datasetSizes ! j"
    using table_ok_increasing [OF datasetSizes_ok(1) assms(1)] assms(2) by (simp add: datasetSizes_ok)
  moreover have "nat (datasetSizes ! i) = m * 64" "nat (datasetSizes ! j) = n * 64"
    using m(1) n(1) i assms(2) by (simp_all add: table_at_def datasetSizes_ok)
  moreover have "0 < datasetSizes ! j"
    using table_ok_nth(2) [OF datasetSizes_ok(1), of j] assms(2) by (simp add: datasetSizes_ok)
  ultimately have "length C \<noteq> length D" using assms(3,4) m(2) n(2) by linarith
  then show ?thesis using length_rows [OF assms(5)] length_rows [OF assms(6)] by (metis mult_cancel1 zero_neq_numeral)
qed

lemma reach_step:
  assumes "epoch_reach pack unpack reqs q db s" "epoch_step pack unpack reqs q s t" "t = t'"
  shows "epoch_reach pack unpack reqs q db t'"
  using Step [OF assms(1,2)] assms(3) by simp

text \<open>Two generators at work for the epoch \<open>e\<close> whose lower epoch is \<open>e - 4\<close>.\<close>

definition racing :: "word64 \<Rightarrow> 'b \<Rightarrow> generator list \<Rightarrow> bool \<Rightarrow> word32 list list \<Rightarrow> 'b epoch_state" where
  "racing e b gs ini cv = \<lparr>lower_epoch = e - 4, cache_vec = cv, is_generating = True, epoch_initialized = ini,
     epoch_db = Some [0 \<mapsto> b], generators = gs\<rparr>"

lemma race_epochs:
  assumes "5 \<le> e" "e < 2048" "k \<le> 4"
  shows "unat (e - 4 + of_nat k :: word64) = unat e - 4 + k" "unat (e - 4) = unat e - 4" "e - 4 \<noteq> 0"
    "e - epoch_vec_size + 1 = e - 4" "e - 4 + of_nat k \<le> e"
proof -
  have e: "5 \<le> unat e" "unat e < 2048" using assms(1,2) by (simp_all add: word_le_nat_alt word_less_nat_alt)
  show lo: "e - epoch_vec_size + 1 = e - 4" by (simp add: epoch_consts)
  show l: "unat (e - 4) = unat e - 4" "e - 4 \<noteq> 0" using start_lower [OF assms(1,2)] lo by simp_all
  have "e - 4 + of_nat k = of_nat (unat (e - 4) + k)" by simp
  then have "e - 4 + of_nat k = of_nat (unat e - 4 + k)" using l(1) by simp
  then show "unat (e - 4 + of_nat k) = unat e - 4 + k"
    using unat_of_nat64 [of "unat e - 4 + k"] e(2) assms(3) by (simp del: of_nat_add)
  then show "e - 4 + of_nat k \<le> e" using e assms(3) by (simp add: word_le_nat_alt)
qed

lemma race_moves:
  assumes "5 \<le> e" "e < 2048"
  shows "length cv \<le> 2 \<Longrightarrow> generate_test sy e (racing e b gs ini cv) =
      (Some (Computing sy e (e - 4 + of_nat (length cv))), racing e b gs ini cv)"
    "length cv \<le> 1 \<Longrightarrow> generate_push r (racing e b gs ini cv) = racing e b gs ini (cv @ [r])"
proof -
  show "generate_test sy e (racing e b gs ini cv) = (Some (Computing sy e (e - 4 + of_nat (length cv))), racing e b gs ini cv)"
    if "length cv \<le> 2"
    using race_epochs(5) [OF assms, of "length cv"] that
    by (simp add: generate_test_def upper_epoch_def racing_def)
  show "generate_push r (racing e b gs ini cv) = racing e b gs ini (cv @ [r])" if "length cv \<le> 1"
    using that by (cases cv) (simp_all add: generate_push_def upper_epoch_def racing_def epoch_consts)
qed

lemma race_reach:
  fixes pack :: "word64 \<Rightarrow> 'b"
  assumes "5 \<le> e" "e < 2048" "e \<in> reqs" "\<forall>v. unpack (pack v) = Some v" "generate_cache (e - 4) = Some c"
  shows "epoch_reach pack unpack reqs False None
    (racing e (pack (e - 4)) [Computing False e (e - 4 + 1), Computing True e (e - 4 + 2)] True [c, c])"
proof -
  let ?R = "epoch_reach pack unpack reqs False None" and ?l = "e - 4" and ?B = "racing e (pack (e - 4))"
  note l = race_epochs [OF assms(1,2) le0] and sel = epoch_state.simps upper_epoch_def racing_def
  note moves = race_moves [OF assms(1,2)]
  have "?R (epoch_start None)"
    using Registered [of pack unpack reqs False None] by (simp add: register_epoch_def epoch_start_def get_db_epoch_def)
  then have "?R (?B [Entering False e] False [])"
    by (rule reach_step [OF _ Start [OF assms(3), of _ _ _ _ "\<lambda>_. False"]])
      (use l in \<open>simp_all add: epoch_start_def start_epoch_def sel write_epoch_def write_row_def Let_def epoch_consts\<close>)
  then have "?R (?B [Computing False e ?l] False [])"
    by (rule reach_step [OF _ Enter [of _ "[]" False e "[]"]])
      (use l in \<open>simp_all add: generate_enter_def moves, simp_all add: sel\<close>)
  then have "?R (?B [Computing False e ?l, Entering True e] True [])"
    by (rule reach_step [OF _ Accepted])
      (use assms(4) in \<open>simp_all add: on_accepted_block_def get_db_epoch_def sel epoch_consts\<close>)
  then have "?R (?B [Computing False e ?l, Computing True e ?l] True [])"
    by (rule reach_step [OF _ Enter [of _ "[Computing False e ?l]" True e "[]"]])
      (use l in \<open>simp_all add: generate_enter_def moves, simp_all add: sel\<close>)
  then have "?R (?B [Computing False e (?l + 1), Computing True e ?l] True [c])"
    by (rule reach_step [OF _ Next [of _ "[]" False e ?l "[Computing True e ?l]"]])
      (simp_all add: generate_next_def assms(5) moves, simp_all add: sel)
  then show ?thesis
    by (rule reach_step [OF _ Next [of _ "[Computing False e (?l + 1)]" True e ?l "[]"]])
      (simp_all add: generate_next_def assms(5) moves, simp_all add: sel)
qed

lemma race_caches:
  assumes "5 \<le> e" "e < (2048 :: word64)"
  obtains c where "generate_cache (e - 4) = Some c" "gencache (unat (e - 4) * 30000) = Some c"
    "gencache (unat (e - 3) * 30000) \<noteq> Some c"
proof -
  have e: "unat e < 2048" using assms(2) by (simp add: word_less_nat_alt)
  have u: "unat (e - 4) = unat e - 4" "unat (e - 3) = unat e - 3" "5 \<le> unat e"
    using race_epochs(1) [OF assms, of 0] race_epochs(1) [OF assms, of 1] assms(1) by (simp_all add: word_le_nat_alt)
  then have small: "e - 4 < 2048" "e - 3 < 2048" using e by (simp_all add: word_less_nat_alt)
  obtain c C where c: "generate_cache (e - 4) = Some c" "c = concat C" "rows_ok 16 C" "length C = nat (datasetSizes ! unat (e - 4)) div 64"
    by (rule generate_cache_total [OF small(1)])
  obtain d D where d: "generate_cache (e - 3) = Some d" "d = concat D" "rows_ok 16 D" "length D = nat (datasetSizes ! unat (e - 3)) div 64"
    by (rule generate_cache_total [OF small(2)])
  have "c \<noteq> d" unfolding c(2) d(2) by (rule caches_differ [OF _ _ c(4) d(4) c(3) d(3)]) (use u e in simp_all)
  then show ?thesis
    using that c(1) d(1) generate_cache_block(1) [OF small(1)] generate_cache_block(1) [OF small(2)] by simp
qed

text \<open>
  C27: without that condition they do not stay aligned: when the first accepted block holds
  the first request, the handler of the block generates beside the thread the request
  started, both append the cache of the lowest epoch, and the next epoch is then served the
  cache of the epoch before, which is not its own.
\<close>

theorem epoch_race:
  assumes "5 \<le> e" "e < 2048" "e \<in> reqs" "\<forall>v. unpack (pack v) = Some v"
  shows "\<exists>s c. epoch_reach pack unpack reqs False None s \<and> find_cache (e - 3) s = Some c \<and>
    gencache (unat (e - 4) * 30000) = Some c \<and> gencache (unat (e - 3) * 30000) \<noteq> Some c"
proof -
  obtain c where c: "generate_cache (e - 4) = Some c" "gencache (unat (e - 4) * 30000) = Some c"
      "gencache (unat (e - 3) * 30000) \<noteq> Some c"
    by (rule race_caches [OF assms(1,2)])
  let ?s = "racing e (pack (e - 4)) [Computing False e (e - 4 + 1), Computing True e (e - 4 + 2)] True [c, c]"
  have "find_cache (e - 3) ?s = Some c"
    using race_epochs(1) [OF assms(1,2), of 0] race_epochs(1) [OF assms(1,2), of 1] race_epochs(1) [OF assms(1,2), of 2]
    by (simp add: find_cache_def upper_epoch_def racing_def word_le_nat_alt word_less_nat_alt)
  then show ?thesis using c(2,3) by (intro exI [of _ ?s] exI [of _ c] conjI race_reach assms c(1))
qed

lemma epoch_race_witness:
  "\<exists>s c. epoch_reach id Some {400} False None s \<and> find_cache 397 s = Some c \<and>
    gencache (396 * 30000) = Some c \<and> gencache (397 * 30000) \<noteq> Some c"
  using epoch_race [of 400 "{400}" Some id] by simp

text \<open>
  a request for the first epoch of all wraps the lower epoch to the last 64-bit number,
  where it stays: no later request for a smaller epoch starts a generator, and no cache is
  ever found.
\<close>

theorem epoch_zero_sticks:
  fixes s :: "'b epoch_state"
  assumes "\<forall>e \<in> set es. e < 2 ^ 64 - 1"
    "s = foldl (\<lambda>s e. start_epoch pack fails e s)
       (start_epoch pack fails (0 + (epoch_vec_size - update_epoch_pos)) (epoch_start db)) es"
  shows "lower_epoch s = 2 ^ 64 - 1 \<and> cache_vec s = [] \<and> generators s = [] \<and> find_cache k s = None"
proof -
  define stuck :: "'b epoch_state \<Rightarrow> bool" where
    "stuck s \<longleftrightarrow> lower_epoch s = 2 ^ 64 - 1 \<and> cache_vec s = [] \<and> generators s = []" for s
  have "\<not> (- 1 :: word64) \<le> 3" by code_simp
  then have "stuck (start_epoch pack fails 3 (epoch_start db))"
    by (simp add: stuck_def start_epoch_def epoch_start_def epoch_consts upper_epoch_def Let_def)
  moreover have "stuck (start_epoch pack fails e s)" if "stuck s" "e < 2 ^ 64 - 1" for s e
    using that by (simp add: stuck_def start_epoch_def upper_epoch_def Let_def not_le)
  ultimately have "stuck s"
    using assms(1) unfolding assms(2) by (induction es rule: rev_induct) (simp_all add: epoch_consts)
  then show ?thesis by (auto simp: stuck_def find_cache_def upper_epoch_def not_less)
qed

lemma epoch_zero_sticks_witness:
  "find_cache 400 (start_epoch id (\<lambda>_. False) 400 (start_epoch id (\<lambda>_. False)
     (0 + (epoch_vec_size - update_epoch_pos)) (epoch_start None))) = None"
  using epoch_zero_sticks [of "[400]" _ id "\<lambda>_. False" None, OF _ refl] by simp

end
