(* ===== verification/RLP_Encoding.thy ===== *)
theory RLP_Encoding
  imports Hex_Codec
begin

text \<open>
  Recursive length prefix encoding, \<^verbatim>\<open>src/cross/include/RLP.hpp\<close>: strings and nested
  vectors of strings to bytes.  The specification is a decoder written from the format's
  definition; \<open>rlp_decode_encode\<close> shows that it recovers every argument from its encoding and
  leaves what follows, so that the encoding is injective and no encoding is a prefix of
  another.
\<close>

section \<open>The code\<close>

definition single_prefix_string_start_pos :: nat where "single_prefix_string_start_pos = 128"
definition list_start_pos :: nat where "list_start_pos = 192"
definition single_prefix_max_length :: nat where "single_prefix_max_length = 55"

lemmas rlp_consts [simp] =
  single_prefix_string_start_pos_def list_start_pos_def single_prefix_max_length_def

datatype encode_type = encode_hex | encode_utf8

text \<open>
  \<open>str[0]\<close> is a signed \<open>char\<close> compared with a \<open>uint32_t\<close>: a negative character converts to a
  large number, so the comparison is that of the byte.
\<close>

definition is_immediate_string :: "string \<Rightarrow> bool" where
  "is_immediate_string str \<longleftrightarrow>
     length str = 1 \<and> (of_char (str ! 0) :: nat) < single_prefix_string_start_pos"

definition is_single_prefix_string :: "string \<Rightarrow> bool" where
  "is_single_prefix_string str \<longleftrightarrow>
     (if is_immediate_string str then False else length str \<le> single_prefix_max_length)"

definition is_multi_prefix_string :: "string \<Rightarrow> bool" where
  "is_multi_prefix_string str \<longleftrightarrow> length str > single_prefix_max_length"

text \<open>The bytes of a length, least significant first.\<close>

fun length_hash_reserve :: "nat \<Rightarrow> string" where
  "length_hash_reserve n =
     (if n = 0 then [] else char_of (n mod 256) # length_hash_reserve (n div 256))"

declare length_hash_reserve.simps [simp del]

definition generate_string_header :: "string \<Rightarrow> string" where
  "generate_string_header str =
     (if is_single_prefix_string str
      then [char_of (single_prefix_string_start_pos + length str)]
      else if is_multi_prefix_string str
      then (let r = length_hash_reserve (length str)
            in char_of (single_prefix_string_start_pos + single_prefix_max_length + length r) # rev r)
      else [])"

definition generate_array_header :: "string \<Rightarrow> string" where
  "generate_array_header str =
     (if length str \<le> single_prefix_max_length
      then [char_of (list_start_pos + length str)]
      else (let r = length_hash_reserve (length str)
            in char_of (list_start_pos + single_prefix_max_length + length r) # rev r))"

definition rlp_encode :: "string \<Rightarrow> encode_type \<Rightarrow> string" where
  "rlp_encode str type =
     (let ret_string = (case type of
            encode_hex \<Rightarrow> map byte_chr (from_hex str (length str))
          | encode_utf8 \<Rightarrow> str)
      in generate_string_header ret_string @ ret_string)"

definition rlp_encode_hash :: "byte list \<Rightarrow> encode_type \<Rightarrow> string" where
  "rlp_encode_hash checksum type = rlp_encode (sha256_to_hex checksum) encode_hex"

text \<open>The template on (nested) vectors; a \<open>vector<char>\<close> is encoded as the string it holds.\<close>

datatype rlp_arg = Arg_str string | Arg_vec "rlp_arg list"

fun rlp_encode_arg :: "encode_type \<Rightarrow> rlp_arg \<Rightarrow> string" where
  "rlp_encode_arg type (Arg_str s) = rlp_encode s type"
| "rlp_encode_arg type (Arg_vec args) =
     (let ret_string = concat (map (rlp_encode_arg type) args)
      in generate_array_header ret_string @ ret_string)"

section \<open>The format, as a decoder\<close>

definition be_nat :: "string \<Rightarrow> nat" where
  "be_nat s = foldl (\<lambda>a c. 256 * a + of_char c) 0 s"

text \<open>A header splits its input into the payload and the rest: (is a list, payload, rest).\<close>

definition cut :: "bool \<Rightarrow> nat \<Rightarrow> string \<Rightarrow> (bool \<times> string \<times> string) option" where
  "cut l n cs = (if length cs < n then None else Some (l, take n cs, drop n cs))"

definition rlp_split :: "string \<Rightarrow> (bool \<times> string \<times> string) option" where
  "rlp_split inp =
     (case inp of
        [] \<Rightarrow> None
      | c # cs \<Rightarrow>
          (let k = of_char c :: nat
           in if k < 128 then Some (False, [c], cs)
              else if k < 184 then cut False (k - 128) cs
              else if k < 192 then cut False (be_nat (take (k - 183) cs)) (drop (k - 183) cs)
              else if k < 248 then cut True (k - 192) cs
              else cut True (be_nat (take (k - 247) cs)) (drop (k - 247) cs)))"

fun rlp_decode :: "nat \<Rightarrow> string \<Rightarrow> (rlp_arg \<times> string) option"
  and rlp_decode_list :: "nat \<Rightarrow> string \<Rightarrow> rlp_arg list option" where
  "rlp_decode 0 inp = None"
| "rlp_decode (Suc f) inp =
     (case rlp_split inp of
        None \<Rightarrow> None
      | Some (l, payload, rest) \<Rightarrow>
          if l then map_option (\<lambda>args. (Arg_vec args, rest)) (rlp_decode_list f payload)
          else Some (Arg_str payload, rest))"
| "rlp_decode_list 0 inp = None"
| "rlp_decode_list (Suc f) inp =
     (if inp = [] then Some []
      else (case rlp_decode f inp of
              None \<Rightarrow> None
            | Some (a, rest) \<Rightarrow> map_option ((#) a) (rlp_decode_list f rest)))"

text \<open>The fuel an argument needs.\<close>

fun rlp_size :: "rlp_arg \<Rightarrow> nat" where
  "rlp_size (Arg_str s) = 1"
| "rlp_size (Arg_vec args) = 2 + sum_list (map (\<lambda>a. Suc (rlp_size a)) args)"

section \<open>Decoding recovers the argument\<close>

lemma be_nat_snoc [simp]: "be_nat [] = 0" "be_nat (s @ [c]) = 256 * be_nat s + of_char c"
  by (simp_all add: be_nat_def)

lemma be_nat_length: "be_nat (rev (length_hash_reserve n)) = n"
proof (induction n rule: length_hash_reserve.induct)
  case (1 n)
  then show ?case by (subst length_hash_reserve.simps) simp
qed

lemma length_reserve_bound: "n < 256 ^ k \<Longrightarrow> length (length_hash_reserve n) \<le> k"
proof (induction n arbitrary: k rule: length_hash_reserve.induct)
  case (1 n)
  show ?case
  proof (cases "n = 0")
    case True
    then show ?thesis by (subst length_hash_reserve.simps) simp
  next
    case False
    then obtain j where k: "k = Suc j" using 1(2) by (cases k) auto
    then have "n div 256 < 256 ^ j" using 1(2) by (simp add: div_less_iff_less_mult mult.commute)
    with 1(1) False k show ?thesis by (subst length_hash_reserve.simps) simp
  qed
qed

lemma length_reserve_pos: "0 < n \<Longrightarrow> 0 < length (length_hash_reserve n)"
  by (subst length_hash_reserve.simps) simp

lemma of_char_of_nat: "n < 256 \<Longrightarrow> (of_char (char_of (n :: nat)) :: nat) = n"
  by simp

lemma split_string:
  assumes "length s < 18446744073709551616"
  shows "rlp_split (generate_string_header s @ s @ rest) = Some (False, s, rest)"
proof -
  consider "is_immediate_string s" | "\<not> is_immediate_string s" "length s \<le> 55" | "55 < length s" by linarith
  then show ?thesis
  proof cases
    case 1
    then obtain c where s: "s = [c]" "(of_char c :: nat) < 128"
      by (cases s) (auto simp: is_immediate_string_def)
    then show ?thesis
      by (simp add: rlp_split_def generate_string_header_def is_single_prefix_string_def
          is_multi_prefix_string_def is_immediate_string_def)
  next
    case 2
    then show ?thesis
      by (simp add: rlp_split_def generate_string_header_def is_single_prefix_string_def cut_def)
  next
    case 3
    define r where "r = length_hash_reserve (length s)"
    have "length r \<le> 8" unfolding r_def by (rule length_reserve_bound) (use assms in simp)
    moreover have "0 < length r" unfolding r_def by (rule length_reserve_pos) (use 3 in linarith)
    moreover have "be_nat (rev r) = length s" unfolding r_def by (rule be_nat_length)
    moreover have "generate_string_header s = char_of (183 + length r) # rev r"
      using 3 by (simp add: generate_string_header_def is_single_prefix_string_def
          is_multi_prefix_string_def is_immediate_string_def r_def Let_def)
    ultimately show ?thesis
      by (simp add: rlp_split_def cut_def Let_def)
  qed
qed

lemma split_list:
  assumes "length p < 18446744073709551616"
  shows "rlp_split (generate_array_header p @ p @ rest) = Some (True, p, rest)"
proof (cases "length p \<le> 55")
  case True
  then show ?thesis
    by (simp add: rlp_split_def generate_array_header_def cut_def)
next
  case False
  define r where "r = length_hash_reserve (length p)"
  have "length r \<le> 8" unfolding r_def by (rule length_reserve_bound) (use assms in simp)
  moreover have "0 < length r" unfolding r_def by (rule length_reserve_pos) (use False in linarith)
  moreover have "be_nat (rev r) = length p" unfolding r_def by (rule be_nat_length)
  moreover have "generate_array_header p = char_of (247 + length r) # rev r"
    using False by (simp add: generate_array_header_def r_def Let_def)
  ultimately show ?thesis
    by (simp add: rlp_split_def cut_def Let_def)
qed

lemma encode_nonempty: "rlp_encode s encode_utf8 \<noteq> []"
  by (auto simp: rlp_encode_def generate_string_header_def is_single_prefix_string_def
      is_multi_prefix_string_def is_immediate_string_def Let_def)

lemma encode_arg_nonempty: "rlp_encode_arg encode_utf8 a \<noteq> []"
  by (cases a) (auto simp: encode_nonempty generate_array_header_def Let_def)

lemma rlp_decode_encode:
  "length (rlp_encode_arg encode_utf8 a) < 18446744073709551616 \<Longrightarrow> rlp_size a \<le> f \<Longrightarrow>
     rlp_decode f (rlp_encode_arg encode_utf8 a @ rest) = Some (a, rest)"
proof (induction a arbitrary: f rest)
  case (Arg_str s)
  then obtain g where f: "f = Suc g" by (cases f) auto
  have l: "length s < 18446744073709551616" using Arg_str.prems(1) by (simp add: rlp_encode_def Let_def)
  show ?case using split_string [OF l, of rest] by (simp add: f rlp_encode_def Let_def)
next
  case (Arg_vec args)
  let ?e = "rlp_encode_arg encode_utf8"
  let ?p = "concat (map ?e args)"
  obtain g where f: "f = Suc g" "1 + sum_list (map (\<lambda>a. Suc (rlp_size a)) args) \<le> g"
    using Arg_vec.prems(2) by (cases f) auto
  have l: "length ?p < 18446744073709551616" using Arg_vec.prems(1) by (simp add: Let_def)
  have "rlp_decode_list h (concat (map ?e as)) = Some as"
    if "set as \<subseteq> set args" "length (concat (map ?e as)) < 18446744073709551616"
      "1 + sum_list (map (\<lambda>a. Suc (rlp_size a)) as) \<le> h" for as h
    using that
  proof (induction as arbitrary: h)
    case Nil
    then show ?case by (cases h) auto
  next
    case (Cons a as)
    obtain h' where h: "h = Suc h'" using Cons.prems(3) by (cases h) auto
    have la: "length (?e a) < 18446744073709551616"
        "length (concat (map ?e as)) < 18446744073709551616"
      using Cons.prems(2) by simp_all
    have fa: "rlp_size a \<le> h'" "1 + sum_list (map (\<lambda>a. Suc (rlp_size a)) as) \<le> h'"
      using Cons.prems(3) h by simp_all
    have "rlp_decode h' (?e a @ concat (map ?e as)) = Some (a, concat (map ?e as))"
      using Arg_vec.IH [of a h'] Cons.prems(1) la(1) fa(1) by simp
    moreover have "rlp_decode_list h' (concat (map ?e as)) = Some as"
      using Cons.IH [of h'] Cons.prems(1) la(2) fa(2) by simp
    ultimately show ?case using encode_arg_nonempty [of a] by (simp add: h)
  qed
  from this [of args g] l f(2) have d: "rlp_decode_list g ?p = Some args" by simp
  show ?case using split_list [OF l, of rest] d by (simp add: f(1) Let_def)
qed

lemma rlp_arg_inj:
  assumes "length (rlp_encode_arg encode_utf8 a) < 18446744073709551616"
    "rlp_encode_arg encode_utf8 b = rlp_encode_arg encode_utf8 a"
  shows "b = a"
proof -
  have "rlp_decode (rlp_size a + rlp_size b) (rlp_encode_arg encode_utf8 a @ []) = Some (a, [])"
    "rlp_decode (rlp_size a + rlp_size b) (rlp_encode_arg encode_utf8 b @ []) = Some (b, [])"
    using assms by (intro rlp_decode_encode; simp)+
  then show "b = a" unfolding assms(2) by simp
qed

section \<open>Properties\<close>

text \<open>
  C21: the encoding of any nested argument, followed by anything, decodes to the argument and
  what follows; so two arguments with the same encoding are equal.
\<close>

theorem rlp_encode_decodes:
  assumes "length (rlp_encode_arg encode_utf8 a) < 18446744073709551616"
  shows "rlp_decode (rlp_size a) (rlp_encode_arg encode_utf8 a @ rest) = Some (a, rest) \<and>
    (rlp_encode_arg encode_utf8 b = rlp_encode_arg encode_utf8 a \<longrightarrow> b = a)"
  using rlp_decode_encode [OF assms order_refl, of rest] rlp_arg_inj [OF assms] by blast

lemma rlp_encode_decodes_witness:
  "rlp_decode 7 (rlp_encode_arg encode_utf8 (Arg_vec [Arg_str ''cat'', Arg_vec []]) @ ''x'') =
    Some (Arg_vec [Arg_str ''cat'', Arg_vec []], ''x'')"
proof -
  let ?a = "Arg_vec [Arg_str ''cat'', Arg_vec []]"
  have "length (rlp_encode_arg encode_utf8 ?a) < 18446744073709551616"
    by (simp add: rlp_encode_def generate_string_header_def generate_array_header_def
        is_single_prefix_string_def is_immediate_string_def)
  note rlp_encode_decodes [OF this, of "''x''" ?a]
  moreover have "rlp_size ?a = 7" by simp
  ultimately show ?thesis by (simp only: conj_imp_eq_imp_imp)
qed

end
