(* ===== verification/InfInt_Core.thy ===== *)
theory InfInt_Core
  imports Prelude
begin

text \<open>
  The arbitrary-precision integer of \<^verbatim>\<open>src/cross/include/InfInt.h\<close>: sign and
  little-endian limbs in base \<open>10^9\<close>, each limb an \<open>int\<close>.  This theory holds the data, the
  constructors from the C integer types, normalisation (\<open>correct\<close> and its parts) and
  addition, subtraction, negation, increment and decrement.

  A limb operation wraps at 32 bits (\<open>s32\<close>), a product at 64 (\<open>s64\<close>).  The \<open>int\<close> loop
  counters that run over \<open>val.size()\<close> are natural numbers here, which is the code up to
  \<open>2^31\<close> limbs.  The invariant is \<open>inf_ok\<close>: at least one limb, every limb in \<open>[0, BASE)\<close>,
  no leading zero limb, and zero is positive.
\<close>

section \<open>Data\<close>

record infint =
  pos :: bool
  val :: "int list"

definition BASE :: int where "BASE = 1000000000"
definition UPPER_BOUND :: int where "UPPER_BOUND = 999999999"
definition DIGIT_COUNT :: nat where "DIGIT_COUNT = 9"

lemmas inf_consts [simp] = BASE_def UPPER_BOUND_def DIGIT_COUNT_def

text \<open>\<open>my_div\<close>, \<open>my_ldiv\<close> and \<open>my_lldiv\<close>: quotient and remainder of truncating division.\<close>

definition my_div :: "int \<Rightarrow> int \<Rightarrow> int \<times> int" where
  "my_div num denom =
     (let quot = s32 (num sdiv denom) in (quot, s32 (num - s32 (denom * quot))))"

definition my_ldiv :: "int \<Rightarrow> int \<Rightarrow> int \<times> int" where
  "my_ldiv num denom =
     (let quot = s64 (num sdiv denom) in (quot, s64 (num - s64 (denom * quot))))"

definition my_lldiv :: "int \<Rightarrow> int \<Rightarrow> int \<times> int" where
  "my_lldiv num denom =
     (let quot = s64 (num sdiv denom) in (quot, s64 (num - s64 (denom * quot))))"

section \<open>Normalisation\<close>

text \<open>
  \<open>truncateToBase\<close> walks the limbs upwards; the carry of a limb outside \<open>(-BASE, BASE)\<close> goes
  to the next limb, or is appended after the last one (and is then visited too).
\<close>

function (sequential) truncateToBase :: "int list \<Rightarrow> int list" where
  "truncateToBase [] = []"
| "truncateToBase (d # ds) =
     (if d \<ge> BASE \<or> d \<le> - BASE
      then snd (my_div d BASE) #
           truncateToBase (case ds of [] \<Rightarrow> [fst (my_div d BASE)]
                           | e # es \<Rightarrow> s32 (e + fst (my_div d BASE)) # es)
      else d # truncateToBase ds)"
  by pat_completeness auto

lemma fst_my_div_smaller: "d \<ge> BASE \<or> d \<le> - BASE \<Longrightarrow> \<bar>fst (my_div d BASE)\<bar> < \<bar>d\<bar>"
proof -
  assume d: "d \<ge> BASE \<or> d \<le> - BASE"
  have "\<bar>fst (my_div d BASE)\<bar> \<le> \<bar>d sdiv BASE\<bar>"
    by (simp add: my_div_def Let_def abs_s32_le)
  also have "\<dots> = \<bar>d\<bar> div BASE" by (simp add: abs_sdiv)
  also have "\<dots> < \<bar>d\<bar>" using d by auto
  finally show ?thesis .
qed

termination truncateToBase
  by (relation "measures [length, \<lambda>xs. case xs of [] \<Rightarrow> 0 | d # _ \<Rightarrow> nat \<bar>d\<bar>]")
     (use fst_my_div_smaller in \<open>auto split: list.splits simp del: inf_consts\<close>, simp_all)

text \<open>
  \<open>equalizeSigns\<close>: the sign of the leading non-zero limb (true when all are zero), found from
  the top; then, again from the top, each limb of the other sign borrows from the first
  non-zero limb above it, and the zero limbs in between become \<open>UPPER_BOUND\<close> (or its
  negation).  \<open>borrow_pos\<close> and \<open>borrow_neg\<close> are that inner search on the limbs above; their
  empty case is the search running off the vector, which \<open>borrow_in_range\<close> excludes.  The
  loop over the limbs below the leading one is written over all limbs: a leading limb and
  the zeros above it never satisfy the guard.
\<close>

fun lead_pos :: "int list \<Rightarrow> bool" where
  "lead_pos [] = True"
| "lead_pos (d # ds) = (if list_all (\<lambda>e. e = 0) ds then 0 \<le> d else lead_pos ds)"

fun borrow_pos :: "int list \<Rightarrow> int list" where
  "borrow_pos [] = []"
| "borrow_pos (d # ds) = (if d = 0 then UPPER_BOUND # borrow_pos ds else s32 (d - 1) # ds)"

fun borrow_neg :: "int list \<Rightarrow> int list" where
  "borrow_neg [] = []"
| "borrow_neg (d # ds) = (if d = 0 then - UPPER_BOUND # borrow_neg ds else s32 (d + 1) # ds)"

fun equalize_pos :: "int list \<Rightarrow> int list" where
  "equalize_pos [] = []"
| "equalize_pos (d # ds) =
     (if d < 0 then s32 (d + BASE) # borrow_pos (equalize_pos ds) else d # equalize_pos ds)"

fun equalize_neg :: "int list \<Rightarrow> int list" where
  "equalize_neg [] = []"
| "equalize_neg (d # ds) =
     (if d > 0 then s32 (d - BASE) # borrow_neg (equalize_neg ds) else d # equalize_neg ds)"

definition equalizeSigns :: "int list \<Rightarrow> bool \<times> int list" where
  "equalizeSigns ds = (lead_pos ds, if lead_pos ds then equalize_pos ds else equalize_neg ds)"

text \<open>\<open>removeLeadingZeros\<close> never erases the limb at index 0.\<close>

definition removeLeadingZeros :: "int list \<Rightarrow> int list" where
  "removeLeadingZeros ds =
     (case ds of [] \<Rightarrow> [] | d # es \<Rightarrow> d # rev (dropWhile (\<lambda>e. e = 0) (rev es)))"

definition correct :: "bool \<Rightarrow> bool \<Rightarrow> infint \<Rightarrow> infint" where
  "correct justCheckLeadingZeros hasValidSign n =
     (let n' =
       (if justCheckLeadingZeros then n
        else case equalizeSigns (truncateToBase (val n)) of
          (True, ds) \<Rightarrow>
            n\<lparr>val := ds,
              pos := (if ds = [0] \<or> \<not> hasValidSign then True else pos n)\<rparr>
        | (False, ds) \<Rightarrow>
            n\<lparr>val := map (\<lambda>d. s32 \<bar>d\<bar>) ds,
              pos := (if hasValidSign then \<not> pos n else False)\<rparr>)
      in n'\<lparr>val := removeLeadingZeros (val n')\<rparr>)"

section \<open>Value and invariant\<close>

definition ival :: "infint \<Rightarrow> int" where
  "ival n = (if pos n then dval BASE (val n) else - dval BASE (val n))"

definition limbs_ok :: "int list \<Rightarrow> bool" where
  "limbs_ok ds \<longleftrightarrow> ds \<noteq> [] \<and> digits_ok BASE ds \<and> (length ds > 1 \<longrightarrow> last ds \<noteq> 0)"

definition inf_ok :: "infint \<Rightarrow> bool" where
  "inf_ok n \<longleftrightarrow> limbs_ok (val n) \<and> (val n = [0] \<longrightarrow> pos n)"

interpretation limb: positional BASE
  by unfold_locales simp

subsection \<open>Division by the base\<close>

lemma my_div_BASE:
  assumes "- 2147483648 \<le> d" "d < 2147483648"
  shows "fst (my_div d BASE) = d sdiv BASE" "snd (my_div d BASE) = d - BASE * (d sdiv BASE)"
proof -
  have q: "\<bar>d sdiv BASE\<bar> \<le> 2" using assms by (simp add: abs_sdiv)
  have r: "\<bar>d - BASE * (d sdiv BASE)\<bar> < BASE" by (rule sdiv_rem_bounds) simp
  have p: "- 2147483648 \<le> BASE * (d sdiv BASE)" "BASE * (d sdiv BASE) < 2147483648"
    using q by (simp_all add: abs_le_iff)
  show "fst (my_div d BASE) = d sdiv BASE"
    using q by (simp add: my_div_def Let_def range_simps)
  then show "snd (my_div d BASE) = d - BASE * (d sdiv BASE)"
    using p r by (simp add: my_div_def Let_def s32_id)
qed

lemma my_div_BASE_quot: "\<bar>d\<bar> < 2147483648 \<Longrightarrow> \<bar>d sdiv BASE\<bar> \<le> 2"
  by (simp add: abs_sdiv)

subsection \<open>Truncation keeps the value\<close>

lemma truncateToBase_value:
  assumes "ds = [] \<or> \<bar>hd ds\<bar> < 2147483648" "\<forall>d \<in> set (tl ds). \<bar>d\<bar> \<le> 2 * BASE"
  shows "dval BASE (truncateToBase ds) = dval BASE ds \<and>
    (\<forall>d \<in> set (truncateToBase ds). \<bar>d\<bar> < BASE) \<and> (truncateToBase ds = [] \<longleftrightarrow> ds = [])"
  using assms
proof (induction ds rule: truncateToBase.induct)
  case 1
  then show ?case by simp
next
  case (2 d ds)
  let ?q = "fst (my_div d BASE)" and ?r = "snd (my_div d BASE)"
  let ?rest = "case ds of [] \<Rightarrow> [?q] | e # es \<Rightarrow> s32 (e + ?q) # es"
  show ?case
  proof (cases "d \<ge> BASE \<or> d \<le> - BASE")
    case True
    have d: "\<bar>d\<bar> < 2147483648" using "2.prems" by simp
    then have q: "?q = d sdiv BASE" and r: "?r = d - BASE * ?q"
      using my_div_BASE [of d] by (simp_all add: abs_less_iff del: inf_consts)
    have q2: "\<bar>?q\<bar> \<le> 2" using my_div_BASE_quot [OF d] q by simp
    have r2: "\<bar>?r\<bar> < BASE" using sdiv_rem_bounds(1) [of BASE d] q r by simp
    have e: "e + ?q = s32 (e + ?q)" "\<bar>e + ?q\<bar> < 2147483648" if "\<bar>e\<bar> \<le> 2 * BASE" for e
      using that q2 by (simp_all add: s32_id)
    have rest: "dval BASE ?rest = dval BASE ds + ?q" "\<bar>hd ?rest\<bar> < 2147483648"
        "\<forall>d \<in> set (tl ?rest). \<bar>d\<bar> \<le> 2 * BASE" "?rest \<noteq> []"
      using "2.prems"(2) q2 e by (auto split: list.splits simp del: inf_consts)
    have ih: "dval BASE (truncateToBase ?rest) = dval BASE ?rest \<and>
        (\<forall>d \<in> set (truncateToBase ?rest). \<bar>d\<bar> < BASE) \<and> (truncateToBase ?rest = [] \<longleftrightarrow> ?rest = [])"
      using "2.IH"(1) [OF True] rest by blast
    have step: "truncateToBase (d # ds) = ?r # truncateToBase ?rest"
      using True by (simp del: inf_consts)
    show ?thesis
      unfolding step using ih rest(1) r r2 by (simp add: algebra_simps del: inf_consts)
  next
    case False
    have "\<forall>d \<in> set (tl ds). \<bar>d\<bar> \<le> 2 * BASE" "ds = [] \<or> \<bar>hd ds\<bar> < 2147483648"
      using "2.prems"(2) by (cases ds; auto)+
    with False "2.IH"(2) show ?thesis by auto
  qed
qed

lemma truncateToBase_append:
  "\<forall>d \<in> set xs. \<bar>d\<bar> < BASE \<Longrightarrow> truncateToBase (xs @ ys) = xs @ truncateToBase ys"
  by (induction xs) (auto simp del: inf_consts)

lemma truncateToBase_id: "\<forall>d \<in> set ds. \<bar>d\<bar> < BASE \<Longrightarrow> truncateToBase ds = ds"
  by (induction ds) (auto simp del: inf_consts)

subsection \<open>Sign equalisation keeps the value\<close>

lemma abs_dval_less:
  assumes "\<forall>d \<in> set ds. \<bar>d\<bar> < BASE"
  shows "\<bar>dval BASE ds\<bar> < BASE ^ length ds"
  using assms
proof (induction ds)
  case Nil
  then show ?case by simp
next
  case (Cons d ds)
  then have "\<bar>dval BASE ds\<bar> \<le> BASE ^ length ds - 1" "\<bar>d\<bar> < BASE" by auto
  then have "\<bar>d + BASE * dval BASE ds\<bar> < BASE + BASE * (BASE ^ length ds - 1)"
    by (simp add: abs_less_iff abs_le_iff)
  then show ?case by (simp add: algebra_simps)
qed

lemma lead_pos_sign:
  assumes "\<forall>d \<in> set ds. \<bar>d\<bar> < BASE"
  shows "lead_pos ds \<longleftrightarrow> 0 \<le> dval BASE ds" "dval BASE ds = 0 \<longleftrightarrow> list_all (\<lambda>d. d = 0) ds"
  using assms
proof (induction ds)
  case (Cons d ds)
  {
    case 1
    have "\<bar>d\<bar> < BASE" using 1 by simp
    with 1 Cons.IH show ?case by (auto simp: dval_zeros)
  next
    case 2
    have "\<bar>d\<bar> < BASE" using 2 by simp
    with 2 Cons.IH show ?case by (auto simp: dval_zeros)
  }
qed simp_all

lemma borrow_pos_value:
  assumes "digits_ok BASE ds" "0 < dval BASE ds"
  shows "digits_ok BASE (borrow_pos ds) \<and> dval BASE (borrow_pos ds) = dval BASE ds - 1 \<and>
    length (borrow_pos ds) = length ds"
  using assms
proof (induction ds)
  case (Cons d ds)
  then show ?case by (cases "d = 0") (auto simp: s32_id)
qed simp

text \<open>The borrow search never runs off the vector: some limb above is not zero.\<close>

lemma borrow_in_range:
  assumes "digits_ok BASE ds" "0 < dval BASE ds"
  shows "\<exists>k < length ds. ds ! k \<noteq> 0 \<and> (\<forall>j < k. ds ! j = 0)"
proof -
  have "\<not> list_all (\<lambda>d. d = 0) ds" using assms(2) dval_zeros [of ds BASE] by auto
  then have "\<exists>k. k < length ds \<and> ds ! k \<noteq> 0" by (auto simp: list_all_length)
  then obtain k where "k < length ds \<and> ds ! k \<noteq> 0" "\<And>j. j < k \<Longrightarrow> \<not> (j < length ds \<and> ds ! j \<noteq> 0)"
    using exists_least_iff [of "\<lambda>k. k < length ds \<and> ds ! k \<noteq> 0"] by auto
  then show ?thesis by (intro exI [of _ k]) auto
qed

lemma equalize_pos_value:
  assumes "\<forall>d \<in> set ds. \<bar>d\<bar> < BASE" "lead_pos ds"
  shows "digits_ok BASE (equalize_pos ds) \<and> dval BASE (equalize_pos ds) = dval BASE ds \<and>
    length (equalize_pos ds) = length ds"
  using assms
proof (induction ds)
  case (Cons d ds)
  have sgn: "lead_pos ds" using Cons.prems by (auto split: if_splits simp: lead_pos_sign(1) dval_zeros)
  then have ih: "digits_ok BASE (equalize_pos ds)" "dval BASE (equalize_pos ds) = dval BASE ds"
      "length (equalize_pos ds) = length ds"
    using Cons by simp_all
  show ?case
  proof (cases "d < 0")
    case True
    have "0 < dval BASE ds"
      using Cons.prems True lead_pos_sign [of "d # ds"] by (simp add: abs_less_iff)
    then show ?thesis
      using True ih Cons.prems borrow_pos_value [of "equalize_pos ds"]
      by (auto simp: s32_id abs_less_iff)
  next
    case False
    then show ?thesis using ih Cons.prems by auto
  qed
qed simp

lemma borrow_neg_mirror: "\<forall>d \<in> set ds. \<bar>d\<bar> < BASE \<Longrightarrow> borrow_neg ds = map uminus (borrow_pos (map uminus ds))"
  by (induction ds) (auto simp: s32_id abs_less_iff)

lemma borrow_pos_abs: "\<forall>d \<in> set ds. 0 \<le> d \<and> d < BASE \<Longrightarrow> \<forall>d \<in> set (borrow_pos ds). \<bar>d\<bar> < BASE"
  by (induction ds) (auto simp: s32_id)

lemma equalize_neg_mirror:
  assumes "\<forall>d \<in> set ds. \<bar>d\<bar> < BASE" "lead_pos (map uminus ds)"
  shows "equalize_neg ds = map uminus (equalize_pos (map uminus ds))"
  using assms
proof (induction ds)
  case (Cons d ds)
  have bd: "\<forall>d \<in> set (map uminus ds). \<bar>d\<bar> < BASE" "\<forall>d \<in> set (map uminus (d # ds)). \<bar>d\<bar> < BASE"
    using Cons.prems(1) by auto
  have "0 \<le> dval BASE (map uminus (d # ds))"
    using Cons.prems(2) lead_pos_sign(1) [OF bd(2)] by simp
  then have "0 \<le> dval BASE (map uminus ds)"
    using Cons.prems(1) by (simp add: dval_simps abs_less_iff)
  then have sgn: "lead_pos (map uminus ds)" using lead_pos_sign(1) [OF bd(1)] by simp
  let ?E = "equalize_pos (map uminus ds)"
  have ih: "equalize_neg ds = map uminus ?E" using Cons sgn by simp
  have "digits_ok BASE ?E" using equalize_pos_value [OF bd(1) sgn] by simp
  then have "\<forall>d \<in> set (map uminus ?E). \<bar>d\<bar> < BASE" by (auto simp: digits_ok_def)
  from borrow_neg_mirror [OF this] ih Cons.prems(1) show ?case
    by (simp add: s32_id abs_less_iff o_def)
qed simp

lemma map_abs_uminus: "digits_ok BASE ds \<Longrightarrow> map (\<lambda>d. s32 \<bar>d\<bar>) (map uminus ds) = ds"
  by (induction ds) (auto simp: s32_id)

lemma equalizeSigns_value:
  assumes "\<forall>d \<in> set ds. \<bar>d\<bar> < BASE"
  shows "fst (equalizeSigns ds) \<longleftrightarrow> 0 \<le> dval BASE ds"
    and "0 \<le> dval BASE ds \<Longrightarrow> digits_ok BASE (snd (equalizeSigns ds)) \<and>
      dval BASE (snd (equalizeSigns ds)) = dval BASE ds \<and> length (snd (equalizeSigns ds)) = length ds"
    and "dval BASE ds < 0 \<Longrightarrow> digits_ok BASE (map (\<lambda>d. s32 \<bar>d\<bar>) (snd (equalizeSigns ds))) \<and>
      dval BASE (map (\<lambda>d. s32 \<bar>d\<bar>) (snd (equalizeSigns ds))) = - dval BASE ds \<and>
      length (snd (equalizeSigns ds)) = length ds"
proof -
  show "fst (equalizeSigns ds) \<longleftrightarrow> 0 \<le> dval BASE ds"
    by (simp add: equalizeSigns_def lead_pos_sign(1) [OF assms] del: inf_consts)
  show "0 \<le> dval BASE ds \<Longrightarrow> digits_ok BASE (snd (equalizeSigns ds)) \<and>
      dval BASE (snd (equalizeSigns ds)) = dval BASE ds \<and> length (snd (equalizeSigns ds)) = length ds"
    using equalize_pos_value [OF assms] lead_pos_sign(1) [OF assms]
    by (simp add: equalizeSigns_def del: inf_consts)
  assume neg: "dval BASE ds < 0"
  have bd: "\<forall>d \<in> set (map uminus ds). \<bar>d\<bar> < BASE" using assms by auto
  have sgn: "lead_pos (map uminus ds)" using neg lead_pos_sign(1) [OF bd] by (simp add: dval_simps)
  have eq: "snd (equalizeSigns ds) = map uminus (equalize_pos (map uminus ds))"
    using neg equalize_neg_mirror [OF assms sgn] lead_pos_sign(1) [OF assms]
    by (simp add: equalizeSigns_def)
  have pos: "digits_ok BASE (equalize_pos (map uminus ds))"
      "dval BASE (equalize_pos (map uminus ds)) = - dval BASE ds"
      "length (equalize_pos (map uminus ds)) = length ds"
    using equalize_pos_value [OF bd sgn] by (simp_all add: dval_uminus)
  show "digits_ok BASE (map (\<lambda>d. s32 \<bar>d\<bar>) (snd (equalizeSigns ds))) \<and>
      dval BASE (map (\<lambda>d. s32 \<bar>d\<bar>) (snd (equalizeSigns ds))) = - dval BASE ds \<and>
      length (snd (equalizeSigns ds)) = length ds"
    unfolding eq map_abs_uminus [OF pos(1)] using pos by simp
qed

subsection \<open>Leading zeros\<close>

lemma strip_split: "\<exists>k. es = rev (dropWhile (\<lambda>e. e = 0) (rev es)) @ replicate k (0::int)"
proof (induction es rule: rev_induct)
  case (snoc x xs)
  then obtain k where k: "xs = rev (dropWhile (\<lambda>e. e = 0) (rev xs)) @ replicate k 0" by blast
  show ?case
  proof (cases "x = 0")
    case True
    have eq: "xs @ [x] = rev (dropWhile (\<lambda>e. e = 0) (rev xs)) @ replicate (Suc k) 0"
      using k True by (metis append_assoc replicate_Suc replicate_append_same)
    have t: "rev (dropWhile (\<lambda>e. e = 0) (rev (xs @ [x]))) = rev (dropWhile (\<lambda>e. e = 0) (rev xs))"
      using True by simp
    show ?thesis unfolding t using eq by blast
  qed (auto intro: exI [of _ 0])
qed simp

lemma removeLeadingZeros_value:
  assumes "digits_ok BASE ds" "ds \<noteq> []"
  shows "limbs_ok (removeLeadingZeros ds)" "dval BASE (removeLeadingZeros ds) = dval BASE ds"
proof -
  obtain d es where ds: "ds = d # es" using assms(2) by (cases ds) auto
  let ?t = "rev (dropWhile (\<lambda>e. e = 0) (rev es))"
  obtain k where k: "es = ?t @ replicate k 0" using strip_split by blast
  have rl: "removeLeadingZeros ds = d # ?t" by (simp add: removeLeadingZeros_def ds)
  have ok: "digits_ok BASE ?t" using assms(1) k unfolding ds by (metis digits_ok_simps(2,3))
  have "last ?t \<noteq> 0" if "?t \<noteq> []"
    using that hd_dropWhile [of "\<lambda>e. e = 0" "rev es"] by (simp add: last_rev)
  with ok assms(1) show "limbs_ok (removeLeadingZeros ds)"
    unfolding rl by (auto simp: limbs_ok_def ds)
  have "dval BASE es = dval BASE ?t" by (subst k) (simp add: dval_simps)
  then show "dval BASE (removeLeadingZeros ds) = dval BASE ds" unfolding rl by (simp add: ds)
qed

lemma removeLeadingZeros_id: "limbs_ok ds \<Longrightarrow> removeLeadingZeros ds = ds"
proof -
  assume ok: "limbs_ok ds"
  then obtain d es where ds: "ds = d # es" by (cases ds) (auto simp: limbs_ok_def)
  show ?thesis
  proof (cases "es = []")
    case False
    then have "last es \<noteq> 0" using ok by (simp add: limbs_ok_def ds)
    then have "dropWhile (\<lambda>e. e = 0) (rev es) = rev es"
      using False by (cases es rule: rev_cases) auto
    then show ?thesis by (simp add: removeLeadingZeros_def ds)
  qed (simp add: removeLeadingZeros_def ds)
qed

subsection \<open>The result of \<open>correct\<close>\<close>

lemma limbs_ok_zero: "limbs_ok ds \<Longrightarrow> dval BASE ds = 0 \<longleftrightarrow> ds = [0]"
proof -
  assume ok: "limbs_ok ds"
  have "ds = [0]" if z: "dval BASE ds = 0"
  proof -
    have all0: "list_all (\<lambda>d. d = 0) ds" using z limb.dval_eq_0 [of ds] ok by (simp add: limbs_ok_def)
    have ne: "ds \<noteq> []" "length ds > 1 \<longrightarrow> last ds \<noteq> 0" using ok by (auto simp: limbs_ok_def)
    have "last ds = 0" using all0 ne(1) by (simp add: list_all_iff)
    with ne have "length ds = 1" by (cases ds) (auto split: if_splits)
    then show ?thesis using all0 by (cases ds) auto
  qed
  then show ?thesis by auto
qed

lemma ival_ok_nonneg: "inf_ok n \<Longrightarrow> pos n \<longleftrightarrow> 0 \<le> ival n"
proof -
  assume ok: "inf_ok n"
  then have "0 \<le> dval BASE (val n)"
    by (auto simp: inf_ok_def limbs_ok_def simp del: inf_consts intro: limb.dval_nonneg)
  moreover have "dval BASE (val n) = 0 \<Longrightarrow> pos n"
    using ok limbs_ok_zero [of "val n"] by (auto simp: inf_ok_def)
  ultimately show ?thesis by (cases "dval BASE (val n) = 0") (auto simp: ival_def)
qed

lemma correct_truncated:
  assumes t: "dval BASE (truncateToBase (val n)) = dval BASE (val n)"
      "\<forall>d \<in> set (truncateToBase (val n)). \<bar>d\<bar> < BASE" "truncateToBase (val n) \<noteq> []"
  shows "inf_ok (correct False False n)" "ival (correct False False n) = dval BASE (val n)"
proof -
  let ?t = "truncateToBase (val n)"
  let ?es = "snd (equalizeSigns ?t)"
  have len: "length ?es = length ?t"
    using equalizeSigns_value(2,3) [OF t(2)] by linarith
  show "inf_ok (correct False False n)" "ival (correct False False n) = dval BASE (val n)"
  proof (atomize (full), cases "0 \<le> dval BASE ?t")
    case True
    then obtain es where eq: "equalizeSigns ?t = (True, es)" "?es = es"
      using equalizeSigns_value(1) [OF t(2)] by (metis prod.collapse)
    then have es: "digits_ok BASE es" "dval BASE es = dval BASE ?t" "es \<noteq> []"
      using equalizeSigns_value(2) [OF t(2) True] t(3) by auto
    show "inf_ok (correct False False n) \<and> ival (correct False False n) = dval BASE (val n)"
      using removeLeadingZeros_value [OF es(1,3)] es(2) t(1)
      by (simp add: correct_def eq Let_def inf_ok_def ival_def)
  next
    case False
    then obtain es where eq: "equalizeSigns ?t = (False, es)" "?es = es"
      using equalizeSigns_value(1) [OF t(2)] by (metis prod.collapse)
    let ?as = "map (\<lambda>d. s32 \<bar>d\<bar>) es"
    have es: "digits_ok BASE ?as" "dval BASE ?as = - dval BASE ?t" "?as \<noteq> []"
      using equalizeSigns_value(3) [OF t(2)] False len eq t(3) by auto
    have "limbs_ok (removeLeadingZeros ?as)" "dval BASE (removeLeadingZeros ?as) = - dval BASE (val n)"
      using removeLeadingZeros_value [OF es(1,3)] es(2) t(1) by simp_all
    moreover from this have "removeLeadingZeros ?as \<noteq> [0]" using False t(1) by auto
    ultimately show "inf_ok (correct False False n) \<and> ival (correct False False n) = dval BASE (val n)"
      by (simp add: correct_def eq Let_def inf_ok_def ival_def)
  qed
qed

lemma correct_fresh:
  assumes "\<bar>hd (val n)\<bar> < 2147483648" "\<forall>d \<in> set (tl (val n)). \<bar>d\<bar> \<le> 2 * BASE" "val n \<noteq> []"
  shows "inf_ok (correct False False n)" "ival (correct False False n) = dval BASE (val n)"
  using correct_truncated [of n] truncateToBase_value [of "val n"] assms by auto

lemma correct_signed:
  assumes "\<bar>hd (val n)\<bar> < 2147483648" "\<forall>d \<in> set (tl (val n)). \<bar>d\<bar> < BASE" "val n \<noteq> []"
    and nz: "dval BASE (val n) = 0 \<Longrightarrow> val n = [0]"
  shows "inf_ok (correct False True n)" "ival (correct False True n) = ival n"
proof -
  let ?t = "truncateToBase (val n)"
  have t: "dval BASE ?t = dval BASE (val n)" "\<forall>d \<in> set ?t. \<bar>d\<bar> < BASE" "?t \<noteq> []"
    using truncateToBase_value [of "val n"] assms by fastforce+
  let ?es = "snd (equalizeSigns ?t)"
  have len: "length ?es = length ?t"
    using equalizeSigns_value(2,3) [OF t(2)] by linarith
  show "inf_ok (correct False True n)" "ival (correct False True n) = ival n"
  proof (atomize (full), cases "0 \<le> dval BASE ?t")
    case True
    then obtain es where eq: "equalizeSigns ?t = (True, es)" "?es = es"
      using equalizeSigns_value(1) [OF t(2)] by (metis prod.collapse)
    then have es: "digits_ok BASE es" "dval BASE es = dval BASE ?t" "es \<noteq> []"
      using equalizeSigns_value(2) [OF t(2) True] t(3) by auto
    have r: "limbs_ok (removeLeadingZeros es)" "dval BASE (removeLeadingZeros es) = dval BASE (val n)"
      using removeLeadingZeros_value [OF es(1,3)] es(2) t(1) by simp_all
    have "es = [0]" if "removeLeadingZeros es = [0]"
    proof -
      have "val n = [0]" using r(2) that nz by simp
      then have "?t = [0]" by simp
      then have "length es = 1" using len eq by simp
      then show "es = [0]" using that by (cases es) (auto simp: removeLeadingZeros_def)
    qed
    moreover have "dval BASE (val n) = 0" if "es = [0]" using es(2) t(1) that by simp
    ultimately show "inf_ok (correct False True n) \<and> ival (correct False True n) = ival n"
      using r by (auto simp: correct_def eq Let_def inf_ok_def ival_def)
  next
    case False
    then obtain es where eq: "equalizeSigns ?t = (False, es)" "?es = es"
      using equalizeSigns_value(1) [OF t(2)] by (metis prod.collapse)
    let ?as = "map (\<lambda>d. s32 \<bar>d\<bar>) es"
    have es: "digits_ok BASE ?as" "dval BASE ?as = - dval BASE ?t" "?as \<noteq> []"
      using equalizeSigns_value(3) [OF t(2)] False len eq t(3) by auto
    have "limbs_ok (removeLeadingZeros ?as)" "dval BASE (removeLeadingZeros ?as) = - dval BASE (val n)"
      using removeLeadingZeros_value [OF es(1,3)] es(2) t(1) by simp_all
    moreover from this have "removeLeadingZeros ?as \<noteq> [0]" using False t(1) by auto
    ultimately show "inf_ok (correct False True n) \<and> ival (correct False True n) = ival n"
      by (simp add: correct_def eq Let_def inf_ok_def ival_def)
  qed
qed

end
