(* ===== verification/InfInt_Add.thy ===== *)
theory InfInt_Add
  imports InfInt_Core
begin

text \<open>
  InfInt's constructors and assignments from the C integer types, addition, subtraction,
  negation, increment and decrement (\<^verbatim>\<open>src/cross/include/InfInt.h\<close>), each exact on
  values that satisfy \<open>inf_ok\<close>.
\<close>

section \<open>Constructors\<close>

text \<open>
  The \<open>do ... while (l > 0)\<close> loops that cut an integer into limbs.
\<close>

lemma quot_smaller: "0 < q \<Longrightarrow> \<bar>q\<bar> \<le> \<bar>l sdiv BASE\<bar> \<Longrightarrow> nat \<bar>q\<bar> < nat \<bar>l\<bar>"
proof -
  assume q: "0 < q" "\<bar>q\<bar> \<le> \<bar>l sdiv BASE\<bar>"
  then have d: "\<bar>q\<bar> \<le> \<bar>l\<bar> div BASE" "0 < \<bar>l\<bar> div BASE" by (simp_all add: abs_sdiv)
  then have "0 < \<bar>l\<bar>" by (cases "l = 0") auto
  then have "\<bar>l\<bar> div BASE < \<bar>l\<bar>" by (simp add: int_div_less_self)
  with d \<open>0 < \<bar>l\<bar>\<close> show ?thesis by linarith
qed

lemma my_div_quot_less: "0 < fst (my_div l BASE) \<Longrightarrow> fst (my_div l BASE) < \<bar>l\<bar>"
  using quot_smaller [of "fst (my_div l BASE)" l] abs_s32_le [of "l sdiv BASE"]
  by (simp add: my_div_def Let_def del: inf_consts)

lemma my_ldiv_quot_less: "0 < fst (my_ldiv l BASE) \<Longrightarrow> fst (my_ldiv l BASE) < \<bar>l\<bar>"
  using quot_smaller [of "fst (my_ldiv l BASE)" l] abs_s64_le [of "l sdiv BASE"]
  by (simp add: my_ldiv_def Let_def del: inf_consts)

function limbs_int :: "int \<Rightarrow> int list" where
  "limbs_int l =
     (let dt = my_div l BASE in snd dt # (if fst dt > 0 then limbs_int (fst dt) else []))"
  by pat_completeness auto
termination
  by (relation "measure (\<lambda>l. nat \<bar>l\<bar>)") (auto simp del: inf_consts, use my_div_quot_less [of 0] in simp, rule my_div_quot_less)

function limbs_long :: "int \<Rightarrow> int list" where
  "limbs_long l =
     (let dt = my_ldiv l BASE in s32 (snd dt) # (if fst dt > 0 then limbs_long (fst dt) else []))"
  by pat_completeness auto
termination
  by (relation "measure (\<lambda>l. nat \<bar>l\<bar>)") (auto simp del: inf_consts, use my_ldiv_quot_less [of 0] in simp, rule my_ldiv_quot_less)

fun limbs_unsigned :: "nat \<Rightarrow> int list" where
  "limbs_unsigned l =
     s32 (int l mod BASE) #
     (if l div 1000000000 > 0 then limbs_unsigned (l div 1000000000) else [])"

declare limbs_int.simps [simp del] limbs_long.simps [simp del] limbs_unsigned.simps [simp del]

section \<open>Addition, subtraction, negation, increment, decrement\<close>

text \<open>The \<open>i\<close>-th limb with the sign of the number, and 0 past the end.\<close>

definition signed_limb :: "infint \<Rightarrow> nat \<Rightarrow> int" where
  "signed_limb n i =
     (if i < length (val n) then (if pos n then val n ! i else s32 (- (val n ! i))) else 0)"

definition inf_add :: "infint \<Rightarrow> infint \<Rightarrow> infint" where
  "inf_add n rhs =
     (let k = (if length (val n) > length (val rhs) then length (val n) else length (val rhs))
      in correct False False
           \<lparr>pos = True, val = map (\<lambda>i. s32 (signed_limb n i + signed_limb rhs i)) [0..<k]\<rparr>)"

definition inf_sub :: "infint \<Rightarrow> infint \<Rightarrow> infint" where
  "inf_sub n rhs =
     (let k = (if length (val n) > length (val rhs) then length (val n) else length (val rhs))
      in correct False False
           \<lparr>pos = True, val = map (\<lambda>i. s32 (signed_limb n i - signed_limb rhs i)) [0..<k]\<rparr>)"

text \<open>\<open>+=\<close> and \<open>-=\<close> first grow \<open>val\<close> to the length of the right operand.\<close>

definition resize :: "int list \<Rightarrow> nat \<Rightarrow> int list" where
  "resize ds k = take k ds @ replicate (k - length ds) 0"

definition inf_add_assign :: "infint \<Rightarrow> infint \<Rightarrow> infint" where
  "inf_add_assign n rhs =
     (let n' = (if length (val rhs) > length (val n)
                then n\<lparr>val := resize (val n) (length (val rhs))\<rparr> else n)
      in correct False False
           (n'\<lparr>val := map (\<lambda>i. s32 (signed_limb n' i + signed_limb rhs i)) [0..<length (val n')]\<rparr>))"

definition inf_sub_assign :: "infint \<Rightarrow> infint \<Rightarrow> infint" where
  "inf_sub_assign n rhs =
     (let n' = (if length (val rhs) > length (val n)
                then n\<lparr>val := resize (val n) (length (val rhs))\<rparr> else n)
      in correct False False
           (n'\<lparr>val := map (\<lambda>i. s32 (signed_limb n' i - signed_limb rhs i)) [0..<length (val n')]\<rparr>))"

definition inf_neg :: "infint \<Rightarrow> infint" where
  "inf_neg n = n\<lparr>pos := \<not> pos n\<rparr>"

definition pre_incr :: "infint \<Rightarrow> infint" where
  "pre_incr n = correct False True (n\<lparr>val := (val n)[0 := s32 (val n ! 0 + (if pos n then 1 else - 1))]\<rparr>)"

definition pre_decr :: "infint \<Rightarrow> infint" where
  "pre_decr n = correct False True (n\<lparr>val := (val n)[0 := s32 (val n ! 0 - (if pos n then 1 else - 1))]\<rparr>)"

text \<open>The postfix forms return the old value and leave the new one in the object.\<close>

definition post_incr :: "infint \<Rightarrow> infint \<times> infint" where
  "post_incr n =
     (n, correct False True (n\<lparr>val := (val n)[0 := s32 (val n ! 0 + (if pos n then 1 else - 1))]\<rparr>))"

definition post_decr :: "infint \<Rightarrow> infint \<times> infint" where
  "post_decr n =
     (n, correct False True (n\<lparr>val := (val n)[0 := s32 (val n ! 0 - (if pos n then 1 else - 1))]\<rparr>))"

text \<open>
  The constructors.  The smallest value of a signed type has no negation, so it is built one
  above and then decremented.
\<close>

definition InfInt_default :: infint where
  "InfInt_default = \<lparr>pos = True, val = [0]\<rparr>"

definition InfInt_int :: "int \<Rightarrow> infint" where
  "InfInt_int l =
     (let p = (l \<ge> 0);
          subtractOne = (l = - 2147483648);
          l1 = (if subtractOne then s32 (l + 1) else l);
          l2 = (if \<not> p then s32 (- l1) else l1);
          n = \<lparr>pos = p, val = limbs_int l2\<rparr>
      in if subtractOne then pre_decr n else n)"

definition InfInt_long :: "int \<Rightarrow> infint" where
  "InfInt_long l =
     (let p = (l \<ge> 0);
          subtractOne = (l = - 9223372036854775808);
          l1 = (if subtractOne then s64 (l + 1) else l);
          l2 = (if \<not> p then s64 (- l1) else l1);
          n = \<lparr>pos = p, val = limbs_long l2\<rparr>
      in if subtractOne then pre_decr n else n)"

definition InfInt_unsigned :: "nat \<Rightarrow> infint" where
  "InfInt_unsigned l = \<lparr>pos = True, val = limbs_unsigned l\<rparr>"

text \<open>The assignments clear \<open>val\<close> of the object and rebuild it.\<close>

definition assign_int :: "infint \<Rightarrow> int \<Rightarrow> infint" where
  "assign_int self l =
     (let subtractOne = (l = - 2147483648);
          l1 = (if subtractOne then s32 (l + 1) else l);
          p = (l1 \<ge> 0);
          l2 = (if \<not> p then s32 (- l1) else l1);
          n = self\<lparr>pos := p, val := [] @ limbs_int l2\<rparr>
      in if subtractOne then pre_decr n else n)"

definition assign_long :: "infint \<Rightarrow> int \<Rightarrow> infint" where
  "assign_long self l =
     (let subtractOne = (l = - 9223372036854775808);
          l1 = (if subtractOne then s64 (l + 1) else l);
          p = (l1 \<ge> 0);
          l2 = (if \<not> p then s64 (- l1) else l1);
          n = self\<lparr>pos := p, val := [] @ limbs_long l2\<rparr>
      in if subtractOne then pre_decr n else n)"

definition assign_unsigned :: "infint \<Rightarrow> nat \<Rightarrow> infint" where
  "assign_unsigned self l = self\<lparr>pos := True, val := [] @ limbs_unsigned l\<rparr>"

definition assign_inf :: "infint \<Rightarrow> infint \<Rightarrow> infint" where
  "assign_inf self l = self\<lparr>pos := pos l, val := val l\<rparr>"

section \<open>Exactness of addition and subtraction\<close>

lemma inf_okD:
  "inf_ok n \<Longrightarrow> digits_ok BASE (val n)" "inf_ok n \<Longrightarrow> val n \<noteq> []" "inf_ok n \<Longrightarrow> limbs_ok (val n)"
  by (simp_all add: inf_ok_def limbs_ok_def)

lemma signed_limb_alt:
  assumes "digits_ok BASE (val n)"
  shows "signed_limb n i = (if pos n then 1 else - 1) * (if i < length (val n) then val n ! i else 0)"
    and "\<bar>signed_limb n i\<bar> < BASE"
  using digits_ok_nth [OF assms, of i] by (auto simp: signed_limb_def s32_id)

lemma sum_signed_limb:
  assumes "digits_ok BASE (val n)" "length (val n) \<le> k"
  shows "(\<Sum>i<k. signed_limb n i * BASE ^ i) = ival n"
proof -
  have "(\<Sum>i<k. signed_limb n i * BASE ^ i) =
      (if pos n then 1 else - 1) * (\<Sum>i<k. (if i < length (val n) then val n ! i else 0) * BASE ^ i)"
    by (simp only: signed_limb_alt(1) [OF assms(1)] sum_distrib_left mult.assoc)
  then show ?thesis using sum_nth_pad [OF assms(2), of BASE] by (simp add: ival_def)
qed

lemma limbwise_exact:
  fixes f :: "nat \<Rightarrow> int"
  assumes "\<And>i. \<bar>f i\<bar> \<le> 2 * BASE" "0 < k" "val r = map (\<lambda>i. s32 (f i)) [0..<k]"
  shows "inf_ok (correct False False r)" "ival (correct False False r) = (\<Sum>i<k. f i * BASE ^ i)"
proof -
  have eq: "s32 (f i) = f i" for i using assms(1) [of i] by (simp add: s32_id)
  have v: "val r = map f [0..<k]" by (simp add: assms(3) eq)
  have ne: "val r \<noteq> []" using assms(2) v by simp
  have hd: "\<bar>hd (val r)\<bar> < 2147483648" using assms(1) [of 0] assms(2) v by (simp add: hd_map)
  have tl: "\<forall>d \<in> set (tl (val r)). \<bar>d\<bar> \<le> 2 * BASE"
    using assms(1) unfolding v by (cases k) (auto simp: upt_conv_Cons simp del: upt_Suc)
  show "inf_ok (correct False False r)" by (rule correct_fresh(1) [OF hd tl ne])
  show "ival (correct False False r) = (\<Sum>i<k. f i * BASE ^ i)"
    using correct_fresh(2) [OF hd tl ne] by (simp add: v dval_map_upt)
qed

lemma inf_add_exact:
  assumes "inf_ok a" "inf_ok b"
  shows "inf_ok (inf_add a b)" "ival (inf_add a b) = ival a + ival b"
proof -
  note d = assms [THEN inf_okD(1)]
  let ?k = "if length (val a) > length (val b) then length (val a) else length (val b)"
  let ?f = "\<lambda>i. signed_limb a i + signed_limb b i"
  let ?r = "\<lparr>pos = True, val = map (\<lambda>i. s32 (?f i)) [0..<?k]\<rparr>"
  have f: "\<bar>?f i\<bar> \<le> 2 * BASE" for i
    using signed_limb_alt(2) [OF d(1), of i] signed_limb_alt(2) [OF d(2), of i] by linarith
  have k: "0 < ?k" "length (val a) \<le> ?k" "length (val b) \<le> ?k" using inf_okD(2) [OF assms(1)] by auto
  have eq: "inf_add a b = correct False False ?r" by (simp add: inf_add_def Let_def)
  show "inf_ok (inf_add a b)" unfolding eq by (rule limbwise_exact(1) [where f = ?f and k = ?k and r = ?r, OF f k(1)]) simp
  have "ival (inf_add a b) = (\<Sum>i<?k. ?f i * BASE ^ i)"
    unfolding eq by (rule limbwise_exact(2) [where f = ?f and k = ?k and r = ?r, OF f k(1)]) simp
  also have "\<dots> = ival a + ival b"
    using sum_signed_limb [OF d(1) k(2)] sum_signed_limb [OF d(2) k(3)]
    by (simp only: distrib_right sum.distrib)
  finally show "ival (inf_add a b) = ival a + ival b" .
qed

lemma inf_sub_exact:
  assumes "inf_ok a" "inf_ok b"
  shows "inf_ok (inf_sub a b)" "ival (inf_sub a b) = ival a - ival b"
proof -
  note d = assms [THEN inf_okD(1)]
  let ?k = "if length (val a) > length (val b) then length (val a) else length (val b)"
  let ?f = "\<lambda>i. signed_limb a i - signed_limb b i"
  let ?r = "\<lparr>pos = True, val = map (\<lambda>i. s32 (?f i)) [0..<?k]\<rparr>"
  have f: "\<bar>?f i\<bar> \<le> 2 * BASE" for i
    using signed_limb_alt(2) [OF d(1), of i] signed_limb_alt(2) [OF d(2), of i] by linarith
  have k: "0 < ?k" "length (val a) \<le> ?k" "length (val b) \<le> ?k" using inf_okD(2) [OF assms(1)] by auto
  have eq: "inf_sub a b = correct False False ?r" by (simp add: inf_sub_def Let_def)
  show "inf_ok (inf_sub a b)" unfolding eq by (rule limbwise_exact(1) [where f = ?f and k = ?k and r = ?r, OF f k(1)]) simp
  have "ival (inf_sub a b) = (\<Sum>i<?k. ?f i * BASE ^ i)"
    unfolding eq by (rule limbwise_exact(2) [where f = ?f and k = ?k and r = ?r, OF f k(1)]) simp
  also have "\<dots> = ival a - ival b"
    using sum_signed_limb [OF d(1) k(2)] sum_signed_limb [OF d(2) k(3)]
    by (simp only: left_diff_distrib sum_subtractf)
  finally show "ival (inf_sub a b) = ival a - ival b" .
qed

text \<open>The assigning forms compute the same number as the operators they abbreviate.\<close>

lemma correct_fresh_cong: "val n = val m \<Longrightarrow> correct False False n = correct False False (m :: infint)"
  by (simp add: correct_def Let_def split: prod.splits bool.splits)

lemma signed_limb_resize:
  "length (val n) < k \<Longrightarrow> signed_limb (n\<lparr>val := resize (val n) k\<rparr>) = signed_limb n"
  by (rule ext) (simp add: signed_limb_def resize_def nth_append s32_id)

lemma length_resize: "length (resize ds k) = k"
  by (simp add: resize_def min_def)

lemma inf_add_assign_eq: "inf_add_assign a b = inf_add a b"
  by (auto simp: inf_add_assign_def inf_add_def Let_def signed_limb_resize length_resize
        intro!: correct_fresh_cong)

lemma inf_sub_assign_eq: "inf_sub_assign a b = inf_sub a b"
  by (auto simp: inf_sub_assign_def inf_sub_def Let_def signed_limb_resize length_resize
        intro!: correct_fresh_cong)

lemma inf_neg_exact:
  "ival (inf_neg n) = - ival n" "inf_ok n \<Longrightarrow> inf_ok (inf_neg n) \<longleftrightarrow> ival n \<noteq> 0"
  using limbs_ok_zero [of "val n"] by (auto simp: inf_neg_def ival_def inf_ok_def)

lemma step_limb0:
  assumes "inf_ok n" "v = (val n)[0 := s32 (val n ! 0 + e)]" "e = 1 \<or> e = - 1"
  shows "dval BASE v = dval BASE (val n) + e" "\<bar>hd v\<bar> < 2147483648"
    "\<forall>d \<in> set (tl v). \<bar>d\<bar> < BASE" "v \<noteq> []" "dval BASE v = 0 \<Longrightarrow> v = [0]"
proof -
  obtain d ds where ds: "val n = d # ds" using inf_okD(2) [OF assms(1)] by (cases "val n") auto
  have d: "0 \<le> d" "d < BASE" "digits_ok BASE ds" using inf_okD(1) [OF assms(1)] ds by simp_all
  have v: "v = (d + e) # ds" using d(1,2) assms(2,3) ds by (auto simp: s32_id)
  show "dval BASE v = dval BASE (val n) + e" by (simp add: v ds)
  show "\<bar>hd v\<bar> < 2147483648" using d assms(3) by (auto simp: v)
  show "\<forall>d \<in> set (tl v). \<bar>d\<bar> < BASE" using d(3) by (auto simp: v digits_ok_def)
  show "v \<noteq> []" by (simp add: v)
  assume z: "dval BASE v = 0"
  have "ds = []"
  proof (rule ccontr)
    assume ne: "ds \<noteq> []"
    then have "last ds \<noteq> 0" using inf_okD(3) [OF assms(1)] by (simp add: limbs_ok_def ds)
    from limb.dval_ge_1 [OF d(3) ne this] have "1 \<le> dval BASE ds" .
    then show False using z d assms(3) by (auto simp: v)
  qed
  then show "v = [0]" using z by (simp add: v)
qed

lemma pre_incr_exact: "inf_ok n \<Longrightarrow> inf_ok (pre_incr n)" "inf_ok n \<Longrightarrow> ival (pre_incr n) = ival n + 1"
proof -
  assume ok: "inf_ok n"
  let ?v = "(val n)[0 := s32 (val n ! 0 + (if pos n then 1 else - 1))]"
  note st = step_limb0 [OF ok refl, of "if pos n then 1 else - 1"]
  have eq: "pre_incr n = correct False True (n\<lparr>val := ?v\<rparr>)" by (simp add: pre_incr_def)
  show "inf_ok (pre_incr n)"
    unfolding eq by (rule correct_signed(1)) (use st in auto)
  have "ival (pre_incr n) = ival (n\<lparr>val := ?v\<rparr>)"
    unfolding eq by (rule correct_signed(2)) (use st in auto)
  then show "ival (pre_incr n) = ival n + 1" using st(1)
    by (cases "pos n") (simp_all add: ival_def del: inf_consts)
qed

lemma pre_decr_exact: "inf_ok n \<Longrightarrow> inf_ok (pre_decr n)" "inf_ok n \<Longrightarrow> ival (pre_decr n) = ival n - 1"
proof -
  assume ok: "inf_ok n"
  let ?v = "(val n)[0 := s32 (val n ! 0 + (if pos n then - 1 else 1))]"
  note st = step_limb0 [OF ok refl, of "if pos n then - 1 else 1"]
  have eq: "pre_decr n = correct False True (n\<lparr>val := ?v\<rparr>)" by (simp add: pre_decr_def)
  show "inf_ok (pre_decr n)"
    unfolding eq by (rule correct_signed(1)) (use st in auto)
  have "ival (pre_decr n) = ival (n\<lparr>val := ?v\<rparr>)"
    unfolding eq by (rule correct_signed(2)) (use st in auto)
  then show "ival (pre_decr n) = ival n - 1" using st(1)
    by (cases "pos n") (simp_all add: ival_def del: inf_consts)
qed

lemma post_forms: "post_incr n = (n, pre_incr n)" "post_decr n = (n, pre_decr n)"
  by (simp_all add: post_incr_def post_decr_def pre_incr_def pre_decr_def)

section \<open>Constructors and assignments hold the given integer\<close>

lemma limbs_unsigned_value:
  "digits_ok BASE (limbs_unsigned l) \<and> dval BASE (limbs_unsigned l) = int l \<and>
    limbs_unsigned l \<noteq> [] \<and> (0 < l \<longrightarrow> last (limbs_unsigned l) \<noteq> 0) \<and> (l = 0 \<longrightarrow> limbs_unsigned l = [0])"
proof (induction l rule: limbs_unsigned.induct)
  case (1 l)
  have m: "s32 (int l mod BASE) = int l mod BASE"
    by (rule s32_id) (simp_all add: order.strict_trans2 [OF pos_mod_bound] order.trans [OF _ pos_mod_sign])
  have unf: "limbs_unsigned l =
      int l mod BASE # (if l div 1000000000 > 0 then limbs_unsigned (l div 1000000000) else [])"
    by (subst limbs_unsigned.simps) (simp only: m)
  show ?case
  proof (cases "l div 1000000000 > 0")
    case True
    with 1 have ih: "digits_ok BASE (limbs_unsigned (l div 1000000000))"
        "dval BASE (limbs_unsigned (l div 1000000000)) = int l div BASE"
        "limbs_unsigned (l div 1000000000) \<noteq> []" "last (limbs_unsigned (l div 1000000000)) \<noteq> 0"
      by (simp_all add: zdiv_int)
    then show ?thesis unfolding unf using True by simp
  next
    case False
    then have "l < 1000000000" by (simp add: div_eq_0_iff)
    then show ?thesis unfolding unf by auto
  qed
qed

lemma my_ldiv_BASE:
  assumes "0 \<le> l" "l < 9223372036854775808"
  shows "fst (my_ldiv l BASE) = l div BASE" "snd (my_ldiv l BASE) = l mod BASE"
proof -
  have "0 \<le> l div BASE" using assms(1) by (simp add: pos_imp_zdiv_nonneg_iff)
  moreover have "BASE * (l div BASE) \<le> l"
    using mult_div_mod_eq [of BASE l] pos_mod_sign [of BASE l] by simp
  ultimately have q: "0 \<le> l div BASE" "l div BASE \<le> l" "BASE * (l div BASE) \<le> l"
      "0 \<le> BASE * (l div BASE)"
    by simp_all
  have s: "l sdiv BASE = l div BASE" by (rule sdiv_nonneg) (use assms in simp_all)
  have w: "s64 (l div BASE) = l div BASE" "s64 (BASE * (l div BASE)) = BASE * (l div BASE)"
    by (rule s64_id; use q assms in linarith)+
  have m: "l - BASE * (l div BASE) = l mod BASE" by (rule minus_mult_div_eq_mod)
  have "s64 (l mod BASE) = l mod BASE" by (rule s64_id; use m q assms in linarith)
  then show "fst (my_ldiv l BASE) = l div BASE" "snd (my_ldiv l BASE) = l mod BASE"
    by (simp_all only: my_ldiv_def Let_def s w m fst_conv snd_conv)
qed

text \<open>
  One loop serves every width: in range, the signed loops cut the same limbs as the
  unsigned one.
\<close>

lemma limbs_int_unsigned: "0 \<le> l \<Longrightarrow> l < 2147483648 \<Longrightarrow> limbs_int l = limbs_unsigned (nat l)"
proof (induction l rule: limbs_int.induct)
  case (1 l)
  have dv: "fst (my_div l BASE) = l div BASE" "snd (my_div l BASE) = l mod BASE"
    using my_div_BASE [of l] 1(2,3) by (simp_all add: sdiv_nonneg minus_mult_div_eq_mod)
  note dv' = dv [unfolded inf_consts]
  have q: "nat (l div BASE) = nat l div 1000000000" "s32 (l mod BASE) = l mod BASE"
    using 1(2) by (simp_all add: nat_div_distrib) (simp add: s32_def)
  show ?case
  proof (cases "l div BASE > 0")
    case True
    have "limbs_int (l div BASE) = limbs_unsigned (nat (l div BASE))"
      using 1(1) [OF refl] True 1(2,3) dv by (simp del: inf_consts) (simp)
    with True 1(2) q show ?thesis
      by (subst limbs_int.simps, subst limbs_unsigned.simps) (auto simp: dv' Let_def)
  next
    case False
    with 1(2) q show ?thesis
      by (subst limbs_int.simps, subst limbs_unsigned.simps) (auto simp: dv' Let_def)
  qed
qed

lemma limbs_long_unsigned:
  "0 \<le> l \<Longrightarrow> l < 9223372036854775808 \<Longrightarrow> limbs_long l = limbs_unsigned (nat l)"
proof (induction l rule: limbs_long.induct)
  case (1 l)
  note dv = my_ldiv_BASE [OF 1(2,3)]
  note dv' = dv [unfolded inf_consts]
  have q: "nat (l div BASE) = nat l div 1000000000"
    using 1(2) by (simp add: nat_div_distrib)
  show ?case
  proof (cases "l div BASE > 0")
    case True
    have "l div BASE < 9223372036854775808" using 1(2,3) by simp
    then have "limbs_long (l div BASE) = limbs_unsigned (nat (l div BASE))"
      using 1(1) [OF refl] True dv by (simp del: inf_consts)
    with True 1(2) q show ?thesis
      by (subst limbs_long.simps, subst limbs_unsigned.simps) (auto simp: dv' Let_def)
  next
    case False
    with 1(2) q show ?thesis
      by (subst limbs_long.simps, subst limbs_unsigned.simps) (auto simp: dv' Let_def)
  qed
qed

lemma limbs_unsigned_ok: "limbs_ok (limbs_unsigned l)"
  using limbs_unsigned_value [of l] by (cases "l = 0") (auto simp: limbs_ok_def)

lemma InfInt_unsigned_exact: "inf_ok (InfInt_unsigned l)" "ival (InfInt_unsigned l) = int l"
  using limbs_unsigned_value [of l] limbs_unsigned_ok [of l]
  by (simp_all add: InfInt_unsigned_def inf_ok_def ival_def)

lemma signed_parts_ok:
  assumes "ds = limbs_unsigned (nat \<bar>l\<bar>)"
  shows "inf_ok \<lparr>pos = 0 \<le> l, val = ds\<rparr>" "ival \<lparr>pos = 0 \<le> l, val = ds\<rparr> = l"
proof -
  note v = limbs_unsigned_value [of "nat \<bar>l\<bar>"]
  have "ds = [0] \<Longrightarrow> l = 0" using v assms by auto
  then show "inf_ok \<lparr>pos = 0 \<le> l, val = ds\<rparr>"
    using limbs_unsigned_ok assms by (auto simp: inf_ok_def)
  show "ival \<lparr>pos = 0 \<le> l, val = ds\<rparr> = l"
    using v assms by (cases "0 \<le> l") (simp_all add: ival_def)
qed

lemma InfInt_int_exact:
  assumes "- 2147483648 \<le> l" "l < 2147483648"
  shows "inf_ok (InfInt_int l)" "ival (InfInt_int l) = l"
proof -
  let ?l = "if l = - 2147483648 then l + 1 else l"
  let ?n = "\<lparr>pos = 0 \<le> ?l, val = limbs_unsigned (nat \<bar>?l\<bar>)\<rparr>"
  have "limbs_int \<bar>?l\<bar> = limbs_unsigned (nat \<bar>?l\<bar>)"
    using assms by (intro limbs_int_unsigned) auto
  then have eq: "InfInt_int l = (if l = - 2147483648 then pre_decr ?n else ?n)"
    using assms by (auto simp: InfInt_int_def Let_def s32_id)
  show "inf_ok (InfInt_int l)" "ival (InfInt_int l) = l"
    unfolding eq using signed_parts_ok [OF refl, of ?l] pre_decr_exact [of ?n] by auto
qed

lemma InfInt_long_exact:
  assumes "- 9223372036854775808 \<le> l" "l < 9223372036854775808"
  shows "inf_ok (InfInt_long l)" "ival (InfInt_long l) = l"
proof -
  let ?l = "if l = - 9223372036854775808 then l + 1 else l"
  let ?n = "\<lparr>pos = 0 \<le> ?l, val = limbs_unsigned (nat \<bar>?l\<bar>)\<rparr>"
  have "limbs_long \<bar>?l\<bar> = limbs_unsigned (nat \<bar>?l\<bar>)"
    using assms by (intro limbs_long_unsigned) auto
  then have eq: "InfInt_long l = (if l = - 9223372036854775808 then pre_decr ?n else ?n)"
    using assms by (auto simp: InfInt_long_def Let_def s64_id)
  show "inf_ok (InfInt_long l)" "ival (InfInt_long l) = l"
    unfolding eq using signed_parts_ok [OF refl, of ?l] pre_decr_exact [of ?n] by auto
qed

lemma assign_forms:
  "assign_int self l = InfInt_int l" "assign_long self l = InfInt_long l"
  "assign_unsigned self k = InfInt_unsigned k" "assign_inf self n = n"
proof -
  show "assign_int self l = InfInt_int l"
    by (cases self) (auto simp: assign_int_def InfInt_int_def Let_def s32_id)
  show "assign_long self l = InfInt_long l"
    by (cases self) (auto simp: assign_long_def InfInt_long_def Let_def s64_id)
qed (simp_all add: assign_unsigned_def InfInt_unsigned_def assign_inf_def)

lemma InfInt_default_exact: "inf_ok InfInt_default" "ival InfInt_default = 0"
  by (simp_all add: InfInt_default_def inf_ok_def limbs_ok_def ival_def)

end
