(* ===== verification/InfInt_Mul.thy ===== *)
theory InfInt_Mul
  imports InfInt_Add
begin

text \<open>
  InfInt's relational operators and its two multiplications
  (\<^verbatim>\<open>src/cross/include/InfInt.h\<close>): by an \<open>int\<close> with a running carry
  (\<open>multiplyByDigit\<close>) and by another InfInt, column by column with a 64-bit carry.  The
  products are exact; for the column form this includes that the 64-bit carry does not
  overflow (below \<open>2^31\<close> limbs) and that the loop after the columns, which would overwrite
  the last limb, never runs.
\<close>

section \<open>Relational operators\<close>

text \<open>
  The comparison loops run from the most significant limb down; the two lists are given
  most significant limb first, and have equal length.
\<close>

fun cmp_eq :: "int list \<Rightarrow> int list \<Rightarrow> bool" where
  "cmp_eq (x # xs) (y # ys) = (if x \<noteq> y then False else cmp_eq xs ys)"
| "cmp_eq _ _ = True"

fun cmp_limbs :: "bool \<Rightarrow> bool \<Rightarrow> bool \<Rightarrow> int list \<Rightarrow> int list \<Rightarrow> bool" where
  "cmp_limbs lt gt eq (x # xs) (y # ys) =
     (if x < y then lt else if x > y then gt else cmp_limbs lt gt eq xs ys)"
| "cmp_limbs lt gt eq _ _ = eq"

definition inf_eq :: "infint \<Rightarrow> infint \<Rightarrow> bool" where
  "inf_eq n rhs =
     (if pos n \<noteq> pos rhs \<or> length (val n) \<noteq> length (val rhs) then False
      else cmp_eq (rev (val n)) (rev (val rhs)))"

definition inf_neq :: "infint \<Rightarrow> infint \<Rightarrow> bool" where
  "inf_neq n rhs =
     (if pos n \<noteq> pos rhs \<or> length (val n) \<noteq> length (val rhs) then True
      else \<not> cmp_eq (rev (val n)) (rev (val rhs)))"

definition inf_lt :: "infint \<Rightarrow> infint \<Rightarrow> bool" where
  "inf_lt n rhs =
     (if pos n \<and> \<not> pos rhs then False
      else if \<not> pos n \<and> pos rhs then True
      else if length (val n) > length (val rhs) then (if pos n then False else True)
      else if length (val n) < length (val rhs) then (if pos n then True else False)
      else cmp_limbs (if pos n then True else False) (if pos n then False else True) False
             (rev (val n)) (rev (val rhs)))"

definition inf_le :: "infint \<Rightarrow> infint \<Rightarrow> bool" where
  "inf_le n rhs =
     (if pos n \<and> \<not> pos rhs then False
      else if \<not> pos n \<and> pos rhs then True
      else if length (val n) > length (val rhs) then (if pos n then False else True)
      else if length (val n) < length (val rhs) then (if pos n then True else False)
      else cmp_limbs (if pos n then True else False) (if pos n then False else True) True
             (rev (val n)) (rev (val rhs)))"

definition inf_gt :: "infint \<Rightarrow> infint \<Rightarrow> bool" where
  "inf_gt n rhs =
     (if pos n \<and> \<not> pos rhs then True
      else if \<not> pos n \<and> pos rhs then False
      else if length (val n) > length (val rhs) then (if pos n then True else False)
      else if length (val n) < length (val rhs) then (if pos n then False else True)
      else cmp_limbs (if pos n then False else True) (if pos n then True else False) False
             (rev (val n)) (rev (val rhs)))"

definition inf_ge :: "infint \<Rightarrow> infint \<Rightarrow> bool" where
  "inf_ge n rhs =
     (if pos n \<and> \<not> pos rhs then True
      else if \<not> pos n \<and> pos rhs then False
      else if length (val n) > length (val rhs) then (if pos n then True else False)
      else if length (val n) < length (val rhs) then (if pos n then False else True)
      else cmp_limbs (if pos n then False else True) (if pos n then True else False) True
             (rev (val n)) (rev (val rhs)))"

subsection \<open>They decide the order of the values\<close>

lemma cmp_eq_iff: "length xs = length ys \<Longrightarrow> cmp_eq xs ys \<longleftrightarrow> xs = ys"
  by (induction xs ys rule: list_induct2) auto

lemma dval_snoc: "dval b (xs @ [x]) = dval b xs + b ^ length xs * x"
  by (simp add: dval_append)

lemma cmp_limbs_iff:
  assumes "length xs = length ys" "digits_ok BASE xs" "digits_ok BASE ys"
  shows "cmp_limbs lt gt eq (rev xs) (rev ys) =
    (if dval BASE xs < dval BASE ys then lt else if dval BASE xs > dval BASE ys then gt else eq)"
  using assms
proof (induction xs arbitrary: ys rule: rev_induct)
  case Nil
  then show ?case by simp
next
  case (snoc x xs)
  then obtain y zs where ys: "ys = zs @ [y]" "length zs = length xs"
    by (cases ys rule: rev_cases) auto
  have ok: "digits_ok BASE xs" "digits_ok BASE zs" using snoc.prems ys by simp_all
  let ?B = "BASE ^ length xs"
  have bd: "0 \<le> dval BASE xs" "dval BASE xs < ?B" "0 \<le> dval BASE zs" "dval BASE zs < ?B"
    using limb.dval_nonneg [OF ok(1)] limb.dval_less [OF ok(1)]
      limb.dval_nonneg [OF ok(2)] limb.dval_less [OF ok(2)] ys by simp_all
  have lead: "dval BASE (xs @ [x]) < dval BASE (zs @ [y])" if "x < y" for x y
  proof -
    have "?B * (x + 1) \<le> ?B * y" using that by (intro mult_left_mono) auto
    then show ?thesis using bd ys(2) by (simp add: dval_snoc algebra_simps)
  qed
  have lead': "dval BASE (zs @ [y]) < dval BASE (xs @ [x])" if "y < x" for x y
  proof -
    have "?B * (y + 1) \<le> ?B * x" using that by (intro mult_left_mono) auto
    then show ?thesis using bd ys(2) by (simp add: dval_snoc algebra_simps)
  qed
  consider "x < y" | "x > y" | "x = y" by linarith
  then show ?case
  proof cases
    case 1
    with lead [OF 1] show ?thesis by (simp add: ys)
  next
    case 2
    with lead' [OF 2] show ?thesis by (simp add: ys)
  next
    case 3
    with snoc.IH [of zs] ok ys show ?thesis by (simp add: dval_snoc)
  qed
qed

lemma shorter_smaller:
  assumes "limbs_ok xs" "limbs_ok ys" "length xs < length ys"
  shows "dval BASE xs < dval BASE ys"
proof -
  have "0 < length xs" using assms(1) by (auto simp: limbs_ok_def)
  then have "1 < length ys" using assms(3) by linarith
  then have "BASE ^ (length ys - 1) \<le> dval BASE ys"
    using assms(2) by (intro limb.dval_ge_last) (auto simp: limbs_ok_def)
  moreover have "dval BASE xs < BASE ^ length xs"
    using assms(1) by (intro limb.dval_less) (simp add: limbs_ok_def)
  moreover have "BASE ^ length xs \<le> BASE ^ (length ys - 1)"
    using assms(3) by (intro power_increasing) auto
  ultimately show ?thesis by linarith
qed

lemma inf_cmp_cases:
  assumes "inf_ok a" "inf_ok b"
  shows "inf_lt a b \<longleftrightarrow> ival a < ival b" "inf_le a b \<longleftrightarrow> ival a \<le> ival b"
    "inf_gt a b \<longleftrightarrow> ival a > ival b" "inf_ge a b \<longleftrightarrow> ival a \<ge> ival b"
    "inf_eq a b \<longleftrightarrow> ival a = ival b" "inf_neq a b \<longleftrightarrow> ival a \<noteq> ival b"
proof -
  note d = assms [THEN inf_okD(1)] and l = assms [THEN inf_okD(3)]
  note sg = ival_ok_nonneg [OF assms(1)] ival_ok_nonneg [OF assms(2)]
  have v: "ival x = dval BASE (val x)" if "pos x" for x using that by (simp add: ival_def)
  have v': "ival x = - dval BASE (val x)" if "\<not> pos x" for x using that by (simp add: ival_def)
  note sh = shorter_smaller [OF l(1,2)] shorter_smaller [OF l(2,1)]
  have c: "cmp_limbs lt gt eq (rev (val a)) (rev (val b)) =
     (if dval BASE (val a) < dval BASE (val b) then lt
      else if dval BASE (val a) > dval BASE (val b) then gt else eq)"
    if "length (val a) = length (val b)" for lt gt eq
    by (rule cmp_limbs_iff [OF that d])
  consider "pos a" "\<not> pos b" | "\<not> pos a" "pos b"
    | "pos a" "pos b" | "\<not> pos a" "\<not> pos b" by blast
  note signs = this
  have len: "length (val a) < length (val b) \<or> length (val b) < length (val a) \<or>
      length (val a) = length (val b)" by linarith
  show "inf_lt a b \<longleftrightarrow> ival a < ival b"
    by (cases rule: signs; use sg len sh c v v' in \<open>force simp: inf_lt_def\<close>)
  show "inf_le a b \<longleftrightarrow> ival a \<le> ival b"
    by (cases rule: signs; use sg len sh c v v' in \<open>force simp: inf_le_def\<close>)
  show "inf_gt a b \<longleftrightarrow> ival a > ival b"
    by (cases rule: signs; use sg len sh c v v' in \<open>force simp: inf_gt_def\<close>)
  show "inf_ge a b \<longleftrightarrow> ival a \<ge> ival b"
    by (cases rule: signs; use sg len sh c v v' in \<open>force simp: inf_ge_def\<close>)
  have "ival a = ival b \<longleftrightarrow> pos a = pos b \<and> val a = val b"
  proof (cases rule: signs)
    case 3
    with sh limb.dval_inj_len [OF d] len v show ?thesis by (metis less_irrefl)
  next
    case 4
    with sh limb.dval_inj_len [OF d] len v' show ?thesis by (metis less_irrefl neg_equal_iff_equal)
  qed (use sg in auto)
  then show "inf_eq a b \<longleftrightarrow> ival a = ival b" "inf_neq a b \<longleftrightarrow> ival a \<noteq> ival b"
    by (auto simp: inf_eq_def inf_neq_def cmp_eq_iff)
qed

section \<open>Multiplication by an int\<close>

text \<open>\<open>multiplyByDigit\<close>: one pass upwards with a carry, which is appended if positive.\<close>

fun multiplyByDigit :: "int \<Rightarrow> int \<Rightarrow> int list \<Rightarrow> int list" where
  "multiplyByDigit factor carry [] = (if carry > 0 then [carry] else [])"
| "multiplyByDigit factor carry (d # ds) =
     (let pval = s64 (s64 (d * factor) + carry)
      in if pval \<ge> BASE \<or> pval \<le> - BASE
         then (let dt = my_lldiv pval BASE
               in s32 (snd dt) # multiplyByDigit factor (s32 (fst dt)) ds)
         else s32 pval # multiplyByDigit factor 0 ds)"

definition inf_mul_int :: "infint \<Rightarrow> int \<Rightarrow> infint" where
  "inf_mul_int n rhs =
     (let factor = (if rhs < 0 then s32 (- rhs) else rhs);
          r = correct False False (n\<lparr>val := multiplyByDigit factor 0 (val n)\<rparr>)
      in r\<lparr>pos := (if val r = [0] then True else pos n = (rhs \<ge> 0))\<rparr>)"

definition inf_mul_int_assign :: "infint \<Rightarrow> int \<Rightarrow> infint" where
  "inf_mul_int_assign n rhs =
     (let factor = (if rhs < 0 then s32 (- rhs) else rhs);
          oldpos = pos n;
          r = correct False False (n\<lparr>val := multiplyByDigit factor 0 (val n)\<rparr>)
      in r\<lparr>pos := (if val r = [0] then True else oldpos = (rhs \<ge> 0))\<rparr>)"

section \<open>Multiplication\<close>

text \<open>
  One product of a column: the running limb takes it in, and the carry what overflows the
  base.  A column starts from the carry of the one before; \<open>found\<close> is false when no pair of
  limbs falls into it, which ends the loop.
\<close>

definition mul_cell :: "int \<Rightarrow> int \<Rightarrow> int \<times> int \<Rightarrow> int \<times> int" where
  "mul_cell x y st =
     (let pval = s64 (snd st + s64 (x * y))
      in if pval \<ge> BASE \<or> pval \<le> - BASE
         then (let dt = my_lldiv pval BASE in (s64 (fst st + fst dt), s32 (snd dt)))
         else (fst st, s32 pval))"

definition mul_range :: "infint \<Rightarrow> infint \<Rightarrow> nat \<Rightarrow> nat list" where
  "mul_range n rhs digit =
     [(if digit < length (val rhs) then 0 else digit - length (val rhs) + 1) ..<
      min (length (val n)) (Suc digit)]"

definition mul_column :: "infint \<Rightarrow> infint \<Rightarrow> nat \<Rightarrow> int \<Rightarrow> int \<times> int" where
  "mul_column n rhs digit carry =
     (let dt = my_lldiv carry BASE
      in foldl (\<lambda>st i. mul_cell (val n ! i) (val rhs ! (digit - i)) st)
           (fst dt, s32 (snd dt)) (mul_range n rhs digit))"

lemma mul_range_nonempty: "mul_range n rhs digit \<noteq> [] \<Longrightarrow> digit < length (val n) + length (val rhs)"
  by (auto simp: mul_range_def split: if_splits)

function mul_loop :: "infint \<Rightarrow> infint \<Rightarrow> nat \<Rightarrow> int \<Rightarrow> int list \<Rightarrow> nat \<times> int \<times> int list" where
  "mul_loop n rhs digit carry acc =
     (let st = mul_column n rhs digit carry;
          acc' = acc[digit := snd st]
      in if mul_range n rhs digit = [] then (digit, fst st, acc')
         else mul_loop n rhs (Suc digit) (fst st) acc')"
  by pat_completeness auto
termination
  by (relation "measure (\<lambda>(n, rhs, digit, _). length (val n) + length (val rhs) - digit)")
     (auto dest: mul_range_nonempty)

function mul_tail :: "nat \<Rightarrow> int \<Rightarrow> int list \<Rightarrow> int list" where
  "mul_tail digit carry acc =
     (if carry > 0
      then (let dt = my_lldiv carry BASE in mul_tail (Suc digit) (fst dt) (acc[digit := s32 (snd dt)]))
      else acc)"
  by pat_completeness auto
termination
proof (relation "measure (\<lambda>(_, carry, _). nat carry)", goal_cases)
  case (2 digit carry acc dt)
  have "\<bar>fst dt\<bar> \<le> \<bar>carry sdiv BASE\<bar>"
    using abs_s64_le [of "carry sdiv BASE"] 2 by (simp add: my_lldiv_def Let_def del: inf_consts)
  then have "\<bar>fst dt\<bar> < carry"
    using 2 by (simp add: abs_sdiv)
  then show ?case using 2 by simp
qed simp

declare mul_loop.simps [simp del] mul_tail.simps [simp del]

definition inf_mul :: "infint \<Rightarrow> infint \<Rightarrow> infint" where
  "inf_mul n rhs =
     (let (digit, carry, acc) = mul_loop n rhs 0 0 (resize [0] (length (val n) + length (val rhs)));
          r = correct False False \<lparr>pos = True, val = mul_tail digit carry acc\<rparr>
      in r\<lparr>pos := (if val r = [0] then True else pos n = pos rhs)\<rparr>)"

definition inf_mul_assign :: "infint \<Rightarrow> infint \<Rightarrow> infint" where
  "inf_mul_assign n rhs = assign_inf n (inf_mul n rhs)"

section \<open>The product with an int is exact\<close>

lemma my_lldiv_BASE:
  assumes "0 \<le> l" "l < 9223372036854775808"
  shows "fst (my_lldiv l BASE) = l div BASE" "snd (my_lldiv l BASE) = l mod BASE"
  using my_ldiv_BASE [OF assms] by (simp_all only: my_lldiv_def my_ldiv_def)

lemma s32_mod_BASE: "s32 (x mod BASE) = x mod BASE"
  by (rule s32_id) (simp_all add: order.trans [OF _ pos_mod_sign] order.strict_trans2 [OF pos_mod_bound])

lemma multiplyByDigit_value:
  assumes "digits_ok BASE ds" "0 \<le> f" "f < 2147483648" "0 \<le> c" "c < f \<or> c = 0"
  shows "\<exists>hs ts. multiplyByDigit f c ds = hs @ ts \<and> digits_ok BASE hs \<and> length hs = length ds \<and>
    (ts = [] \<or> (\<exists>t > 0. t < 2147483648 \<and> ts = [t])) \<and>
    dval BASE (multiplyByDigit f c ds) = f * dval BASE ds + c"
  using assms(1,4,5)
proof (induction ds arbitrary: c)
  case Nil
  then show ?case using assms(3) by (intro exI [of _ "[]"] exI [of _ "multiplyByDigit f c []"]) auto
next
  case (Cons d ds)
  have d: "0 \<le> d" "d < BASE" "digits_ok BASE ds" using Cons.prems(1) by simp_all
  have "d * f \<le> (BASE - 1) * f" using d assms(2) by (intro mult_right_mono) auto
  then have df: "0 \<le> d * f" "d * f \<le> 1000000000 * f - f" using d assms(2) by simp_all
  let ?p = "d * f + c"
  have p: "0 \<le> ?p" "?p \<le> BASE * f" "?p < BASE * f \<or> ?p = 0"
    using df Cons.prems(2,3) assms(2) unfolding inf_consts by linarith+
  have "BASE * f \<le> BASE * 2147483648" using assms(3) by simp
  then have big: "?p < 9223372036854775808" "d * f < 9223372036854775808" using p df Cons.prems(2) by auto
  have w: "s64 (s64 (d * f) + c) = ?p" using big df p by (simp add: s64_id)
  define q where "q = ?p div BASE"
  define r where "r = ?p mod BASE"
  have pqr: "?p = r + BASE * q" by (simp add: q_def r_def del: inf_consts)
  have q: "0 \<le> q" "q < f \<or> q = 0"
    using p by (auto simp: q_def pos_imp_zdiv_nonneg_iff)
  have sq: "s32 q = q" using q assms(3) by (intro s32_id) auto
  have r: "0 \<le> r" "r < BASE" by (simp_all add: r_def)
  have sr: "s32 r = r" unfolding r_def by (rule s32_mod_BASE)
  have unf: "multiplyByDigit f c (d # ds) = r # multiplyByDigit f q ds"
  proof (cases "?p \<ge> BASE")
    case True
    then show ?thesis
      using my_lldiv_BASE [OF p(1) big(1)] sq sr by (simp add: w Let_def q_def r_def)
  next
    case False
    then have "q = 0" "r = ?p" using p(1) by (simp_all add: q_def r_def)
    with False sr p(1) show ?thesis by (simp add: w Let_def)
  qed
  from Cons.IH [OF d(3) q] obtain hs ts where ih:
    "multiplyByDigit f q ds = hs @ ts" "digits_ok BASE hs" "length hs = length ds"
    "ts = [] \<or> (\<exists>t > 0. t < 2147483648 \<and> ts = [t])"
    "dval BASE (multiplyByDigit f q ds) = f * dval BASE ds + q" by blast
  have "dval BASE (multiplyByDigit f c (d # ds)) = f * dval BASE (d # ds) + c"
    unfolding unf using ih(5) pqr by (simp add: algebra_simps)
  with ih(1-4) r show ?case
    by (intro exI [of _ "r # hs"] exI [of _ ts]) (simp add: unf del: multiplyByDigit.simps)
qed

lemma mul_int_pass:
  assumes "inf_ok n" "0 \<le> f" "f < 2147483648" "val r = multiplyByDigit f 0 (val n)"
  shows "inf_ok (correct False False r)" "ival (correct False False r) = f * dval BASE (val n)"
proof -
  have ok: "digits_ok BASE (val n)" "(0::int) \<le> 0" "0 < f \<or> (0::int) = 0"
    using inf_okD(1) [OF assms(1)] by simp_all
  obtain hs ts where m: "val r = hs @ ts" "digits_ok BASE hs" "length hs = length (val n)"
      "ts = [] \<or> (\<exists>t > 0. t < 2147483648 \<and> ts = [t])" "dval BASE (val r) = f * dval BASE (val n)"
    using multiplyByDigit_value [OF ok(1) assms(2,3) ok(2,3)]
    unfolding assms(4) [symmetric] add_0_right by blast
  have hs: "\<forall>d \<in> set hs. \<bar>d\<bar> < BASE" "hs \<noteq> []"
    using m(2,3) inf_okD(2) [OF assms(1)] by (auto simp: digits_ok_def)
  have t: "dval BASE (truncateToBase ts) = dval BASE ts \<and> (\<forall>d \<in> set (truncateToBase ts). \<bar>d\<bar> < BASE)"
    using truncateToBase_value [of ts] m(4) by auto
  have split: "truncateToBase (val r) = hs @ truncateToBase ts"
    unfolding m(1) by (rule truncateToBase_append [OF hs(1)])
  have tr: "dval BASE (truncateToBase (val r)) = dval BASE (val r)"
      "\<forall>d \<in> set (truncateToBase (val r)). \<bar>d\<bar> < BASE" "truncateToBase (val r) \<noteq> []"
    unfolding split using t hs m(1) by (auto simp: dval_append)
  show "inf_ok (correct False False r)" by (rule correct_truncated(1) [OF tr])
  show "ival (correct False False r) = f * dval BASE (val n)"
    using correct_truncated(2) [OF tr] m(5) by simp
qed

text \<open>Fixing the sign of a non-negative result.\<close>

lemma set_sign:
  assumes "inf_ok r" "0 \<le> ival r" "x \<noteq> 0 \<Longrightarrow> p \<longleftrightarrow> 0 \<le> x" "\<bar>x\<bar> = ival r"
  shows "inf_ok (r\<lparr>pos := (if val r = [0] then True else p)\<rparr>)"
    "ival (r\<lparr>pos := (if val r = [0] then True else p)\<rparr>) = x"
proof -
  have p: "pos r" using ival_ok_nonneg [OF assms(1)] assms(2) by simp
  have z: "ival r = 0 \<longleftrightarrow> val r = [0]"
    using limbs_ok_zero [OF inf_okD(3) [OF assms(1)]] p by (simp add: ival_def)
  show "inf_ok (r\<lparr>pos := (if val r = [0] then True else p)\<rparr>)"
    using assms(1) by (simp add: inf_ok_def)
  show "ival (r\<lparr>pos := (if val r = [0] then True else p)\<rparr>) = x"
    using assms(3,4) p z by (cases "x = 0") (auto simp: ival_def abs_if split: if_splits)
qed

lemma mult_sign: "a * b \<noteq> 0 \<Longrightarrow> (0 \<le> a) = (0 \<le> b) \<longleftrightarrow> 0 \<le> a * (b::int)"
  by (auto simp: zero_le_mult_iff)

lemma inf_mul_int_exact:
  assumes "inf_ok n" "- 2147483648 < k" "k < 2147483648"
  shows "inf_ok (inf_mul_int n k)" "ival (inf_mul_int n k) = ival n * k"
proof -
  define f where "f = (if k < 0 then s32 (- k) else k)"
  let ?r = "n\<lparr>val := multiplyByDigit f 0 (val n)\<rparr>"
  let ?c = "correct False False ?r"
  have f: "0 \<le> f" "f < 2147483648" "f = \<bar>k\<bar>" using assms(2,3) by (auto simp: s32_id f_def)
  have v: "val ?r = multiplyByDigit f 0 (val n)" by simp
  note pass = mul_int_pass [OF assms(1) f(1,2) v]
  have d: "0 \<le> dval BASE (val n)" by (rule limb.dval_nonneg [OF inf_okD(1) [OF assms(1)]])
  have nn: "0 \<le> ival ?c" unfolding pass(2) by (rule mult_nonneg_nonneg [OF f(1) d])
  have "\<bar>ival n * k\<bar> = \<bar>k\<bar> * dval BASE (val n)" using d by (simp add: ival_def abs_mult)
  then have ab: "\<bar>ival n * k\<bar> = ival ?c" by (simp only: pass(2) f(3) [symmetric])
  have sg: "(pos n = (k \<ge> 0)) \<longleftrightarrow> 0 \<le> ival n * k" if "ival n * k \<noteq> 0"
    using mult_sign [OF that] ival_ok_nonneg [OF assms(1)] by simp
  have eq: "inf_mul_int n k = ?c\<lparr>pos := (if val ?c = [0] then True else pos n = (k \<ge> 0))\<rparr>"
    by (simp only: inf_mul_int_def Let_def f_def)
  show "inf_ok (inf_mul_int n k)"
    unfolding eq by (rule set_sign(1) [OF pass(1) nn _ ab]) (rule sg)
  show "ival (inf_mul_int n k) = ival n * k"
    unfolding eq by (rule set_sign(2) [OF pass(1) nn _ ab]) (rule sg)
qed

lemma inf_mul_int_assign_eq: "inf_mul_int_assign n k = inf_mul_int n k"
  by (simp add: inf_mul_int_assign_def inf_mul_int_def Let_def)

section \<open>The product of two InfInts is exact\<close>

lemma mul_cell_step:
  assumes "0 \<le> x" "x < BASE" "0 \<le> y" "y < BASE" "0 \<le> r" "r < BASE" "0 \<le> c"
    "c + BASE < 9223372036854775808"
  shows "\<exists>c' r'. mul_cell x y (c, r) = (c', r') \<and> 0 \<le> r' \<and> r' < BASE \<and> c \<le> c' \<and> c' \<le> c + BASE \<and>
    r' + BASE * c' = r + BASE * c + x * y"
proof -
  have xy: "0 \<le> x * y" using assms by simp
  have "x * y \<le> (BASE - 1) * (BASE - 1)" using assms by (intro mult_mono) auto
  then have p: "0 \<le> r + x * y" "r + x * y < BASE * BASE" using assms xy by simp_all
  have w: "s64 (r + s64 (x * y)) = r + x * y" using p xy assms(5) by (simp add: s64_id)
  define q where "q = (r + x * y) div BASE"
  define m where "m = (r + x * y) mod BASE"
  have pqm: "r + x * y = m + BASE * q" by (simp add: q_def m_def del: inf_consts)
  have q: "0 \<le> q" "q \<le> BASE"
    using p by (simp_all add: q_def pos_imp_zdiv_nonneg_iff div_le_mono [of _ "1000000000 * 1000000000" 1000000000, simplified])
  have m: "0 \<le> m" "m < BASE" "s32 m = m" by (simp_all only: m_def s32_mod_BASE) simp_all
  have "mul_cell x y (c, r) = (c + q, m)"
  proof (cases "r + x * y \<ge> BASE")
    case True
    have "s64 (c + q) = c + q" using q assms(7,8) by (intro s64_id) auto
    then show ?thesis using True my_lldiv_BASE [of "r + x * y"] p m(3)
      by (simp add: mul_cell_def w Let_def q_def m_def)
  next
    case False
    then have "q = 0" "m = r + x * y" using p(1) by (simp_all add: q_def m_def)
    with False m p(1) show ?thesis by (simp add: mul_cell_def w Let_def)
  qed
  then show ?thesis using q m pqm by (simp add: algebra_simps)
qed

lemma mul_fold:
  assumes "\<forall>i \<in> set ixs. 0 \<le> x i \<and> x i < BASE \<and> 0 \<le> y i \<and> y i < BASE"
    "0 \<le> r" "r < BASE" "0 \<le> c" "c + int (length ixs) * BASE < 9223372036854775808"
  shows "\<exists>c' r'. foldl (\<lambda>st i. mul_cell (x i) (y i) st) (c, r) ixs = (c', r') \<and> 0 \<le> r' \<and> r' < BASE \<and>
    c \<le> c' \<and> c' \<le> c + int (length ixs) * BASE \<and>
    r' + BASE * c' = r + BASE * c + (\<Sum>i\<leftarrow>ixs. x i * y i)"
  using assms
proof (induction ixs arbitrary: c r)
  case Nil
  then show ?case by simp
next
  case (Cons i ixs)
  have "c + BASE < 9223372036854775808" using Cons.prems(5) by simp
  then obtain c1 r1 where s1: "mul_cell (x i) (y i) (c, r) = (c1, r1)" "0 \<le> r1" "r1 < BASE" "c \<le> c1"
      "c1 \<le> c + BASE" "r1 + BASE * c1 = r + BASE * c + x i * y i"
    using mul_cell_step [of "x i" "y i" r c] Cons.prems by (auto simp del: inf_consts)
  have b: "c1 + int (length ixs) * BASE < 9223372036854775808" "0 \<le> c1"
    using Cons.prems(4,5) s1(4,5) by (simp_all add: algebra_simps)
  obtain c2 r2 where s2: "foldl (\<lambda>st i. mul_cell (x i) (y i) st) (c1, r1) ixs = (c2, r2)"
      "0 \<le> r2" "r2 < BASE" "c1 \<le> c2" "c2 \<le> c1 + int (length ixs) * BASE"
      "r2 + BASE * c2 = r1 + BASE * c1 + (\<Sum>i\<leftarrow>ixs. x i * y i)"
    using Cons.IH [OF _ s1(2,3) b(2,1)] Cons.prems(1) by (auto simp del: inf_consts)
  have "c2 \<le> c + int (length (i # ixs)) * BASE" using s1(5) s2(5) by (simp add: algebra_simps)
  then show ?case using s1 s2 by (simp del: inf_consts)
qed

text \<open>The sum of the products of a column, with the limbs padded by zeros.\<close>

definition limb_at :: "infint \<Rightarrow> nat \<Rightarrow> int" where
  "limb_at n i = (if i < length (val n) then val n ! i else 0)"

definition column_sum :: "infint \<Rightarrow> infint \<Rightarrow> nat \<Rightarrow> int" where
  "column_sum n rhs d = (\<Sum>i\<le>d. limb_at n i * limb_at rhs (d - i))"

lemma mul_range_props:
  assumes "val n \<noteq> []" "val rhs \<noteq> []"
  shows "i \<in> set (mul_range n rhs d) \<longleftrightarrow> i < length (val n) \<and> i \<le> d \<and> d - i < length (val rhs)"
    and "mul_range n rhs d = [] \<longleftrightarrow> length (val n) + length (val rhs) - 1 \<le> d"
    and "length (mul_range n rhs d) \<le> length (val n)"
  using assms by (auto simp: mul_range_def length_greater_0_conv [symmetric] simp del: length_greater_0_conv)

lemma column_sum_range:
  assumes "val n \<noteq> []" "val rhs \<noteq> []"
  shows "(\<Sum>i\<leftarrow>mul_range n rhs d. val n ! i * val rhs ! (d - i)) = column_sum n rhs d"
proof -
  have "(\<Sum>i\<leftarrow>mul_range n rhs d. val n ! i * val rhs ! (d - i)) =
      (\<Sum>i\<in>set (mul_range n rhs d). val n ! i * val rhs ! (d - i))"
    by (rule sum_list_distinct_conv_sum_set) (simp add: mul_range_def)
  also have "\<dots> = (\<Sum>i\<in>set (mul_range n rhs d). limb_at n i * limb_at rhs (d - i))"
    using mul_range_props(1) [OF assms, of _ d] by (intro sum.cong refl) (simp add: limb_at_def)
  also have "\<dots> = column_sum n rhs d"
    unfolding column_sum_def
    using mul_range_props(1) [OF assms, of _ d] by (intro sum.mono_neutral_left) (auto simp: limb_at_def)
  finally show ?thesis .
qed

lemma column_sum_total:
  assumes "val n \<noteq> []" "val rhs \<noteq> []"
  shows "(\<Sum>d<length (val n) + length (val rhs) - 1. column_sum n rhs d * BASE ^ d) =
    dval BASE (val n) * dval BASE (val rhs)"
proof -
  let ?N = "length (val n)" and ?M = "length (val rhs)"
  let ?f = "\<lambda>i j. limb_at n i * BASE ^ i * (limb_at rhs j * BASE ^ j)"
  have "column_sum n rhs d * BASE ^ d = (\<Sum>i\<le>d. ?f i (d - i))" for d
    unfolding column_sum_def sum_distrib_right
  proof (intro sum.cong refl)
    fix i assume "i \<in> {..d}"
    then have "BASE ^ d = BASE ^ i * BASE ^ (d - i)" by (simp add: power_add [symmetric] del: inf_consts)
    then show "limb_at n i * limb_at rhs (d - i) * BASE ^ d = ?f i (d - i)"
      by (simp only: ac_simps)
  qed
  then have "(\<Sum>d<?N + ?M - 1. column_sum n rhs d * BASE ^ d) =
      (\<Sum>(i, j)\<in>{(i, j). i + j < ?N + ?M - 1}. ?f i j)"
    by (simp only: sum.triangle_reindex)
  also have "\<dots> = (\<Sum>(i, j)\<in>{..<?N} \<times> {..<?M}. ?f i j)"
  proof (rule sum.mono_neutral_right)
    have "{(i, j). i + j < ?N + ?M - 1} \<subseteq> {..<?N + ?M} \<times> {..<?N + ?M}" by auto
    then show "finite {(i, j). i + j < ?N + ?M - 1}" by (rule finite_subset) simp
    show "{..<?N} \<times> {..<?M} \<subseteq> {(i, j). i + j < ?N + ?M - 1}" by auto
    show "\<forall>x\<in>{(i, j). i + j < ?N + ?M - 1} - {..<?N} \<times> {..<?M}. (case x of (i, j) \<Rightarrow> ?f i j) = 0"
      by (auto simp: limb_at_def split: if_splits)
  qed
  also have "\<dots> = (\<Sum>i<?N. limb_at n i * BASE ^ i) * (\<Sum>j<?M. limb_at rhs j * BASE ^ j)"
    by (simp only: sum_product sum.cartesian_product)
  also have "\<dots> = dval BASE (val n) * dval BASE (val rhs)"
    by (simp add: limb_at_def dval_sum)
  finally show ?thesis .
qed

lemma mul_column_step:
  assumes "inf_ok n" "inf_ok rhs" "length (val n) < 2147483648" "0 \<le> c"
    "c \<le> 2 * BASE * int (length (val n))"
  shows "\<exists>c' r. mul_column n rhs d c = (c', r) \<and> 0 \<le> r \<and> r < BASE \<and> 0 \<le> c' \<and>
    c' \<le> 2 * BASE * int (length (val n)) \<and> r + BASE * c' = c + column_sum n rhs d"
proof -
  note ne = inf_okD(2) [OF assms(1)] inf_okD(2) [OF assms(2)]
  note dig = digits_ok_nth [OF inf_okD(1) [OF assms(1)]] digits_ok_nth [OF inf_okD(1) [OF assms(2)]]
  let ?L = "mul_range n rhs d" and ?N = "int (length (val n))"
  have N: "0 < ?N" "?N < 2147483648" "int (length ?L) \<le> ?N"
    using ne(1) assms(3) mul_range_props(3) [OF ne, of d] by simp_all
  have c: "c < 9223372036854775808" using assms(5) N by simp
  have cd: "0 \<le> c div BASE" "c div BASE \<le> 2 * ?N" "0 \<le> c mod BASE" "c mod BASE < BASE"
    using assms(4,5) by (simp_all add: pos_imp_zdiv_nonneg_iff)
  have LB: "int (length ?L) * BASE \<le> ?N * BASE" using N(3) by (intro mult_right_mono) simp_all
  then have bound: "c div BASE + int (length ?L) * BASE < 9223372036854775808"
    using cd(2) N(2) by simp
  have col: "mul_column n rhs d c =
      foldl (\<lambda>st i. mul_cell (val n ! i) (val rhs ! (d - i)) st) (c div BASE, c mod BASE) ?L"
    using my_lldiv_BASE [OF assms(4) c] by (simp only: mul_column_def Let_def s32_mod_BASE)
  obtain c' r where f: "mul_column n rhs d c = (c', r)" "0 \<le> r" "r < BASE" "c div BASE \<le> c'"
      "c' \<le> c div BASE + int (length ?L) * BASE"
      "r + BASE * c' = c mod BASE + BASE * (c div BASE) + (\<Sum>i\<leftarrow>?L. val n ! i * val rhs ! (d - i))"
    using mul_fold [where x = "\<lambda>i. val n ! i" and y = "\<lambda>i. val rhs ! (d - i)" and ixs = ?L,
        OF _ cd(3,4,1) bound] dig mul_range_props(1) [OF ne, of _ d]
    unfolding col by blast
  have "c' \<le> 2 * BASE * ?N" using f(5) LB cd(2) N(1) by simp
  moreover have "r + BASE * c' = c + column_sum n rhs d"
    using f(6) column_sum_range [OF ne, of d] by (simp del: inf_consts)
  ultimately show ?thesis using f(1-4) cd(1) by (intro exI [of _ c'] exI [of _ r]) auto
qed

lemma mul_loop_value:
  assumes "inf_ok n" "inf_ok rhs" "length (val n) < 2147483648"
    "length acc = length (val n) + length (val rhs)" "d < length acc"
    "0 \<le> c" "c \<le> 2 * BASE * int (length (val n))" "digits_ok BASE (take d acc)"
    "dval BASE (take d acc) + BASE ^ d * c = (\<Sum>k<d. column_sum n rhs k * BASE ^ k)"
  shows "\<exists>acc'. mul_loop n rhs d c acc = (length acc - 1, 0, acc') \<and> length acc' = length acc \<and>
    digits_ok BASE acc' \<and> dval BASE acc' = dval BASE (val n) * dval BASE (val rhs)"
  using assms
proof (induction n rhs d c acc rule: mul_loop.induct)
  case (1 n rhs d c acc)
  note ne = inf_okD(2) [OF 1(2)] inf_okD(2) [OF 1(3)]
  let ?T = "length (val n) + length (val rhs) - 1"
  obtain c' r where st: "mul_column n rhs d c = (c', r)" "0 \<le> r" "r < BASE" "0 \<le> c'"
      "c' \<le> 2 * BASE * int (length (val n))" "r + BASE * c' = c + column_sum n rhs d"
    using mul_column_step [OF 1(2-4,7,8)] by blast
  have tk: "take (Suc d) (acc[d := r]) = take d acc @ [r]"
    using 1(6) by (simp add: take_Suc_conv_app_nth)
  have ok: "digits_ok BASE (take (Suc d) (acc[d := r]))" using 1(9) st(2,3) by (simp add: tk)
  have "dval BASE (take (Suc d) (acc[d := r])) + BASE ^ Suc d * c' =
      dval BASE (take d acc) + BASE ^ d * (r + BASE * c')"
    using 1(6) by (simp add: tk dval_append algebra_simps)
  also have "\<dots> = (\<Sum>k<d. column_sum n rhs k * BASE ^ k) + BASE ^ d * column_sum n rhs d"
    using 1(10) st(6) by (simp add: algebra_simps)
  finally have val: "dval BASE (take (Suc d) (acc[d := r])) + BASE ^ Suc d * c' =
      (\<Sum>k<Suc d. column_sum n rhs k * BASE ^ k)"
    by (simp add: mult.commute)
  show ?case
  proof (cases "mul_range n rhs d = []")
    case False
    then have d: "d < ?T" using mul_range_props(2) [OF ne, of d] by simp
    have "mul_loop n rhs d c acc = mul_loop n rhs (Suc d) c' (acc[d := r])"
      using False by (subst mul_loop.simps) (simp add: st(1) Let_def)
    then show ?thesis
      using 1(1) [OF refl refl _ 1(2-4)] False st(1,4,5) ok val 1(5) d by simp
  next
    case True
    then have d: "d = ?T" using mul_range_props(2) [OF ne, of d] 1(5,6) by simp
    have col0: "column_sum n rhs d = 0"
      using column_sum_range [OF ne, of d] True by simp
    have full: "take (Suc d) (acc[d := r]) = acc[d := r]" using d 1(5,6) by simp
    have total: "dval BASE (acc[d := r]) + BASE ^ Suc d * c' = dval BASE (val n) * dval BASE (val rhs)"
      using val col0 column_sum_total [OF ne] d unfolding full by simp
    have "0 \<le> dval BASE (acc[d := r])" using ok unfolding full by (rule limb.dval_nonneg)
    moreover have "dval BASE (val n) * dval BASE (val rhs) < BASE ^ Suc d"
    proof -
      have "dval BASE (val n) * dval BASE (val rhs) < BASE ^ length (val n) * BASE ^ length (val rhs)"
        using limb.dval_less limb.dval_nonneg inf_okD(1) [OF 1(2)] inf_okD(1) [OF 1(3)]
        by (intro mult_strict_mono) auto
      moreover have "Suc d = length (val n) + length (val rhs)" using d ne(1) by simp
      ultimately show ?thesis by (simp only: power_add)
    qed
    ultimately have "BASE ^ Suc d * c' < BASE ^ Suc d * 1" using total by linarith
    then have c0: "c' = 0" using st(4) by (simp add: mult_less_cancel_left)
    have "mul_loop n rhs d c acc = (d, 0, acc[d := r])"
      using True by (subst mul_loop.simps) (simp add: st(1) c0 Let_def)
    then show ?thesis using ok total c0 d 1(5) unfolding full by simp
  qed
qed

lemma inf_mul_exact:
  assumes "inf_ok a" "inf_ok b" "length (val a) < 2147483648"
  shows "inf_ok (inf_mul a b)" "ival (inf_mul a b) = ival a * ival b"
proof -
  let ?z = "resize [0] (length (val a) + length (val b))"
  have ne: "val a \<noteq> []" using inf_okD(2) [OF assms(1)] .
  have K: "0 \<le> 2 * BASE * int (length (val a))" by simp
  obtain acc where m: "mul_loop a b 0 0 ?z = (length ?z - 1, 0, acc)" "length acc = length ?z"
      "digits_ok BASE acc" "dval BASE acc = dval BASE (val a) * dval BASE (val b)"
    using mul_loop_value [OF assms, of ?z 0 0] ne K by (auto simp: length_resize simp del: inf_consts)
  have t: "mul_tail d 0 acc = acc" for d by (subst mul_tail.simps) simp
  define r where "r = correct False False \<lparr>pos = True, val = acc\<rparr>"
  have eq: "inf_mul a b = r\<lparr>pos := (if val r = [0] then True else pos a = pos b)\<rparr>"
    by (simp add: inf_mul_def m(1) t r_def Let_def)
  have bd: "\<forall>d \<in> set acc. \<bar>d\<bar> < BASE" "acc \<noteq> []"
    using m(2,3) ne by (auto simp: digits_ok_def length_resize)
  have r: "inf_ok r" "ival r = dval BASE (val a) * dval BASE (val b)"
    using correct_truncated [of "\<lparr>pos = True, val = acc\<rparr>"] truncateToBase_id [OF bd(1)] bd m(4)
    by (simp_all add: r_def del: inf_consts)
  have nn: "0 \<le> dval BASE (val a)" "0 \<le> dval BASE (val b)"
    using limb.dval_nonneg inf_okD(1) assms(1,2) by auto
  have r0: "0 \<le> ival r" unfolding r(2) using nn by simp
  have ab: "\<bar>ival a * ival b\<bar> = ival r" unfolding r(2) using nn by (simp add: ival_def abs_mult)
  have sg: "(pos a = pos b) \<longleftrightarrow> 0 \<le> ival a * ival b" if "ival a * ival b \<noteq> 0"
    using mult_sign [OF that] ival_ok_nonneg assms(1,2) by simp
  show "inf_ok (inf_mul a b)"
    unfolding eq by (rule set_sign(1) [OF r(1) r0 _ ab]) (rule sg)
  show "ival (inf_mul a b) = ival a * ival b"
    unfolding eq by (rule set_sign(2) [OF r(1) r0 _ ab]) (rule sg)
qed

end
