(* ===== verification/InfInt_Div.thy ===== *)
theory InfInt_Div
  imports InfInt_Mul
begin

text \<open>
  InfInt's division and remainder (\<^verbatim>\<open>src/cross/include/InfInt.h\<close>): schoolbook long
  division from the most significant limb, each quotient limb found by \<open>dInR\<close>, a binary
  search over \<open>[0, UPPER_BOUND]\<close>.  The search is a \<open>partial_function\<close>: that it always
  returns, and returns the quotient limb, is \<open>dInR_value\<close>.  The quotient truncates towards
  zero and the remainder has the sign of the dividend, as C's \<open>/\<close> and \<open>%\<close> on ints.

  The code is built without \<open>INFINT_USE_EXCEPTIONS\<close>: a zero divisor prints a message to
  \<open>cerr\<close> (not modelled) and gives 0, or leaves the object unchanged for \<open>/=\<close>.
\<close>

section \<open>The quotient limb\<close>

partial_function (option) dInR_loop :: "infint \<Rightarrow> infint \<Rightarrow> int \<Rightarrow> int \<Rightarrow> int option" where
  "dInR_loop R D mn mx =
     (if mx > mn
      then (let dt = my_div (s32 (mx + mn)) 2;
                avg = (if snd dt \<noteq> 0 then s32 (fst dt + 1) else fst dt);
                prod = inf_mul_int D avg
            in if inf_eq R prod then Some avg
               else if inf_gt R prod then dInR_loop R D avg mx
               else dInR_loop R D mn (s32 (avg - 1)))
      else Some mn)"

definition dInR :: "infint \<Rightarrow> infint \<Rightarrow> int option" where
  "dInR R D = dInR_loop R D 0 UPPER_BOUND"

section \<open>Long division\<close>

text \<open>
  The loop over the limbs of the dividend, which are given most significant first; the
  index \<open>i\<close> of the code is the number of limbs left.
\<close>

fun div_loop :: "infint \<Rightarrow> int list \<Rightarrow> infint \<Rightarrow> int list \<Rightarrow> (infint \<times> int list) option" where
  "div_loop D [] R q = Some (R, q)"
| "div_loop D (n # ns) R q =
     (let R1 = correct True False (R\<lparr>val := n # val R\<rparr>)
      in case dInR R1 D of
           None \<Rightarrow> None
         | Some cnt \<Rightarrow>
             div_loop D ns (inf_sub_assign R1 (inf_mul_int D cnt))
               (q[length ns := s32 (q ! length ns + cnt)]))"

definition inf_abs :: "infint \<Rightarrow> infint" where
  "inf_abs n = (if pos n then n else inf_neg n)"

definition inf_div :: "infint \<Rightarrow> infint \<Rightarrow> infint option" where
  "inf_div n rhs =
     (if inf_eq rhs (InfInt_int 0) then Some (InfInt_int 0)
      else (let D = inf_abs rhs; N = inf_abs n
            in case div_loop D (rev (val N)) InfInt_default (resize (val InfInt_default) (length (val N))) of
                 None \<Rightarrow> None
               | Some (R, q) \<Rightarrow>
                   (let Q = correct False False \<lparr>pos = True, val = q\<rparr>
                    in Some (Q\<lparr>pos := (if val Q = [0] then True else pos n = pos rhs)\<rparr>))))"

text \<open>
  \<open>n /= rhs\<close>.  When \<open>rhs\<close> is the object itself, the last line reads its sign after
  \<open>correct\<close> has changed it: \<open>alias\<close> says whether the two are one object.
\<close>

definition inf_div_assign :: "bool \<Rightarrow> infint \<Rightarrow> infint \<Rightarrow> infint option" where
  "inf_div_assign alias n rhs =
     (if inf_eq rhs (InfInt_int 0) then Some n
      else (let D = inf_abs rhs; N = inf_abs n; oldpos = pos n
            in case div_loop D (rev (val N)) InfInt_default (replicate (length (val n)) 0) of
                 None \<Rightarrow> None
               | Some (R, q) \<Rightarrow>
                   (let Q = correct False False (n\<lparr>val := q\<rparr>);
                        rhs_pos = (if alias then pos Q else pos rhs)
                    in Some (Q\<lparr>pos := (if val Q = [0] then True else oldpos = rhs_pos)\<rparr>))))"

text \<open>
  The remainder loop keeps no quotient.
\<close>

fun mod_loop :: "infint \<Rightarrow> int list \<Rightarrow> infint \<Rightarrow> infint option" where
  "mod_loop D [] R = Some R"
| "mod_loop D (n # ns) R =
     (let R1 = correct True False (R\<lparr>val := n # val R\<rparr>)
      in case dInR R1 D of
           None \<Rightarrow> None
         | Some cnt \<Rightarrow> mod_loop D ns (inf_sub_assign R1 (inf_mul_int D cnt)))"

definition inf_mod :: "infint \<Rightarrow> infint \<Rightarrow> infint option" where
  "inf_mod n rhs =
     (if inf_eq rhs (InfInt_int 0) then Some (InfInt_int 0)
      else (case mod_loop (inf_abs rhs) (rev (val (inf_abs n))) InfInt_default of
              None \<Rightarrow> None
            | Some R \<Rightarrow>
                (let R' = correct False False R
                 in Some (R'\<lparr>pos := (if val R' = [0] then True else pos n)\<rparr>))))"

definition inf_mod_assign :: "infint \<Rightarrow> infint \<Rightarrow> infint option" where
  "inf_mod_assign n rhs = map_option (assign_inf n) (inf_mod n rhs)"

section \<open>The search finds the quotient limb\<close>

lemma dInR_avg:
  assumes "0 \<le> mn" "mn < mx" "mx \<le> UPPER_BOUND"
    "avg = (let dt = my_div (s32 (mx + mn)) 2 in if snd dt \<noteq> 0 then s32 (fst dt + 1) else fst dt)"
  shows "mn < avg" "avg \<le> mx"
proof -
  let ?s = "mx + mn"
  have s: "s32 ?s = ?s" "0 \<le> ?s" "?s < 2147483648" using assms(1-3) by (simp_all add: s32_id)
  have d: "?s sdiv 2 = ?s div 2" using s(2) by (simp add: sdiv_nonneg)
  have q: "0 \<le> ?s div 2" "?s div 2 < 1073741824" using s by simp_all
  then have dt: "my_div ?s 2 = (?s div 2, ?s mod 2)"
    by (simp add: my_div_def Let_def d s32_id minus_mult_div_eq_mod)
  have "avg = (if ?s mod 2 \<noteq> 0 then ?s div 2 + 1 else ?s div 2)"
    using assms(4) q by (simp add: s(1) dt s32_id)
  then show "mn < avg" "avg \<le> mx" using assms(2) by presburger+
qed

lemma dInR_loop_value:
  assumes "inf_ok R" "inf_ok D" "0 < ival D" "0 \<le> mn" "mn \<le> mx" "mx \<le> UPPER_BOUND"
    "ival D * mn \<le> ival R" "ival R < ival D * (mx + 1)"
  shows "dInR_loop R D mn mx = Some (ival R div ival D)"
  using assms(4-)
proof (induction "nat (mx - mn)" arbitrary: mn mx rule: less_induct)
  case less
  have quot: "ival R div ival D = c" if "ival D * c \<le> ival R" "ival R < ival D * (c + 1)" for c
    using that assms(3) by (intro int_div_pos_eq [of _ _ _ "ival R - ival D * c"]) (simp_all add: algebra_simps)
  show ?case
  proof (cases "mx > mn")
    case False
    then have "mx = mn" using less.prems(2) by simp
    then show ?thesis using less.prems quot [of mn] by (subst dInR_loop.simps) simp
  next
    case True
    define avg where "avg = (let dt = my_div (s32 (mx + mn)) 2 in
        if snd dt \<noteq> 0 then s32 (fst dt + 1) else fst dt)"
    have avg: "mn < avg" "avg \<le> mx"
      using dInR_avg [OF less.prems(1) True less.prems(3) avg_def] by simp_all
    have rng: "- 2147483648 < avg" "avg < 2147483648" "s32 (avg - 1) = avg - 1"
      using avg less.prems(1,3) by (simp_all add: s32_id)
    note prod = inf_mul_int_exact [OF assms(2) rng(1,2)]
    have unf: "dInR_loop R D mn mx =
        (if ival R = ival D * avg then Some avg
         else if ival R > ival D * avg then dInR_loop R D avg mx else dInR_loop R D mn (avg - 1))"
      using True prod inf_cmp_cases [OF assms(1) prod(1)] rng(3)
      by (subst dInR_loop.simps) (simp add: Let_def avg_def [unfolded Let_def, symmetric])
    consider "ival R = ival D * avg" | "ival R > ival D * avg" | "ival R < ival D * avg" by linarith
    then show ?thesis
    proof cases
      case 1
      then show ?thesis using unf assms(3) by simp
    next
      case 2
      then show ?thesis using unf less.hyps [of mx avg] avg less.prems by simp
    next
      case 3
      then show ?thesis using unf less.hyps [of "avg - 1" mn] avg less.prems by simp
    qed
  qed
qed

lemma dInR_value:
  assumes "inf_ok R" "inf_ok D" "0 < ival D" "0 \<le> ival R" "ival R < ival D * BASE"
  shows "dInR R D = Some (ival R div ival D)"
  unfolding dInR_def by (rule dInR_loop_value [OF assms(1-3)]) (use assms(4,5) in simp_all)

section \<open>Long division is exact\<close>

lemma insert_limb:
  assumes "inf_ok R" "0 \<le> ival R" "0 \<le> d" "d < BASE"
  shows "inf_ok (correct True False (R\<lparr>val := d # val R\<rparr>))"
    "ival (correct True False (R\<lparr>val := d # val R\<rparr>)) = d + BASE * ival R"
proof -
  have p: "pos R" using ival_ok_nonneg [OF assms(1)] assms(2) by simp
  have "digits_ok BASE (d # val R)" "d # val R \<noteq> []"
    using inf_okD(1) [OF assms(1)] assms(3,4) by simp_all
  note r = removeLeadingZeros_value [OF this]
  show "inf_ok (correct True False (R\<lparr>val := d # val R\<rparr>))"
    "ival (correct True False (R\<lparr>val := d # val R\<rparr>)) = d + BASE * ival R"
    using r p by (simp_all add: correct_def inf_ok_def ival_def)
qed

lemma reduce_remainder:
  assumes "inf_ok R1" "inf_ok D" "0 < ival D" "0 \<le> ival R1" "ival R1 < ival D * BASE"
  shows "\<exists>c. dInR R1 D = Some c \<and> 0 \<le> c \<and> c < BASE \<and> c = ival R1 div ival D \<and>
    inf_ok (inf_sub_assign R1 (inf_mul_int D c)) \<and>
    ival (inf_sub_assign R1 (inf_mul_int D c)) = ival R1 mod ival D"
proof -
  let ?c = "ival R1 div ival D"
  have c: "0 \<le> ?c" "?c < BASE"
    using assms(3,4) div_less_bound [OF assms(3,5)] by (simp_all add: pos_imp_zdiv_nonneg_iff)
  have "- 2147483648 < ?c" "?c < 2147483648" using c by simp_all
  note m = inf_mul_int_exact [OF assms(2) this]
  show ?thesis
    using dInR_value [OF assms] c inf_sub_exact [OF assms(1) m(1)] m(2)
    by (simp add: inf_sub_assign_eq minus_mult_div_eq_mod)
qed

lemma div_loop_value:
  assumes "inf_ok D" "0 < ival D" "inf_ok R" "0 \<le> ival R" "ival R < ival D" "digits_ok BASE ns"
    "length ns \<le> length q" "take (length ns) q = replicate (length ns) 0"
  shows "\<exists>R' q'. div_loop D ns R q = Some (R', q') \<and> inf_ok R' \<and> 0 \<le> ival R' \<and> ival R' < ival D \<and>
    length q' = length q \<and> drop (length ns) q' = drop (length ns) q \<and>
    digits_ok BASE (take (length ns) q') \<and>
    ival D * dval BASE (take (length ns) q') + ival R' = BASE ^ length ns * ival R + dval BASE (rev ns)"
  using assms(3-)
proof (induction ns arbitrary: R q)
  case Nil
  then show ?case by simp
next
  case (Cons n ns)
  have n: "0 \<le> n" "n < BASE" "digits_ok BASE ns" using Cons.prems(4) by simp_all
  define R1 where "R1 = correct True False (R\<lparr>val := n # val R\<rparr>)"
  have R1: "inf_ok R1" "ival R1 = n + BASE * ival R"
    using insert_limb [OF Cons.prems(1,2) n(1,2)] by (simp_all add: R1_def)
  have "BASE * (ival R + 1) \<le> BASE * ival D" using Cons.prems(3) by (intro mult_left_mono) auto
  then have R1b: "0 \<le> ival R1" "ival R1 < ival D * BASE" using R1(2) n Cons.prems(2) by simp_all
  obtain c where c: "dInR R1 D = Some c" "0 \<le> c" "c < BASE" "c = ival R1 div ival D"
      and R2: "inf_ok (inf_sub_assign R1 (inf_mul_int D c))"
        "ival (inf_sub_assign R1 (inf_mul_int D c)) = ival R1 mod ival D"
    using reduce_remainder [OF R1(1) assms(1,2) R1b] by blast
  define R2 where "R2 = inf_sub_assign R1 (inf_mul_int D c)"
  let ?l = "length ns" and ?q = "q[length ns := c]"
  have lq: "?l < length q" using Cons.prems(5) by simp
  have tz: "take (Suc ?l) q = replicate ?l 0 @ [0]"
    using Cons.prems(6) by (simp add: replicate_append_same)
  then have qz: "take ?l q = replicate ?l 0" "q ! ?l = 0"
    using lq by (simp_all add: take_Suc_conv_app_nth)
  have unf: "div_loop D (n # ns) R q = div_loop D ns R2 ?q"
    using c(1-3) by (simp add: R1_def [symmetric] R2_def qz(2) s32_id)
  have r2: "inf_ok R2" "0 \<le> ival R2" "ival R2 < ival D" "length ns \<le> length ?q"
      "take (length ns) ?q = replicate (length ns) 0"
    using R2 assms(2) lq qz by (simp_all add: R2_def)
  obtain R' q' where ih: "div_loop D ns R2 ?q = Some (R', q')" "inf_ok R'" "0 \<le> ival R'" "ival R' < ival D"
      "length q' = length ?q" "drop ?l q' = drop ?l ?q" "digits_ok BASE (take ?l q')"
      "ival D * dval BASE (take ?l q') + ival R' = BASE ^ ?l * ival R2 + dval BASE (rev ns)"
    using Cons.IH [OF r2(1-3) n(3) r2(4,5)] by blast
  have dr: "drop ?l q' = c # drop (Suc ?l) q"
    using ih(6) lq by (simp add: Cons_nth_drop_Suc [symmetric])
  then have d2: "drop (Suc ?l) q' = drop (Suc ?l) q" "q' ! ?l = c"
    using ih(5) lq by (simp_all add: Cons_nth_drop_Suc [symmetric])
  have tk: "take (Suc ?l) q' = take ?l q' @ [c]"
    using ih(5) lq d2(2) by (simp add: take_Suc_conv_app_nth)
  have lt: "length (take ?l q') = ?l" using ih(5) lq by simp
  have r1: "ival R1 = ival D * c + ival R2"
    using R2 c(4) by (simp add: R2_def)
  have "ival D * dval BASE (take (Suc ?l) q') + ival R' =
      BASE ^ ?l * (ival D * c + ival R2) + dval BASE (rev ns)"
    using ih(8) lt by (simp add: tk dval_append algebra_simps del: inf_consts)
  also have "\<dots> = BASE ^ length (n # ns) * ival R + dval BASE (rev (n # ns))"
    unfolding r1 [symmetric] R1(2) by (simp add: dval_append algebra_simps del: inf_consts)
  finally show ?case
    using ih(1-5,7) c(2,3) d2(1) unfolding unf by (simp add: tk del: inf_consts)
qed

lemma mod_loop_div_loop: "mod_loop D ns R = map_option fst (div_loop D ns R q)"
  by (induction ns arbitrary: R q) (auto simp: Let_def split: option.splits)

lemma inf_abs_exact: "inf_ok n \<Longrightarrow> inf_ok (inf_abs n)" "ival (inf_abs n) = \<bar>ival n\<bar>" if "inf_ok n"
proof -
  have s: "pos n \<longleftrightarrow> 0 \<le> ival n" by (rule ival_ok_nonneg [OF that])
  show "inf_ok n \<Longrightarrow> inf_ok (inf_abs n)"
    using s inf_neg_exact(2) [OF that] that by (auto simp: inf_abs_def)
  show "ival (inf_abs n) = \<bar>ival n\<bar>"
    using s by (auto simp: inf_abs_def inf_neg_exact(1))
qed

lemma long_division:
  assumes "inf_ok n" "inf_ok d" "ival d \<noteq> 0" "q0 = replicate (length (val n)) 0"
  shows "\<exists>R q. div_loop (inf_abs d) (rev (val (inf_abs n))) InfInt_default q0 = Some (R, q) \<and>
    inf_ok R \<and> ival R = \<bar>ival n\<bar> mod \<bar>ival d\<bar> \<and> digits_ok BASE q \<and> q \<noteq> [] \<and>
    dval BASE q = \<bar>ival n\<bar> div \<bar>ival d\<bar>"
proof -
  note D = inf_abs_exact [OF assms(2)] and N = inf_abs_exact [OF assms(1)]
  let ?ns = "rev (val (inf_abs n))"
  have Dp: "0 < ival (inf_abs d)" using D(2) assms(3) by simp
  have v: "val (inf_abs n) = val n" by (simp add: inf_abs_def inf_neg_def)
  have Nv: "\<bar>ival n\<bar> = dval BASE (val n)"
    using limb.dval_nonneg [OF inf_okD(1) [OF assms(1)]] by (simp add: ival_def)
  have pre: "0 \<le> ival InfInt_default" "ival InfInt_default < ival (inf_abs d)" "digits_ok BASE ?ns"
      "length ?ns \<le> length q0" "take (length ?ns) q0 = replicate (length ?ns) 0"
    using InfInt_default_exact Dp inf_okD(1) [OF assms(1)]
    by (simp_all add: v assms(4) digits_ok_def)
  obtain R q where L: "div_loop (inf_abs d) ?ns InfInt_default q0 = Some (R, q)" "inf_ok R" "0 \<le> ival R"
      "ival R < \<bar>ival d\<bar>" "length q = length (val n)" "digits_ok BASE q"
      "\<bar>ival d\<bar> * dval BASE q + ival R = \<bar>ival n\<bar>"
    using div_loop_value [OF D(1) [OF assms(2)] Dp InfInt_default_exact(1) pre]
    by (auto simp: D(2) v Nv InfInt_default_exact(2) assms(4) simp del: inf_consts)
  have "dval BASE q = \<bar>ival n\<bar> div \<bar>ival d\<bar>" "ival R = \<bar>ival n\<bar> mod \<bar>ival d\<bar>"
    using L(3,4) unfolding L(7) [symmetric] by simp_all
  moreover have "q \<noteq> []" using L(5) inf_okD(2) [OF assms(1)] by auto
  ultimately show ?thesis using L(1,2,6) by blast
qed

lemma correct_limbs:
  assumes "digits_ok BASE (val r)" "val r \<noteq> []"
  shows "inf_ok (correct False False r)" "ival (correct False False r) = dval BASE (val r)"
proof -
  have bd: "\<forall>d \<in> set (val r). \<bar>d\<bar> < BASE" using assms(1) by (auto simp: digits_ok_def)
  show "inf_ok (correct False False r)" "ival (correct False False r) = dval BASE (val r)"
    using correct_truncated [of r] truncateToBase_id [OF bd] bd assms(2) by simp_all
qed

lemma signed_result:
  assumes "inf_ok r" "0 \<le> ival r" "x = (if p then 1 else - 1) * ival r"
  shows "inf_ok (r\<lparr>pos := (if val r = [0] then True else p)\<rparr>)"
    "ival (r\<lparr>pos := (if val r = [0] then True else p)\<rparr>) = x"
  using set_sign [OF assms(1,2), of x p] assms(2,3) by (auto split: if_splits)

lemma eq_zero: "inf_ok d \<Longrightarrow> inf_eq d (InfInt_int 0) \<longleftrightarrow> ival d = 0"
  using inf_cmp_cases(5) [of d "InfInt_int 0"] InfInt_int_exact [of 0] by simp

lemma inf_div_exact:
  assumes "inf_ok n" "inf_ok d" "ival d \<noteq> 0"
  shows "\<exists>q. inf_div n d = Some q \<and> inf_ok q \<and> ival q = ival n sdiv ival d"
    "inf_div_assign False n d = inf_div n d"
    "\<exists>q. inf_div_assign True d d = Some q \<and> inf_ok q \<and> ival q = (if 0 < ival d then 1 else - 1)"
proof -
  have z: "\<not> inf_eq d (InfInt_int 0)" using assms(2,3) eq_zero by simp
  have v: "val (inf_abs n) = val n" for n by (simp add: inf_abs_def inf_neg_def)
  have rz: "resize (val InfInt_default) (length (val n)) = replicate (length (val n)) 0"
    using inf_okD(2) [OF assms(1)]
    by (cases "length (val n)") (simp_all add: resize_def InfInt_default_def)
  obtain R q where L: "div_loop (inf_abs d) (rev (val (inf_abs n))) InfInt_default
        (replicate (length (val n)) 0) = Some (R, q)" "digits_ok BASE q" "q \<noteq> []"
      "dval BASE q = \<bar>ival n\<bar> div \<bar>ival d\<bar>"
    using long_division [OF assms refl] by blast
  define Q where "Q = correct False False \<lparr>pos = True, val = q\<rparr>"
  have Q: "inf_ok Q" "ival Q = \<bar>ival n\<bar> div \<bar>ival d\<bar>"
    using correct_limbs [of "\<lparr>pos = True, val = q\<rparr>"] L(2-4) by (simp_all add: Q_def)
  have Q0: "0 \<le> ival Q" unfolding Q(2) using assms(3) by (simp add: pos_imp_zdiv_nonneg_iff)
  have eq: "inf_div n d = Some (Q\<lparr>pos := (if val Q = [0] then True else pos n = pos d)\<rparr>)"
    using z L(1) by (simp add: inf_div_def v rz Q_def Let_def)
  have "ival n sdiv ival d = (if pos n = pos d then 1 else - 1) * ival Q"
    unfolding Q(2) using trunc_div(1) [OF assms(3), of "ival n"] ival_ok_nonneg assms(1,2) by simp
  from signed_result [OF Q(1) Q0 this] show "\<exists>q. inf_div n d = Some q \<and> inf_ok q \<and>
      ival q = ival n sdiv ival d"
    using eq by blast
  have cq: "correct False False (n\<lparr>val := q\<rparr>) = Q"
    unfolding Q_def by (rule correct_fresh_cong) simp
  show "inf_div_assign False n d = inf_div n d"
    unfolding eq using z L(1) by (simp add: inf_div_assign_def v cq Let_def)
next
  have z: "\<not> inf_eq d (InfInt_int 0)" using assms(2,3) eq_zero by simp
  have v: "val (inf_abs n) = val n" for n by (simp add: inf_abs_def inf_neg_def)
  obtain R q where L: "div_loop (inf_abs d) (rev (val (inf_abs d))) InfInt_default
        (replicate (length (val d)) 0) = Some (R, q)" "digits_ok BASE q" "q \<noteq> []"
      "dval BASE q = \<bar>ival d\<bar> div \<bar>ival d\<bar>"
    using long_division [OF assms(2,2,3) refl] by blast
  define Q where "Q = correct False False (d\<lparr>val := q\<rparr>)"
  have Q: "inf_ok Q" "ival Q = 1"
    using correct_limbs [of "d\<lparr>val := q\<rparr>"] L(2-4) assms(3) by (simp_all add: Q_def)
  have "pos Q" using ival_ok_nonneg [OF Q(1)] Q(2) by simp
  moreover have "val Q \<noteq> [0]" using limbs_ok_zero [OF inf_okD(3) [OF Q(1)]] Q(2)
    by (cases "pos Q") (simp_all add: ival_def)
  ultimately have pq: "pos Q" "val Q \<noteq> [0]" by simp_all
  have eq: "inf_div_assign True d d = Some (Q\<lparr>pos := (if val Q = [0] then True else pos d)\<rparr>)"
    using z L(1) pq by (simp add: inf_div_assign_def v Q_def [symmetric] Let_def)
  have "0 \<le> ival Q" "(if 0 < ival d then 1 else - 1) = (if pos d then 1 else - 1) * ival Q"
    using Q(2) ival_ok_nonneg [OF assms(2)] assms(3) by auto
  from signed_result [OF Q(1) this] show "\<exists>q. inf_div_assign True d d = Some q \<and> inf_ok q \<and>
      ival q = (if 0 < ival d then 1 else - 1)"
    using eq by blast
qed

lemma inf_mod_exact:
  assumes "inf_ok n" "inf_ok d" "ival d \<noteq> 0"
  shows "\<exists>r. inf_mod n d = Some r \<and> inf_ok r \<and> ival r = ival n smod ival d"
proof -
  have z: "\<not> inf_eq d (InfInt_int 0)" using assms(2,3) eq_zero by simp
  obtain R q where L: "div_loop (inf_abs d) (rev (val (inf_abs n))) InfInt_default
        (replicate (length (val n)) 0) = Some (R, q)" "inf_ok R" "ival R = \<bar>ival n\<bar> mod \<bar>ival d\<bar>"
    using long_division [OF assms refl] by blast
  have m: "mod_loop (inf_abs d) (rev (val (inf_abs n))) InfInt_default = Some R"
    using L(1) mod_loop_div_loop by (metis fst_conv option.simps(9))
  define R' where "R' = correct False False R"
  have "0 \<le> ival R" unfolding L(3) using assms(3) by simp
  then have pr: "pos R" using ival_ok_nonneg [OF L(2)] by simp
  have R': "inf_ok R'" "ival R' = ival R"
    using correct_limbs [OF inf_okD(1,2) [OF L(2)]] pr by (simp_all add: R'_def ival_def)
  have R0: "0 \<le> ival R'" using R'(2) \<open>0 \<le> ival R\<close> by simp
  have eq: "inf_mod n d = Some (R'\<lparr>pos := (if val R' = [0] then True else pos n)\<rparr>)"
    using z m by (simp add: inf_mod_def R'_def Let_def)
  have "ival n smod ival d = (if pos n then 1 else - 1) * ival R'"
    using trunc_div(2) [OF assms(3), of "ival n"] ival_ok_nonneg [OF assms(1)] R'(2) L(3) by simp
  from signed_result [OF R'(1) R0 this] show ?thesis using eq by blast
qed

lemma division_by_zero:
  assumes "inf_ok d" "ival d = 0"
  shows "inf_div n d = Some (InfInt_int 0)" "inf_mod n d = Some (InfInt_int 0)"
    "inf_div_assign alias n d = Some n"
  using eq_zero [OF assms(1)] assms(2) by (simp_all add: inf_div_def inf_mod_def inf_div_assign_def)

section \<open>Properties of InfInt's arithmetic\<close>

text \<open>
  addition and subtraction of well-formed numbers give the well-formed number of the
  exact sum and difference, whatever the signs, lengths and borrows, and the assigning
  forms \<open>+=\<close> and \<open>-=\<close> compute the same numbers.
\<close>

theorem infint_add_sub:
  assumes "inf_ok a" "inf_ok b"
  shows "inf_ok (inf_add a b) \<and> ival (inf_add a b) = ival a + ival b \<and>
    inf_ok (inf_sub a b) \<and> ival (inf_sub a b) = ival a - ival b \<and>
    inf_add_assign a b = inf_add a b \<and> inf_sub_assign a b = inf_sub a b"
  using inf_add_exact [OF assms] inf_sub_exact [OF assms]
  by (simp add: inf_add_assign_eq inf_sub_assign_eq)

lemma infint_add_sub_witness:
  "ival (inf_sub \<lparr>pos = True, val = [0, 0, 1]\<rparr> \<lparr>pos = True, val = [1]\<rparr>) = 999999999999999999 \<and>
   inf_ok (inf_sub \<lparr>pos = True, val = [0, 0, 1]\<rparr> \<lparr>pos = True, val = [1]\<rparr>)"
  using infint_add_sub [of "\<lparr>pos = True, val = [0, 0, 1]\<rparr>" "\<lparr>pos = True, val = [1]\<rparr>"]
  by (simp add: inf_ok_def limbs_ok_def ival_def)

text \<open>
  C20: the column-wise product of well-formed numbers is the well-formed number of the exact
  product; in particular the 64-bit carry never overflows below \<open>2^31\<close> limbs.  The same
  holds for the product with an \<open>int\<close>.
\<close>

theorem infint_mul:
  assumes "inf_ok a" "inf_ok b" "length (val a) < 2147483648"
    "- 2147483648 < k" "k < 2147483648"
  shows "inf_ok (inf_mul a b) \<and> ival (inf_mul a b) = ival a * ival b \<and>
    inf_ok (inf_mul_int a k) \<and> ival (inf_mul_int a k) = ival a * k \<and>
    inf_mul_assign a b = inf_mul a b \<and> inf_mul_int_assign a k = inf_mul_int a k"
  using inf_mul_exact [OF assms(1-3)] inf_mul_int_exact [OF assms(1,4,5)]
  by (simp add: inf_mul_assign_def assign_forms inf_mul_int_assign_eq)

lemma infint_mul_witness:
  "ival (inf_mul \<lparr>pos = False, val = [999999999, 999999999]\<rparr> \<lparr>pos = True, val = [999999999, 7]\<rparr>) =
     - 999999999999999999 * 7999999999"
  using infint_mul [of "\<lparr>pos = False, val = [999999999, 999999999]\<rparr>"
      "\<lparr>pos = True, val = [999999999, 7]\<rparr>" 5]
  by (simp add: inf_ok_def limbs_ok_def ival_def)

text \<open>
  C19: long division by a well-formed non-zero number returns, and gives the quotient
  truncated towards zero and the remainder with the dividend's sign.
\<close>

theorem infint_div_mod:
  assumes "inf_ok n" "inf_ok d" "ival d \<noteq> 0"
  shows "\<exists>q r. inf_div n d = Some q \<and> inf_mod n d = Some r \<and> inf_ok q \<and> inf_ok r \<and>
    ival q = ival n sdiv ival d \<and> ival r = ival n smod ival d \<and>
    inf_div_assign False n d = Some q \<and> inf_mod_assign n d = Some r"
  using inf_div_exact [OF assms] inf_mod_exact [OF assms]
  by (auto simp: inf_mod_assign_def assign_forms)

lemma infint_div_mod_witness:
  "\<exists>q r. inf_div \<lparr>pos = False, val = [7, 0, 3]\<rparr> \<lparr>pos = True, val = [1, 1]\<rparr> = Some q \<and>
     inf_mod \<lparr>pos = False, val = [7, 0, 3]\<rparr> \<lparr>pos = True, val = [1, 1]\<rparr> = Some r \<and>
     ival q = - 2999999997 \<and> ival r = - 10"
proof -
  let ?n = "\<lparr>pos = False, val = [7, 0, 3]\<rparr>" and ?d = "\<lparr>pos = True, val = [1, 1]\<rparr>"
  have ok: "inf_ok ?n" "inf_ok ?d" by (simp_all add: inf_ok_def limbs_ok_def)
  have iv: "ival ?n = - 3000000000000000007" "ival ?d = 1000000001" by (simp_all add: ival_def)
  show ?thesis
    using infint_div_mod [OF ok] unfolding iv by (auto simp: trunc_div)
qed

text \<open>
  the six relational operators decide the order of the values.
\<close>

theorem infint_order:
  assumes "inf_ok a" "inf_ok b"
  shows "(inf_lt a b \<longleftrightarrow> ival a < ival b) \<and> (inf_le a b \<longleftrightarrow> ival a \<le> ival b) \<and>
    (inf_gt a b \<longleftrightarrow> ival a > ival b) \<and> (inf_ge a b \<longleftrightarrow> ival a \<ge> ival b) \<and>
    (inf_eq a b \<longleftrightarrow> ival a = ival b) \<and> (inf_neq a b \<longleftrightarrow> ival a \<noteq> ival b)"
  using inf_cmp_cases [OF assms] by blast

lemma infint_order_witness:
  "inf_lt \<lparr>pos = False, val = [0, 1]\<rparr> \<lparr>pos = False, val = [5]\<rparr> \<and>
   \<not> inf_eq \<lparr>pos = False, val = [0, 1]\<rparr> \<lparr>pos = False, val = [5]\<rparr>"
  using infint_order [of "\<lparr>pos = False, val = [0, 1]\<rparr>" "\<lparr>pos = False, val = [5]\<rparr>"]
  by (simp add: inf_ok_def limbs_ok_def ival_def)

text \<open>
  \<open>d /= d\<close> on one object gives 1 for a positive number but -1 for a negative one, since
  the sign of the divisor is read after the quotient has overwritten it; on two objects
  holding the same number the quotient is 1.
\<close>

theorem infint_div_alias:
  assumes "inf_ok d" "ival d \<noteq> 0"
  shows "(\<exists>q. inf_div_assign True d d = Some q \<and> ival q = (if 0 < ival d then 1 else - 1)) \<and>
    (\<exists>q. inf_div_assign False d d = Some q \<and> ival q = 1)"
proof -
  have "ival d sdiv ival d = 1" using assms(2) by (simp add: trunc_div)
  then show ?thesis using inf_div_exact [OF assms(1,1,2)] by auto
qed

lemma infint_div_alias_witness:
  "\<exists>q. inf_div_assign True \<lparr>pos = False, val = [5]\<rparr> \<lparr>pos = False, val = [5]\<rparr> = Some q \<and> ival q = - 1"
proof -
  let ?d = "\<lparr>pos = False, val = [5]\<rparr>"
  have "inf_ok ?d" "ival ?d = - 5" by (simp_all add: inf_ok_def limbs_ok_def ival_def)
  then show ?thesis using infint_div_alias [of ?d] by auto
qed

end
