(* ===== verification/InfInt_Conv.thy ===== *)
theory InfInt_Conv
  imports InfInt_Div
begin

text \<open>
  InfInt's conversions (\<^verbatim>\<open>src/cross/include/InfInt.h\<close>): decimal strings in and out
  (\<open>fromString\<close>, \<open>toString\<close>, the stream operators), single digits, and the C integer types.
  A string is read in chunks of nine characters from its end, each with the C library's
  \<open>atoi\<close>; reading \<open>val.back()\<close> of an empty vector is undefined, and is the value None here.
\<close>

section \<open>Decimal strings of the C and C++ library\<close>

definition isspace :: "char \<Rightarrow> bool" where
  "isspace c \<longleftrightarrow> c = CHR '' '' \<or> (9 \<le> (of_char c :: nat) \<and> (of_char c :: nat) \<le> 13)"

definition isdigit :: "char \<Rightarrow> bool" where
  "isdigit c \<longleftrightarrow> 48 \<le> (of_char c :: nat) \<and> (of_char c :: nat) \<le> 57"

definition digit_val :: "char \<Rightarrow> int" where
  "digit_val c = int (of_char c) - 48"

definition digit_chr :: "nat \<Rightarrow> char" where
  "digit_chr d = char_of (48 + d)"

definition dec_value :: "string \<Rightarrow> int" where
  "dec_value s = dval 10 (rev (map digit_val s))"

definition atoi :: "string \<Rightarrow> int" where
  "atoi s =
     (case dropWhile isspace s of
        [] \<Rightarrow> 0
      | c # cs \<Rightarrow>
          if c = CHR ''-'' then - dec_value (takeWhile isdigit cs)
          else if c = CHR ''+'' then dec_value (takeWhile isdigit cs)
          else dec_value (takeWhile isdigit (c # cs)))"

fun show_nat :: "nat \<Rightarrow> string" where
  "show_nat n = (if n < 10 then [digit_chr n] else show_nat (n div 10) @ [digit_chr (n mod 10)])"

declare show_nat.simps [simp del]

definition show_int :: "int \<Rightarrow> string" where
  "show_int d = (if d < 0 then CHR ''-'' # show_nat (nat (- d)) else show_nat (nat d))"

text \<open>\<open>setfill('0') << setw(w)\<close>.\<close>

definition setw0 :: "nat \<Rightarrow> string \<Rightarrow> string" where
  "setw0 w s = replicate (w - length s) (CHR ''0'') @ s"

section \<open>Reading and writing an InfInt\<close>

function from_chunks :: "string \<Rightarrow> int \<Rightarrow> int list \<times> int" where
  "from_chunks s i =
     (if i \<ge> 0
      then (let (v, j) = from_chunks s (i - 9) in (atoi (take DIGIT_COUNT (drop (nat i) s)) # v, j))
      else ([], i))"
  by pat_completeness auto
termination by (relation "measure (\<lambda>(_, i). nat (i + 9))") auto

declare from_chunks.simps [simp del]

text \<open>
  The characters left over before the first full chunk give the top limb, unless they are
  just a minus sign; then a negative top limb gives its sign to the number.
\<close>

definition top_chunk :: "string \<Rightarrow> int list \<times> int \<Rightarrow> bool \<times> int list" where
  "top_chunk s vi =
     (if snd vi > - int DIGIT_COUNT
      then (let ss = take (nat (snd vi + int DIGIT_COUNT)) s
            in if length ss = 1 \<and> ss ! 0 = CHR ''-'' then (False, fst vi)
               else (True, fst vi @ [atoi ss]))
      else (True, fst vi))"

definition back_sign :: "bool \<times> int list \<Rightarrow> bool \<times> int list" where
  "back_sign pw =
     (if last (snd pw) < 0 then (False, butlast (snd pw) @ [s32 (- last (snd pw))]) else pw)"

definition fromString :: "string \<Rightarrow> infint option" where
  "fromString s =
     (let pw = top_chunk s (from_chunks s (s32 (int (length s)) - int DIGIT_COUNT))
      in if snd pw = [] then None
         else (let pw' = back_sign pw in Some (correct True False \<lparr>pos = fst pw', val = snd pw'\<rparr>)))"

text \<open>The constructors and assignments from a string; \<open>fromString\<close> resets both fields.\<close>

definition InfInt_string :: "string \<Rightarrow> infint option" where
  "InfInt_string c = fromString c"

definition assign_string :: "infint \<Rightarrow> string \<Rightarrow> infint option" where
  "assign_string self s =
     map_option (\<lambda>r. self\<lparr>pos := pos r, val := val r\<rparr>) (fromString s)"

definition toString :: "infint \<Rightarrow> string" where
  "toString n =
     (if \<not> pos n then ''-'' else '''') @
     (case rev (val n) of
        [] \<Rightarrow> ''''
      | d # ds \<Rightarrow> show_int d @ concat (map (\<lambda>e. setw0 DIGIT_COUNT (show_int e)) ds))"

text \<open>\<open>operator>>\<close> reads one blank-delimited word; the rest of the stream remains.\<close>

definition inf_read :: "string \<Rightarrow> infint option \<times> string" where
  "inf_read inp =
     (let s = dropWhile isspace inp
      in (fromString (takeWhile (\<lambda>c. \<not> isspace c) s), dropWhile (\<lambda>c. \<not> isspace c) s))"

section \<open>Digits, size and machine integers\<close>

definition powersOfTen :: "int list" where
  "powersOfTen = [1, 10, 100, 1000, 10000, 100000, 1000000, 10000000, 100000000]"

definition numberOfDigits :: "infint \<Rightarrow> nat" where
  "numberOfDigits n =
     (length (val n) - 1) * DIGIT_COUNT +
     (let b = last (val n)
      in if b > 99999999 then 9 else if b > 9999999 then 8 else if b > 999999 then 7
         else if b > 99999 then 6 else if b > 9999 then 5 else if b > 999 then 4
         else if b > 99 then 3 else if b > 9 then 2 else 1)"

definition digitAt :: "infint \<Rightarrow> nat \<Rightarrow> int" where
  "digitAt n i =
     (if numberOfDigits n \<le> i then - 1
      else ((val n ! (i div DIGIT_COUNT)) sdiv (powersOfTen ! (i mod DIGIT_COUNT))) smod 10)"

definition inf_size :: "infint \<Rightarrow> nat" where
  "inf_size n = length (val n) * 4 + 1"

text \<open>
  Each conversion prints a message when the number is out of range (the first component)
  and then evaluates it in the arithmetic of the target type.
\<close>

definition toInt :: "infint \<Rightarrow> bool \<times> int" where
  "toInt n =
     (inf_gt n (InfInt_int 2147483647) \<or> inf_lt n (InfInt_int (- 2147483648)),
      (let r = foldr (\<lambda>d result. s32 (s32 (result * BASE) + d)) (val n) 0
       in if pos n then r else s32 (- r)))"

definition toLong :: "infint \<Rightarrow> bool \<times> int" where
  "toLong n =
     (inf_gt n (InfInt_long 9223372036854775807) \<or> inf_lt n (InfInt_long (- 9223372036854775808)),
      (let r = foldr (\<lambda>d result. s64 (s64 (result * BASE) + d)) (val n) 0
       in if pos n then r else s64 (- r)))"

definition toUnsignedInt :: "infint \<Rightarrow> bool \<times> int" where
  "toUnsignedInt n =
     (\<not> pos n \<or> inf_gt n (InfInt_unsigned 4294967295),
      foldr (\<lambda>d result. u32 (u32 (result * BASE) + u32 d)) (val n) 0)"

definition toUnsignedLong :: "infint \<Rightarrow> bool \<times> int" where
  "toUnsignedLong n =
     (\<not> pos n \<or> inf_gt n (InfInt_unsigned 18446744073709551615),
      foldr (\<lambda>d result. u64 (u64 (result * BASE) + u64 d)) (val n) 0)"

section \<open>Lemmas on digits\<close>

lemma digit_chr [simp]:
  "d < 10 \<Longrightarrow> isdigit (digit_chr d)" "d < 10 \<Longrightarrow> digit_val (digit_chr d) = int d"
  by (simp_all add: isdigit_def digit_chr_def digit_val_def)

lemma isdigit_val: "isdigit c \<Longrightarrow> 0 \<le> digit_val c \<and> digit_val c < 10"
  by (auto simp: isdigit_def digit_val_def)

lemma isdigit_plain: "isdigit c \<Longrightarrow> \<not> isspace c \<and> c \<noteq> CHR ''-'' \<and> c \<noteq> CHR ''+''"
  by (auto simp: isdigit_def isspace_def)

lemma dec_value_simps [simp]:
  "dec_value [] = 0"
  "dec_value (s @ [c]) = digit_val c + 10 * dec_value s"
  by (simp_all add: dec_value_def)

lemma dec_value_append: "dec_value (s @ t) = dec_value t + 10 ^ length t * dec_value s"
  by (simp add: dec_value_def dval_append)

interpretation decimal: positional 10
  by unfold_locales simp

lemma digits_dec: "list_all isdigit s \<Longrightarrow> digits_ok 10 (rev (map digit_val s))"
  using isdigit_val by (auto simp: digits_ok_def list_all_iff)

lemma dec_value_bounds: "list_all isdigit s \<Longrightarrow> 0 \<le> dec_value s \<and> dec_value s < 10 ^ length s"
  using decimal.dval_nonneg [OF digits_dec] decimal.dval_less [OF digits_dec, of s]
  by (auto simp: dec_value_def)

lemma show_nat_props:
  "list_all isdigit (show_nat n) \<and> dec_value (show_nat n) = int n \<and> show_nat n \<noteq> [] \<and>
   (0 < n \<longrightarrow> hd (show_nat n) \<noteq> CHR ''0'')"
proof (induction n rule: show_nat.induct)
  case (1 n)
  have hd0: "digit_chr d \<noteq> CHR ''0''" if "0 < d" "d < 10" for d
  proof
    assume "digit_chr d = CHR ''0''"
    then have "digit_val (digit_chr d) = 0" by (simp add: digit_val_def)
    then show False using that by simp
  qed
  show ?case
  proof (cases "n < 10")
    case True
    then show ?thesis using hd0 [of n] dec_value_simps(2) [of "[]" "digit_chr n"]
      by (subst (1 2 3 4) show_nat.simps) simp
  next
    case False
    then have "0 < n div 10" by (simp add: div_greater_zero_iff)
    with 1 False show ?thesis
      by (subst (1 2 3 4) show_nat.simps) (auto simp: zdiv_int zmod_int)
  qed
qed

lemma show_nat_length:
  assumes "n < 10 ^ k" "0 < k"
  shows "length (show_nat n) \<le> k"
  using assms
proof (induction n arbitrary: k rule: show_nat.induct)
  case (1 n)
  show ?case
  proof (cases "n < 10")
    case True
    then show ?thesis using 1(3) by (subst show_nat.simps) simp
  next
    case False
    then obtain j where k: "k = Suc j" "0 < j" using 1(2,3) by (cases k; cases "k - 1") auto
    then have "n div 10 < 10 ^ j" using 1(2) by (simp add: div_less_iff_less_mult mult.commute)
    with 1(1) False k show ?thesis by (subst show_nat.simps) simp
  qed
qed

lemma takeWhile_all: "list_all P s \<Longrightarrow> takeWhile P s = s"
  by (induction s) simp_all

lemma atoi_digits: "list_all isdigit s \<Longrightarrow> atoi s = dec_value s"
proof (cases s)
  case (Cons c cs)
  assume "list_all isdigit s"
  then show ?thesis
    using isdigit_plain [of c] by (simp add: atoi_def Cons takeWhile_all)
qed (simp add: atoi_def)

lemma atoi_minus: "list_all isdigit s \<Longrightarrow> atoi (CHR ''-'' # s) = - dec_value s"
proof -
  assume "list_all isdigit s"
  moreover have "\<not> isspace (CHR ''-'')" by (simp add: isspace_def)
  ultimately show ?thesis by (simp add: atoi_def takeWhile_all)
qed

section \<open>Reading a decimal string\<close>

lemma from_chunks_range: "- 9 \<le> i \<Longrightarrow> - 9 \<le> snd (from_chunks s i) \<and> snd (from_chunks s i) \<le> i"
proof (induction s i rule: from_chunks.induct)
  case (1 s i)
  then show ?case by (subst (1 2) from_chunks.simps) (auto split: prod.splits simp: Let_def)
qed

lemma from_chunks_prefix:
  "i + 9 \<le> int (length s) \<Longrightarrow> from_chunks (s @ t) i = from_chunks s i"
proof (induction "s @ t" i rule: from_chunks.induct)
  case (1 i)
  show ?case
  proof (cases "0 \<le> i")
    case True
    with 1 show ?thesis by (subst (1 2) from_chunks.simps) (simp add: le_diff_conv nat_le_iff)
  next
    case False
    then show ?thesis by (subst (1 2) from_chunks.simps) simp
  qed
qed

definition parse :: "string \<Rightarrow> bool \<times> int list" where
  "parse s = top_chunk s (from_chunks s (int (length s) - 9))"

lemma parse_chunk: "length t = 9 \<Longrightarrow> parse (a @ t) = apsnd ((#) (atoi t)) (parse a)"
proof -
  assume t: "length t = 9"
  let ?r = "from_chunks a (int (length a) - 9)"
  have f: "from_chunks (a @ t) (int (length a)) = (atoi t # fst ?r, snd ?r)"
    using t by (subst from_chunks.simps) (simp add: from_chunks_prefix split: prod.splits)
  have "- 9 \<le> snd ?r" "snd ?r \<le> int (length a) - 9"
    using from_chunks_range [of "int (length a) - 9" a] by auto
  then have tk: "take (nat (snd ?r + int DIGIT_COUNT)) (a @ t) = take (nat (snd ?r + int DIGIT_COUNT)) a"
    by simp
  have e: "int (length (a @ t)) - 9 = int (length a)" using t by simp
  show ?thesis
    unfolding parse_def e f top_chunk_def Let_def snd_conv fst_conv tk by simp
qed

lemma parse_short:
  assumes "length s < 9"
  shows "parse s = (if s = [] then (True, []) else if s = ''-'' then (False, []) else (True, [atoi s]))"
proof -
  have "from_chunks s (int (length s) - 9) = ([], int (length s) - 9)"
    using assms by (subst from_chunks.simps) simp
  moreover have "length s = 1 \<and> s ! 0 = CHR ''-'' \<longleftrightarrow> s = ''-''"
    by (cases s) auto
  ultimately show ?thesis by (simp add: parse_def top_chunk_def Let_def)
qed

lemma split_chunk: "9 \<le> length s \<Longrightarrow> \<exists>a t. s = a @ t \<and> length t = 9"
  by (intro exI [of _ "take (length s - 9) s"] exI [of _ "drop (length s - 9) s"]) simp

lemma parse_digits:
  assumes "list_all isdigit s"
  shows "fst (parse s) \<and> digits_ok BASE (snd (parse s)) \<and> dval BASE (snd (parse s)) = dec_value s \<and>
    (snd (parse s) = [] \<longleftrightarrow> s = [])"
  using assms
proof (induction "length s" arbitrary: s rule: less_induct)
  case less
  show ?case
  proof (cases "length s < 9")
    case True
    have "(10::int) ^ length s \<le> 10 ^ 8" using True by (intro power_increasing) auto
    then have "0 \<le> dec_value s" "dec_value s < BASE"
      using dec_value_bounds [OF less.prems] by auto
    moreover have "s \<noteq> ''-''" using less.prems by (auto simp: isdigit_def)
    ultimately show ?thesis using True less.prems by (simp add: parse_short atoi_digits)
  next
    case False
    then obtain a t where s: "s = a @ t" "length t = 9" using split_chunk [of s] by auto
    have d: "list_all isdigit a" "list_all isdigit t" using less.prems s by simp_all
    have "0 \<le> dec_value t" "dec_value t < BASE"
      using dec_value_bounds [OF d(2)] s(2) by auto
    with less.hyps [of a] d s show ?thesis
      by (auto simp: parse_chunk atoi_digits dec_value_append)
  qed
qed

lemma dec_value_pos: "list_all isdigit ds \<Longrightarrow> ds \<noteq> [] \<Longrightarrow> hd ds \<noteq> CHR ''0'' \<Longrightarrow> 0 < dec_value ds"
proof -
  assume a: "list_all isdigit ds" "ds \<noteq> []" "hd ds \<noteq> CHR ''0''"
  then obtain c cs where ds: "ds = c # cs" by (cases ds) auto
  have "digit_val c \<noteq> 0"
  proof
    assume "digit_val c = 0"
    then have "of_char c = (of_char (CHR ''0'') :: nat)" by (simp add: digit_val_def)
    then show False using a(3) by (simp only: of_char_eq_iff ds list.sel simp_thms)
  qed
  then have "0 < digit_val c" using isdigit_val [of c] a(1) by (simp add: ds)
  then have "0 < 10 ^ length cs * digit_val c" by simp
  moreover have "0 \<le> dec_value cs" using dec_value_bounds [of cs] a(1) by (simp add: ds)
  ultimately show ?thesis
    using dec_value_append [of "[c]" cs] dec_value_simps(2) [of "[]" c] by (simp add: ds)
qed

lemma parse_minus:
  assumes "list_all isdigit ds" "ds \<noteq> []" "hd ds \<noteq> CHR ''0''"
  shows "\<exists>w. back_sign (parse (CHR ''-'' # ds)) = (False, w) \<and> snd (parse (CHR ''-'' # ds)) \<noteq> [] \<and>
    digits_ok BASE w \<and> w \<noteq> [] \<and> dval BASE w = dec_value ds"
  using assms
proof (induction "length ds" arbitrary: ds rule: less_induct)
  case less
  let ?s = "CHR ''-'' # ds"
  have v: "0 < dec_value ds" by (rule dec_value_pos [OF less.prems])
  have single: ?case if b: "dec_value ds < BASE"
    and p: "parse ?s = (True, [- dec_value ds]) \<or> parse ?s = (False, [dec_value ds])"
  proof -
    have "s32 (dec_value ds) = dec_value ds" using v b by (simp add: s32_id)
    then show ?thesis using p v b by (auto simp: back_sign_def)
  qed
  have small: "dec_value ds < BASE" if "length ds \<le> 9"
  proof -
    have "(10::int) ^ length ds \<le> 10 ^ 9" using that by (intro power_increasing) auto
    then show ?thesis using dec_value_bounds [OF less.prems(1)] by simp
  qed
  consider "length ds < 8" | "length ds = 8" | "length ds = 9" | "9 < length ds" by linarith
  then show ?case
  proof cases
    case 1
    then show ?thesis
      using less.prems small by (intro single) (simp_all add: parse_short atoi_minus)
  next
    case 2
    then show ?thesis
      using less.prems small parse_chunk [of ?s "[]"]
      by (intro single) (simp_all add: parse_short atoi_minus)
  next
    case 3
    then show ?thesis
      using less.prems small parse_chunk [of ds "''-''"]
      by (intro single) (simp_all add: parse_short atoi_digits)
  next
    case 4
    then obtain a t where s: "ds = a @ t" "length t = 9" using split_chunk [of ds] by auto
    have a: "list_all isdigit a" "list_all isdigit t" "a \<noteq> []" "hd a \<noteq> CHR ''0''" "length a < length ds"
      using less.prems s 4 by auto
    obtain w where w: "back_sign (parse (CHR ''-'' # a)) = (False, w)" "snd (parse (CHR ''-'' # a)) \<noteq> []"
        "digits_ok BASE w" "w \<noteq> []" "dval BASE w = dec_value a"
      using less.hyps [OF a(5) a(1,3,4)] by blast
    have p: "parse ?s = apsnd ((#) (atoi t)) (parse (CHR ''-'' # a))"
      using parse_chunk [OF s(2), of "CHR ''-'' # a"] s by simp
    have b: "back_sign (parse ?s) = (False, atoi t # w)"
      using w(1,2) unfolding p by (auto simp: back_sign_def split: if_splits)
    have "0 \<le> dec_value t" "dec_value t < BASE"
      using dec_value_bounds [OF a(2)] s(2) by auto
    moreover have "snd (parse ?s) \<noteq> []" unfolding p by simp
    ultimately show ?thesis
      using b w(3-5) s a(2) by (simp add: atoi_digits dec_value_append)
  qed
qed

lemma fromString_parse:
  "length s < 2147483648 \<Longrightarrow> fromString s =
     (if snd (parse s) = [] then None
      else Some (correct True False \<lparr>pos = fst (back_sign (parse s)), val = snd (back_sign (parse s))\<rparr>))"
  by (simp add: fromString_def parse_def Let_def s32_id)

lemma correct_zeros:
  assumes "digits_ok BASE w" "w \<noteq> []"
  shows "limbs_ok (val (correct True False \<lparr>pos = p, val = w\<rparr>))"
    "dval BASE (val (correct True False \<lparr>pos = p, val = w\<rparr>)) = dval BASE w"
    "pos (correct True False \<lparr>pos = p, val = w\<rparr>) = p"
  using removeLeadingZeros_value [OF assms] by (simp_all add: correct_def)

lemma fromString_digits:
  assumes "list_all isdigit s" "s \<noteq> []" "length s < 2147483648"
  shows "\<exists>n. fromString s = Some n \<and> inf_ok n \<and> ival n = dec_value s"
proof -
  obtain w where w: "parse s = (True, w)" "digits_ok BASE w" "dval BASE w = dec_value s" "w \<noteq> []"
    using parse_digits [OF assms(1)] assms(2) by (cases "parse s") auto
  have "0 \<le> last w" using w(2,4) by (auto simp: digits_ok_def)
  then have "back_sign (parse s) = (True, w)" by (simp add: back_sign_def w(1))
  then show ?thesis
    using correct_zeros [OF w(2,4), of True] w(1,3,4) assms(3)
    by (simp add: fromString_parse inf_ok_def ival_def)
qed

lemma fromString_minus:
  assumes "list_all isdigit ds" "ds \<noteq> []" "hd ds \<noteq> CHR ''0''" "length ds < 2147483647"
  shows "\<exists>n. fromString (CHR ''-'' # ds) = Some n \<and> inf_ok n \<and> ival n = - dec_value ds"
proof -
  obtain w where w: "back_sign (parse (CHR ''-'' # ds)) = (False, w)" "snd (parse (CHR ''-'' # ds)) \<noteq> []"
      "digits_ok BASE w" "w \<noteq> []" "dval BASE w = dec_value ds"
    using parse_minus [OF assms(1-3)] by blast
  let ?n = "correct True False \<lparr>pos = False, val = w\<rparr>"
  note c = correct_zeros [OF w(3,4), of False]
  have "dval BASE (val ?n) \<noteq> 0" using c(2) w(5) dec_value_pos [OF assms(1-3)] by simp
  then have "val ?n \<noteq> [0]" by auto
  with c w show ?thesis using assms(4)
    by (simp add: fromString_parse inf_ok_def ival_def)
qed

section \<open>Writing, and reading back\<close>

lemma limb_chars:
  assumes "0 \<le> d" "d < BASE"
  shows "list_all isdigit (show_int d)" "dec_value (show_int d) = d" "show_int d \<noteq> []"
    "length (show_int d) \<le> 9" "0 < d \<Longrightarrow> hd (show_int d) \<noteq> CHR ''0''"
proof -
  have "nat d < 10 ^ 9" using assms by simp
  then show "length (show_int d) \<le> 9" using assms(1) show_nat_length [of "nat d" 9]
    by (simp add: show_int_def)
qed (use assms show_nat_props [of "nat d"] in \<open>auto simp: show_int_def\<close>)

lemma dec_value_zeros: "dec_value (replicate k (CHR ''0'') @ s) = dec_value s"
proof -
  have "digit_val (CHR ''0'') = 0" by (simp add: digit_val_def)
  then have "dec_value (replicate k (CHR ''0'')) = 0"
    by (simp add: dec_value_def dval_replicate_0 map_replicate_const)
  then show ?thesis by (simp add: dec_value_append)
qed

lemma setw_chars:
  assumes "0 \<le> d" "d < BASE"
  shows "list_all isdigit (setw0 9 (show_int d))" "dec_value (setw0 9 (show_int d)) = d"
    "length (setw0 9 (show_int d)) = 9"
  using limb_chars [OF assms] by (auto simp: setw0_def dec_value_zeros list_all_iff isdigit_def)

definition magnitude :: "int list \<Rightarrow> string" where
  "magnitude v = show_int (last v) @ concat (map (\<lambda>e. setw0 9 (show_int e)) (rev (butlast v)))"

lemma low_limbs_chars:
  assumes "digits_ok BASE v"
  shows "list_all isdigit (concat (map (\<lambda>e. setw0 9 (show_int e)) (rev v)))"
    "dec_value (concat (map (\<lambda>e. setw0 9 (show_int e)) (rev v))) = dval BASE v"
    "length (concat (map (\<lambda>e. setw0 9 (show_int e)) (rev v))) = 9 * length v"
  using assms
proof (induction v)
  case (Cons d v)
  {
    case 1
    then show ?case using Cons setw_chars(1) by simp
  next
    case 2
    then show ?case using Cons setw_chars [of d] by (simp add: dec_value_append)
  next
    case 3
    then show ?case using Cons setw_chars [of d] by simp
  }
qed simp_all

lemma magnitude_props:
  assumes "limbs_ok v"
  shows "list_all isdigit (magnitude v)" "dec_value (magnitude v) = dval BASE v" "magnitude v \<noteq> []"
    "v \<noteq> [0] \<Longrightarrow> hd (magnitude v) \<noteq> CHR ''0''"
    "length (magnitude v) = length (show_int (last v)) + 9 * (length v - 1)"
proof -
  have ne: "v \<noteq> []" "digits_ok BASE v" using assms by (simp_all add: limbs_ok_def)
  then obtain u l where v: "v = u @ [l]" by (cases v rule: rev_cases) auto
  have l: "0 \<le> l" "l < BASE" "digits_ok BASE u" using ne(2) by (simp_all add: v)
  note c = limb_chars [OF l(1,2)] and u = low_limbs_chars [OF l(3)]
  have m: "magnitude v = show_int l @ concat (map (\<lambda>e. setw0 9 (show_int e)) (rev u))"
    by (simp add: magnitude_def v)
  show "list_all isdigit (magnitude v)" unfolding m using c(1) u(1) by simp
  show "dec_value (magnitude v) = dval BASE v"
    unfolding m by (simp add: dec_value_append u(2,3) c(2) v dval_append power_mult)
  show "magnitude v \<noteq> []" unfolding m using c(3) by simp
  show "length (magnitude v) = length (show_int (last v)) + 9 * (length v - 1)"
    unfolding m by (simp add: u(3) v)
  assume "v \<noteq> [0]"
  then have "0 < l" using assms l(1) v by (cases u) (auto simp: limbs_ok_def)
  then show "hd (magnitude v) \<noteq> CHR ''0''" unfolding m using c(3,5) by simp
qed

lemma toString_magnitude:
  "val n \<noteq> [] \<Longrightarrow> toString n = (if pos n then magnitude (val n) else CHR ''-'' # magnitude (val n))"
proof -
  assume "val n \<noteq> []"
  then obtain u l where v: "val n = u @ [l]" by (cases "val n" rule: rev_cases) auto
  show ?thesis by (simp add: toString_def magnitude_def v)
qed

lemma inf_ok_unique:
  assumes "inf_ok a" "inf_ok b" "ival a = ival b"
  shows "a = b"
proof -
  have "inf_eq a b" using inf_cmp_cases(5) [OF assms(1,2)] assms(3) by simp
  then have "pos a = pos b" "val a = val b"
    by (auto simp: inf_eq_def cmp_eq_iff split: if_splits)
  then show ?thesis by (cases a; cases b) simp
qed

lemma parse_print:
  assumes "inf_ok n" "length (toString n) < 2147483648"
  shows "fromString (toString n) = Some n"
proof -
  note l = inf_okD(3) [OF assms(1)]
  note m = magnitude_props [OF l] and t = toString_magnitude [OF inf_okD(2) [OF assms(1)]]
  show ?thesis
  proof (cases "pos n")
    case True
    then obtain r where r: "fromString (toString n) = Some r" "inf_ok r" "ival r = ival n"
      using fromString_digits [OF m(1,3)] m(2) assms(2) by (auto simp: t ival_def)
    then show ?thesis using inf_ok_unique [OF r(2) assms(1) r(3)] by simp
  next
    case False
    then have "val n \<noteq> [0]" using assms(1) by (auto simp: inf_ok_def)
    then obtain r where r: "fromString (toString n) = Some r" "inf_ok r" "ival r = ival n"
      using fromString_minus [OF m(1,3) m(4)] m(2) assms(2) False by (auto simp: t ival_def)
    then show ?thesis using inf_ok_unique [OF r(2) assms(1) r(3)] by simp
  qed
qed

section \<open>Counting and selecting digits\<close>

lemma show_nat_length_eq:
  assumes "10 ^ k \<le> n" "n < 10 ^ Suc k"
  shows "length (show_nat n) = Suc k"
proof -
  have "length (show_nat n) \<le> Suc k" by (rule show_nat_length) (use assms(2) in auto)
  moreover have "k < length (show_nat n)"
  proof (rule ccontr)
    assume "\<not> k < length (show_nat n)"
    then have "(10::int) ^ length (show_nat n) \<le> 10 ^ k" by (intro power_increasing) auto
    moreover have "int n < 10 ^ length (show_nat n)"
      using show_nat_props [of n] dec_value_bounds [of "show_nat n"] by auto
    moreover have "(10::int) ^ k \<le> int n" using assms(1) by (metis of_nat_le_iff of_nat_numeral of_nat_power)
    ultimately show False by linarith
  qed
  ultimately show ?thesis by simp
qed

lemma show_int_length:
  assumes "0 \<le> d" "d < BASE"
  shows "length (show_int d) =
    (if d > 99999999 then 9 else if d > 9999999 then 8 else if d > 999999 then 7
     else if d > 99999 then 6 else if d > 9999 then 5 else if d > 999 then 4
     else if d > 99 then 3 else if d > 9 then 2 else 1)"
proof -
  have s: "length (show_int d) = length (show_nat (nat d))" using assms(1) by (simp add: show_int_def)
  have k: "length (show_nat (nat d)) = Suc k" if "10 ^ k \<le> nat d" "nat d < 10 ^ Suc k" for k
    by (rule show_nat_length_eq [OF that])
  have "nat d \<le> 9 \<Longrightarrow> length (show_nat (nat d)) = 1" by (subst show_nat.simps) simp
  then show ?thesis
    unfolding s using assms k [of 8] k [of 7] k [of 6] k [of 5] k [of 4] k [of 3] k [of 2] k [of 1]
    by (auto simp: nat_less_iff le_nat_iff)
qed

lemma numberOfDigits_magnitude: "inf_ok n \<Longrightarrow> numberOfDigits n = length (magnitude (val n))"
proof -
  assume ok: "inf_ok n"
  have "0 \<le> last (val n)" "last (val n) < BASE"
    using inf_okD(1,2) [OF ok] by (auto simp: digits_ok_def)
  from show_int_length [OF this] show ?thesis
    using magnitude_props(5) [OF inf_okD(3) [OF ok]] by (simp add: numberOfDigits_def Let_def)
qed

lemma numberOfDigits_bounds:
  assumes "inf_ok n" "ival n \<noteq> 0"
  shows "0 < numberOfDigits n" "10 ^ (numberOfDigits n - 1) \<le> \<bar>ival n\<bar>" "\<bar>ival n\<bar> < 10 ^ numberOfDigits n"
proof -
  note m = magnitude_props [OF inf_okD(3) [OF assms(1)]] and l = numberOfDigits_magnitude [OF assms(1)]
  have "0 \<le> dval BASE (val n)" by (rule limb.dval_nonneg [OF inf_okD(1) [OF assms(1)]])
  then have v: "\<bar>ival n\<bar> = dec_value (magnitude (val n))" by (simp add: m(2) ival_def)
  show "0 < numberOfDigits n" using l m(3) by simp
  show "\<bar>ival n\<bar> < 10 ^ numberOfDigits n" using v l dec_value_bounds [OF m(1)] by simp
  have "val n \<noteq> [0]" using assms(2) by (cases "pos n") (auto simp: ival_def)
  then obtain c cs where s: "magnitude (val n) = c # cs" "c \<noteq> CHR ''0''"
    using m(3,4) by (cases "magnitude (val n)") auto
  have d: "list_all isdigit [c]" "list_all isdigit cs" using m(1) by (simp_all add: s)
  have "1 \<le> dec_value [c]" using dec_value_pos [OF d(1)] s(2) by simp
  then have "10 ^ length cs * 1 \<le> 10 ^ length cs * dec_value [c]" by (intro mult_left_mono) auto
  moreover have "0 \<le> dec_value cs" using dec_value_bounds [OF d(2)] by simp
  moreover have "\<bar>ival n\<bar> = dec_value cs + 10 ^ length cs * dec_value [c]" "(10::int) ^ (numberOfDigits n - 1) = 10 ^ length cs"
    using v l dec_value_append [of "[c]" cs] by (simp_all add: s)
  ultimately show "10 ^ (numberOfDigits n - 1) \<le> \<bar>ival n\<bar>" by linarith
qed

lemma nth_limb:
  assumes "digits_ok BASE v" "k < length v"
  shows "v ! k = dval BASE v div BASE ^ k mod BASE"
proof -
  have "drop k v = v ! k # drop (Suc k) v" using assms(2) by (simp add: Cons_nth_drop_Suc)
  then have "dval BASE v div BASE ^ k = v ! k + BASE * dval BASE (drop (Suc k) v)"
    using limb.dval_drop_take(1) [OF assms(1), of k] assms(2) by (simp del: inf_consts)
  then show ?thesis using digits_ok_nth [OF assms] by simp
qed

lemma digit_of_limb:
  fixes x :: int
  assumes "j < 9"
  shows "x mod BASE div 10 ^ j mod 10 = x div 10 ^ j mod 10"
proof -
  obtain m where m: "9 = j + Suc m" using assms less_imp_Suc_add by (metis add_Suc_right)
  have "BASE = 10 ^ (j + Suc m)" unfolding m [symmetric] by simp
  then have b: "BASE = 10 ^ j * 10 ^ Suc m" by (simp only: power_add)
  have "x mod BASE div 10 ^ j = x div 10 ^ j mod 10 ^ Suc m"
    unfolding b by (subst zmod_zmult2_eq) simp_all
  also have "\<dots> mod 10 = x div 10 ^ j mod 10" by (rule mod_mod_cancel) simp
  finally show ?thesis .
qed

lemma powersOfTen_nth: "j < 9 \<Longrightarrow> powersOfTen ! j = 10 ^ j"
proof -
  assume "j < 9"
  then consider "j = 0" | "j = 1" | "j = 2" | "j = 3" | "j = 4" | "j = 5" | "j = 6" | "j = 7" | "j = 8"
    by linarith
  then show ?thesis by cases (simp_all add: powersOfTen_def)
qed

lemma digitAt_value:
  assumes "inf_ok n"
  shows "digitAt n i = (if i < numberOfDigits n then \<bar>ival n\<bar> div 10 ^ i mod 10 else - 1)"
proof (cases "i < numberOfDigits n")
  case True
  let ?V = "dval BASE (val n)" and ?k = "i div 9" and ?j = "i mod 9"
  have V: "0 \<le> ?V" by (rule limb.dval_nonneg [OF inf_okD(1) [OF assms]])
  have "numberOfDigits n \<le> (length (val n) - 1) * 9 + 9" by (simp add: numberOfDigits_def Let_def)
  then have "i < length (val n) * 9"
    using True inf_okD(2) [OF assms] by (cases "length (val n)") simp_all
  then have k: "?k < length (val n)" by (simp add: div_less_iff_less_mult)
  note nth = nth_limb [OF inf_okD(1) [OF assms] k]
  have p: "?V div BASE ^ ?k div 10 ^ ?j = ?V div 10 ^ i"
  proof -
    have "10 ^ i = (10::int) ^ (9 * ?k + ?j)" by simp
    then have "BASE ^ ?k * 10 ^ ?j = 10 ^ i" by (simp only: power_add power_mult) simp
    then show ?thesis by (simp add: zdiv_zmult2_eq [symmetric] del: inf_consts)
  qed
  have nn: "0 \<le> val n ! ?k" using digits_ok_nth [OF inf_okD(1) [OF assms] k] by simp
  then have "0 \<le> val n ! ?k div 10 ^ ?j" by (simp add: pos_imp_zdiv_nonneg_iff)
  then have "(val n ! ?k sdiv 10 ^ ?j) smod 10 = val n ! ?k div 10 ^ ?j mod 10"
    using nn by (simp add: sdiv_nonneg trunc_div(2))
  also have "\<dots> = \<bar>ival n\<bar> div 10 ^ i mod 10"
    unfolding nth by (subst digit_of_limb) (use V p in \<open>simp_all add: ival_def\<close>)
  finally show ?thesis using True by (simp add: digitAt_def powersOfTen_nth)
qed (simp add: digitAt_def)

section \<open>Conversion to the C integer types\<close>

lemma horner_folds:
  "foldr (\<lambda>d result. s32 (s32 (result * BASE) + d)) v 0 = s32 (dval BASE v)"
  "foldr (\<lambda>d result. s64 (s64 (result * BASE) + d)) v 0 = s64 (dval BASE v)"
  "foldr (\<lambda>d result. u32 (u32 (result * BASE) + u32 d)) v 0 = u32 (dval BASE v)"
  "foldr (\<lambda>d result. u64 (u64 (result * BASE) + u64 d)) v 0 = u64 (dval BASE v)"
  by (induction v)
    (simp_all add: horner_s32 horner_s64 horner_u32 horner_u64 s32_id s64_id u32_id u64_id
      mult.commute [of BASE] del: inf_consts,
     simp_all add: add.commute)

lemma to_machine:
  assumes "inf_ok n"
  shows "toInt n = (\<not> (- 2147483648 \<le> ival n \<and> ival n < 2147483648), s32 (ival n))"
    "toLong n = (\<not> (- 9223372036854775808 \<le> ival n \<and> ival n < 9223372036854775808), s64 (ival n))"
    "toUnsignedInt n = (\<not> (0 \<le> ival n \<and> ival n < 4294967296), u32 \<bar>ival n\<bar>)"
    "toUnsignedLong n = (\<not> (0 \<le> ival n \<and> ival n < 18446744073709551616), u64 \<bar>ival n\<bar>)"
proof -
  note c = inf_cmp_cases [OF assms]
  have V: "0 \<le> dval BASE (val n)" by (rule limb.dval_nonneg [OF inf_okD(1) [OF assms]])
  have p: "pos n \<longleftrightarrow> 0 \<le> ival n" by (rule ival_ok_nonneg [OF assms])
  have i: "inf_ok (InfInt_int k)" "ival (InfInt_int k) = k" if "k = 2147483647 \<or> k = - 2147483648" for k
    using InfInt_int_exact [of k] that by auto
  have l: "inf_ok (InfInt_long k)" "ival (InfInt_long k) = k"
    if "k = 9223372036854775807 \<or> k = - 9223372036854775808" for k
    using InfInt_long_exact [of k] that by auto
  note u = InfInt_unsigned_exact
  have w: "(if pos n then s32 (dval BASE (val n)) else s32 (- dval BASE (val n))) = s32 (ival n)"
    "(if pos n then s64 (dval BASE (val n)) else s64 (- dval BASE (val n))) = s64 (ival n)"
    by (simp_all only: ival_def split: if_split) simp_all
  have ab: "dval BASE (val n) = \<bar>ival n\<bar>" using V by (simp add: ival_def)
  show "toInt n = (\<not> (- 2147483648 \<le> ival n \<and> ival n < 2147483648), s32 (ival n))"
    unfolding toInt_def Let_def horner_folds s32_uminus w by (auto simp: c i)
  show "toLong n = (\<not> (- 9223372036854775808 \<le> ival n \<and> ival n < 9223372036854775808), s64 (ival n))"
    unfolding toLong_def Let_def horner_folds s64_uminus w by (auto simp: c l)
  show "toUnsignedInt n = (\<not> (0 \<le> ival n \<and> ival n < 4294967296), u32 \<bar>ival n\<bar>)"
    unfolding toUnsignedInt_def horner_folds ab by (auto simp: c u p)
  show "toUnsignedLong n = (\<not> (0 \<le> ival n \<and> ival n < 18446744073709551616), u64 \<bar>ival n\<bar>)"
    unfolding toUnsignedLong_def horner_folds ab by (auto simp: c u p)
qed

end
