(* ===== verification/InfInt_Sqrt.thy ===== *)
theory InfInt_Sqrt
  imports InfInt_Conv
begin

text \<open>
  InfInt's integer square root (\<^verbatim>\<open>src/cross/include/InfInt.h\<close>): \<open>optimizeSqrtSearchBounds\<close>
  narrows the interval by the number of decimal digits, then a bisection runs.  The bisection
  is a \<open>partial_function\<close>; that it returns, and returns the floor of the root, is
  \<open>intSqrt_exact\<close>.  A non-positive number gives 0 (the message on \<open>cerr\<close> is not modelled).
\<close>

function hdn_loop :: "int \<Rightarrow> infint \<Rightarrow> infint" where
  "hdn_loop i hdn = (if i \<ge> 2 then hdn_loop (i - 1) (inf_mul_int_assign hdn 10) else hdn)"
  by pat_completeness auto
termination by (relation "measure (\<lambda>(i, _). nat i)") auto

declare hdn_loop.simps [simp del]

definition optimizeSqrtSearchBounds :: "infint \<Rightarrow> infint \<Rightarrow> infint \<Rightarrow> infint \<times> infint" where
  "optimizeSqrtSearchBounds n lo hi =
     (let hdn = hdn_loop (s32 (int (numberOfDigits n)) sdiv 2) (InfInt_int 1);
          lo' = (if inf_lt lo hdn then hdn else lo);
          hdn' = inf_mul_int_assign hdn 100;
          hi' = (if inf_gt hi hdn' then hdn' else hi)
      in (lo', hi'))"

partial_function (option) sqrt_loop :: "infint \<Rightarrow> infint \<Rightarrow> infint \<Rightarrow> infint option" where
  "sqrt_loop n lo hi =
     (case inf_div (inf_add hi lo) (InfInt_int 2) of
        None \<Rightarrow> None
      | Some mid \<Rightarrow>
          (let mid2 = inf_mul mid mid
           in if inf_eq mid2 n then Some mid
              else (let lo' = (if inf_lt mid2 n then mid else lo);
                        hi' = (if inf_lt mid2 n then hi else mid)
                    in if inf_lt lo' (inf_sub hi' (InfInt_int 1)) \<and> inf_neq mid2 n
                       then sqrt_loop n lo' hi' else Some lo')))"

definition intSqrt :: "infint \<Rightarrow> infint option" where
  "intSqrt n =
     (if inf_le n (InfInt_int 0) then Some (InfInt_int 0)
      else (case inf_div n (InfInt_int 2) of
              None \<Rightarrow> None
            | Some h \<Rightarrow>
                (let (lo, hi) = optimizeSqrtSearchBounds n (InfInt_int 0) (inf_add h (InfInt_int 1))
                 in sqrt_loop n lo hi)))"

section \<open>The bisection\<close>

lemma small_ints:
  assumes "k \<in> {0, 1, 2, 10, 100}"
  shows "inf_ok (InfInt_int k)" "ival (InfInt_int k) = k"
  using InfInt_int_exact [of k] assms by auto

lemma length_mono:
  assumes "inf_ok a" "inf_ok b" "0 \<le> ival a" "ival a \<le> ival b"
  shows "length (val a) \<le> length (val b)"
proof (rule ccontr)
  assume "\<not> length (val a) \<le> length (val b)"
  then have "dval BASE (val b) < dval BASE (val a)"
    using shorter_smaller [OF inf_okD(3) [OF assms(2)] inf_okD(3) [OF assms(1)]] by simp
  moreover have "pos a" "pos b"
    using ival_ok_nonneg [OF assms(1)] ival_ok_nonneg [OF assms(2)] assms(3,4) by auto
  ultimately have "ival b < ival a" by (simp add: ival_def)
  then show False using assms(4) by simp
qed

lemma half_exact:
  assumes "inf_ok a" "0 \<le> ival a"
  shows "\<exists>h. inf_div a (InfInt_int 2) = Some h \<and> inf_ok h \<and> ival h = ival a div 2"
proof -
  have "ival a sdiv 2 = ival a div 2" using assms(2) by (simp add: sdiv_nonneg)
  then show ?thesis
    using inf_div_exact(1) [OF assms(1) small_ints(1), of 2] small_ints(2) [of 2] by simp
qed

lemma sqrt_loop_exact:
  assumes "inf_ok n" "length (val n) < 2147483648" "inf_ok lo" "inf_ok hi" "0 \<le> ival lo"
    "ival hi \<le> ival n" "ival lo * ival lo \<le> ival n" "ival n < ival hi * ival hi" "ival lo < ival hi"
  shows "\<exists>r. sqrt_loop n lo hi = Some r \<and> inf_ok r \<and> 0 \<le> ival r \<and>
    ival r * ival r \<le> ival n \<and> ival n < (ival r + 1) * (ival r + 1)"
  using assms(3-)
proof (induction "nat (ival hi - ival lo)" arbitrary: lo hi rule: less_induct)
  case less
  have s: "inf_ok (inf_add hi lo)" "ival (inf_add hi lo) = ival hi + ival lo"
    using inf_add_exact [OF less.prems(2,1)] by simp_all
  obtain mid where mid: "inf_div (inf_add hi lo) (InfInt_int 2) = Some mid" "inf_ok mid"
      "ival mid = (ival hi + ival lo) div 2"
    using half_exact [OF s(1)] s(2) less.prems(3,7) by auto
  have m: "ival lo \<le> ival mid" "ival mid < ival hi" "0 \<le> ival mid" "ival mid \<le> ival n"
    using mid(3) less.prems(3,4,7) by auto
  have "length (val mid) < 2147483648"
    using length_mono [OF mid(2) assms(1) m(3,4)] assms(2) by simp
  note sq = inf_mul_exact [OF mid(2) mid(2) this]
  note c = inf_cmp_cases [OF sq(1) assms(1)]
  have unf: "sqrt_loop n lo hi =
      (if ival mid * ival mid = ival n then Some mid
       else (let lo' = (if ival mid * ival mid < ival n then mid else lo);
                 hi' = (if ival mid * ival mid < ival n then hi else mid)
             in if inf_lt lo' (inf_sub hi' (InfInt_int 1)) then sqrt_loop n lo' hi' else Some lo'))"
    by (subst sqrt_loop.simps) (simp add: mid(1) c sq(2) Let_def)
  show ?case
  proof (cases "ival mid * ival mid = ival n")
    case True
    have "ival n < (ival mid + 1) * (ival mid + 1)" using True m(3) by (simp add: algebra_simps)
    with True show ?thesis using unf mid(2) m(3) by auto
  next
    case False
    define lo' where "lo' = (if ival mid * ival mid < ival n then mid else lo)"
    define hi' where "hi' = (if ival mid * ival mid < ival n then hi else mid)"
    have ne: "ival lo \<noteq> ival mid" if "\<not> ival mid * ival mid < ival n"
      using that False less.prems(5) by auto
    have inv: "inf_ok lo'" "inf_ok hi'" "0 \<le> ival lo'" "ival hi' \<le> ival n"
        "ival lo' * ival lo' \<le> ival n" "ival n < ival hi' * ival hi'" "ival lo' < ival hi'"
      using less.prems mid(2) m ne False by (auto simp: lo'_def hi'_def)
    have d: "inf_lt lo' (inf_sub hi' (InfInt_int 1)) \<longleftrightarrow> ival lo' < ival hi' - 1"
      using inf_sub_exact [OF inv(2) small_ints(1), of 1] small_ints(2) [of 1]
        inf_cmp_cases(1) [OF inv(1)] by simp
    have u: "sqrt_loop n lo hi = (if ival lo' < ival hi' - 1 then sqrt_loop n lo' hi' else Some lo')"
      using unf False by (simp only: Let_def lo'_def [symmetric] hi'_def [symmetric] d if_False)
    show ?thesis
    proof (cases "ival lo' < ival hi' - 1")
      case True
      have "ival lo < ival hi - 1" using True m by (auto simp: lo'_def hi'_def split: if_splits)
      then have "ival lo < ival mid" using mid(3) by simp
      then have "nat (ival hi' - ival lo') < nat (ival hi - ival lo)"
        using m by (auto simp: lo'_def hi'_def)
      then show ?thesis using less.hyps [OF _ inv] u True by simp
    next
      case stop: False
      then have h: "ival hi' = ival lo' + 1" using inv(7) by simp
      have "ival n < (ival lo' + 1) * (ival lo' + 1)" using inv(6) unfolding h .
      then show ?thesis using u stop inv(1,3,5) by auto
    qed
  qed
qed

section \<open>The search bounds\<close>

lemma hdn_loop_exact:
  assumes "inf_ok h" "0 \<le> i"
  shows "inf_ok (hdn_loop i h) \<and> ival (hdn_loop i h) = ival h * 10 ^ nat (i - 1)"
  using assms
proof (induction i h rule: hdn_loop.induct)
  case (1 i h)
  show ?case
  proof (cases "2 \<le> i")
    case True
    have m: "inf_ok (inf_mul_int_assign h 10)" "ival (inf_mul_int_assign h 10) = ival h * 10"
      using inf_mul_int_exact [OF 1(2), of 10] by (simp_all add: inf_mul_int_assign_eq)
    have e: "nat (i - 1) = Suc (nat (i - 1 - 1))" using True by simp
    show ?thesis using 1(1) [OF True m(1)] m(2) True by (subst (1 2) hdn_loop.simps) (simp add: e)
  next
    case False
    then have "nat (i - 1) = 0" by simp
    with False 1(2) show ?thesis by (subst (1 2) hdn_loop.simps) simp
  qed
qed

lemma square_mono: "0 \<le> a \<Longrightarrow> a \<le> b \<Longrightarrow> a * a \<le> b * (b::int)"
  by (rule mult_mono) auto

lemma search_bounds:
  assumes "inf_ok n" "0 < ival n" "length (val n) < 238609294"
    "inf_ok h" "ival h = ival n div 2 + 1"
  shows "\<exists>lo hi. optimizeSqrtSearchBounds n (InfInt_int 0) h = (lo, hi) \<and> inf_ok lo \<and> inf_ok hi \<and>
    0 \<le> ival lo \<and> ival hi \<le> ival n \<and> ival lo * ival lo \<le> ival n \<and> 0 \<le> ival hi \<and>
    (ival n < ival hi * ival hi \<or> ival n = 1 \<and> ival lo = 1 \<and> ival hi = 1)"
proof -
  let ?nd = "numberOfDigits n"
  have nd: "0 < ?nd" "10 ^ (?nd - 1) \<le> ival n" "ival n < 10 ^ ?nd"
    using numberOfDigits_bounds [OF assms(1)] assms(2) by auto
  have "?nd \<le> (length (val n) - 1) * 9 + 9" by (simp add: numberOfDigits_def Let_def)
  then have "int ?nd < 2147483648" using assms(3) inf_okD(2) [OF assms(1)]
    by (cases "length (val n)") simp_all
  then have i: "s32 (int ?nd) sdiv 2 = int (?nd div 2)" by (simp add: s32_id sdiv_nonneg zdiv_int)
  define e where "e = ?nd div 2 - 1"
  define hdn where "hdn = hdn_loop (s32 (int ?nd) sdiv 2) (InfInt_int 1)"
  have ne: "nat (int (?nd div 2) - 1) = e" by (simp add: e_def)
  have hdn: "inf_ok hdn" "ival hdn = 10 ^ e"
    using hdn_loop_exact [OF small_ints(1), of 1 "int (?nd div 2)"] small_ints(2) [of 1]
    by (simp_all add: hdn_def i ne)
  have hdn': "inf_ok (inf_mul_int_assign hdn 100)" "ival (inf_mul_int_assign hdn 100) = 10 ^ e * 100"
    using inf_mul_int_exact [OF hdn(1), of 100] hdn(2) by (simp_all add: inf_mul_int_assign_eq)
  have "(10::int) ^ e * 10 ^ e = 10 ^ (2 * e)" by (simp add: power_add [symmetric] mult_2)
  also have "\<dots> \<le> 10 ^ (?nd - 1)" by (rule power_increasing) (auto simp: e_def)
  finally have low: "(10::int) ^ e * 10 ^ e \<le> ival n" using nd(2) by linarith
  have "ival n < 10 ^ (2 * e + 4)"
  proof -
    have "(10::int) ^ ?nd \<le> 10 ^ (2 * e + 4)" by (rule power_increasing) (auto simp: e_def)
    then show ?thesis using nd(3) by linarith
  qed
  also have "(10::int) ^ (2 * e + 4) = (10 ^ e * 100) * (10 ^ e * 100)"
  proof -
    have "2 * e + 4 = (e + 2) + (e + 2)" by simp
    then have "(10::int) ^ (2 * e + 4) = 10 ^ (e + 2) * 10 ^ (e + 2)" by (simp only: power_add)
    then show ?thesis by (simp add: power_add)
  qed
  finally have high: "ival n < (10 ^ e * 100) * (10 ^ e * 100)" .
  have half: "ival n < ival h * ival h" if "ival n \<noteq> 1"
  proof -
    let ?m = "ival n div 2"
    have "ival n \<le> 2 * ?m + 1" "1 \<le> ?m" using assms(2) that by auto
    moreover have "1 * ?m \<le> ?m * ?m" using \<open>1 \<le> ?m\<close> by (intro mult_right_mono) auto
    moreover have "(?m + 1) * (?m + 1) = ?m * ?m + 2 * ?m + 1" by (simp add: algebra_simps)
    ultimately show ?thesis unfolding assms(5) by linarith
  qed
  define lo where "lo = (if inf_lt (InfInt_int 0) hdn then hdn else InfInt_int 0)"
  define hi where "hi = (if inf_gt h (inf_mul_int_assign hdn 100) then inf_mul_int_assign hdn 100 else h)"
  have lo: "lo = hdn"
    using inf_cmp_cases(1) [OF small_ints(1) hdn(1), of 0] small_ints(2) [of 0] hdn(2)
    by (simp add: lo_def)
  have hle: "ival h \<le> ival n" using assms(2,5) by auto
  have gt: "inf_gt h (inf_mul_int_assign hdn 100) \<longleftrightarrow> ival h > 10 ^ e * 100"
    using inf_cmp_cases(3) [OF assms(4) hdn'(1)] hdn'(2) by simp
  have hcases: "inf_ok hi" "ival hi = ival h \<or> ival hi = 10 ^ e * 100 \<and> 10 ^ e * 100 < ival h"
    using assms(4) hdn' by (simp_all add: hi_def gt)
  have h0: "0 < ival h" using assms(2,5) by simp
  have hi: "ival hi \<le> ival n" "0 \<le> ival hi" using hcases(2) hle h0 by auto
  have sq: "ival n < ival hi * ival hi \<or> ival n = 1 \<and> ival lo = 1 \<and> ival hi = 1"
  proof (cases "ival n = 1")
    case True
    then have "numberOfDigits n = 1" using nd(1,2) power_increasing [of 1 "?nd - 1" "10::int"] by (cases "?nd - 1") auto
    then have e: "e = 0" by (simp add: e_def)
    have "ival h = 1" using True by (simp add: assms(5))
    then show ?thesis using True hcases(2) hdn(2) e by (simp add: lo)
  next
    case False
    then show ?thesis using hcases(2) high half by auto
  qed
  have "optimizeSqrtSearchBounds n (InfInt_int 0) h = (lo, hi)"
    by (simp add: optimizeSqrtSearchBounds_def lo_def hi_def hdn_def Let_def)
  moreover have "ival lo * ival lo \<le> ival n" "inf_ok lo" "0 \<le> ival lo" using low hdn by (simp_all add: lo)
  ultimately show ?thesis using hi hcases(1) sq by blast
qed

lemma intSqrt_exact:
  assumes "inf_ok n" "length (val n) < 238609294" "0 < ival n"
  shows "\<exists>r. intSqrt n = Some r \<and> inf_ok r \<and> 0 \<le> ival r \<and>
    ival r * ival r \<le> ival n \<and> ival n < (ival r + 1) * (ival r + 1)"
proof -
  have z: "\<not> inf_le n (InfInt_int 0)"
    using inf_cmp_cases(2) [OF assms(1) small_ints(1), of 0] small_ints(2) [of 0] assms(3) by simp
  obtain q where q: "inf_div n (InfInt_int 2) = Some q" "inf_ok q" "ival q = ival n div 2"
    using half_exact [OF assms(1)] assms(3) by auto
  define h where "h = inf_add q (InfInt_int 1)"
  have h: "inf_ok h" "ival h = ival n div 2 + 1"
    using inf_add_exact [OF q(2) small_ints(1), of 1] q(3) small_ints(2) [of 1] by (simp_all add: h_def)
  from search_bounds [OF assms(1,3,2) h] obtain lo hi where
    b: "optimizeSqrtSearchBounds n (InfInt_int 0) h = (lo, hi)" "inf_ok lo" "inf_ok hi" "0 \<le> ival lo"
      "ival hi \<le> ival n" "ival lo * ival lo \<le> ival n" "0 \<le> ival hi"
    and c: "ival n < ival hi * ival hi \<or> ival n = 1 \<and> ival lo = 1 \<and> ival hi = 1" by blast
  have eq: "intSqrt n = sqrt_loop n lo hi"
    using z q(1) b(1) by (simp add: intSqrt_def h_def [symmetric])
  have len: "length (val n) < 2147483648" using assms(2) by simp
  from c show ?thesis
  proof
    assume sq: "ival n < ival hi * ival hi"
    have "ival lo < ival hi"
    proof (rule ccontr)
      assume "\<not> ival lo < ival hi"
      then have "ival hi * ival hi \<le> ival lo * ival lo" using b(7) by (intro square_mono) simp_all
      then show False using b(6) sq by linarith
    qed
    then show ?thesis unfolding eq by (rule sqrt_loop_exact [OF assms(1) len b(2-6) sq])
  next
    assume one: "ival n = 1 \<and> ival lo = 1 \<and> ival hi = 1"
    have s: "inf_ok (inf_add hi lo)" "ival (inf_add hi lo) = 2"
      using inf_add_exact [OF b(3,2)] one by simp_all
    obtain mid where mid: "inf_div (inf_add hi lo) (InfInt_int 2) = Some mid" "inf_ok mid" "ival mid = 1"
      using half_exact [OF s(1)] s(2) by auto
    have "mid = n" using inf_ok_unique [OF mid(2) assms(1)] mid(3) one by simp
    then have m2: "inf_eq (inf_mul mid mid) n"
      using inf_mul_exact [OF assms(1,1) len] inf_cmp_cases(5) [OF _ assms(1)] one by simp
    have "sqrt_loop n lo hi = Some mid"
      by (subst sqrt_loop.simps) (simp add: mid(1) m2)
    then show ?thesis unfolding eq using mid one by simp
  qed
qed

section \<open>Properties of InfInt's conversions and root\<close>

text \<open>
  the integer square root of a well-formed positive number returns, and gives the
  largest number whose square is not above it.
\<close>

theorem infint_sqrt:
  assumes "inf_ok n" "length (val n) < 238609294" "0 < ival n"
  shows "\<exists>r. intSqrt n = Some r \<and> inf_ok r \<and> 0 \<le> ival r \<and>
    ival r * ival r \<le> ival n \<and> ival n < (ival r + 1) * (ival r + 1)"
  by (rule intSqrt_exact [OF assms])

lemma infint_sqrt_witness:
  "\<exists>r. intSqrt \<lparr>pos = True, val = [24]\<rparr> = Some r \<and> ival r = 4"
proof -
  let ?n = "\<lparr>pos = True, val = [24]\<rparr>"
  have "inf_ok ?n" "ival ?n = 24" by (simp_all add: inf_ok_def limbs_ok_def ival_def)
  then obtain r where r: "intSqrt ?n = Some r" "0 \<le> ival r" "ival r * ival r \<le> 24"
      "24 < (ival r + 1) * (ival r + 1)"
    using infint_sqrt [of ?n] by auto
  have "ival r < 5" using r(2,3) mult_mono [of 5 "ival r" 5 "ival r"] by linarith
  moreover have "4 \<le> ival r"
  proof (rule ccontr)
    assume "\<not> 4 \<le> ival r"
    then have "(ival r + 1) * (ival r + 1) \<le> 4 * 4" using r(2) by (intro mult_mono) auto
    then show False using r(4) by simp
  qed
  ultimately show ?thesis using r(1) by auto
qed

text \<open>
  C36: what \<open>toString\<close> writes is read back by \<open>fromString\<close> as the same number, and a word
  of decimal digits, leading zeros included, is read as the number it denotes.
\<close>

theorem infint_print_parse:
  assumes "inf_ok n" "length (toString n) < 2147483648"
    "list_all isdigit s" "s \<noteq> []" "length s < 2147483648"
  shows "fromString (toString n) = Some n \<and>
    (\<exists>m. fromString s = Some m \<and> inf_ok m \<and> ival m = dec_value s)"
  using parse_print [OF assms(1,2)] fromString_digits [OF assms(3-5)] by blast

lemma infint_print_parse_witness:
  "fromString ''-1000000007'' = Some \<lparr>pos = False, val = [7, 1]\<rparr>"
proof -
  let ?n = "\<lparr>pos = False, val = [7, 1]\<rparr>"
  have t: "toString ?n = ''-1000000007''"
    by code_simp
  have "inf_ok ?n" by (simp add: inf_ok_def limbs_ok_def)
  moreover have "list_all isdigit ''0''" by (simp add: isdigit_def)
  ultimately show ?thesis
    using infint_print_parse [of ?n "''0''"] by (simp add: t)
qed

text \<open>
  reading has three corners.  The empty word and a lone minus sign leave no limb, so that
  \<open>val.back()\<close> is undefined; a minus sign nine places before the end gives a negative zero,
  which is not a well-formed number and is unequal to 0; and leading zeros that fill the top
  limb lose the sign.
\<close>

theorem infint_parse_corners:
  "fromString '''' = None \<and> fromString ''-'' = None \<and>
   (\<exists>z. fromString ''-000000000'' = Some z \<and> ival z = 0 \<and> \<not> inf_ok z \<and> \<not> inf_eq z (InfInt_int 0)) \<and>
   (\<exists>p. fromString ''-00000000000000001'' = Some p \<and> ival p = 1)"
proof -
  have short: "parse '''' = (True, [])" "parse ''-'' = (False, [])" by (simp_all add: parse_short)
  have chunk: "parse ''-000000000'' = apsnd ((#) (atoi ''000000000'')) (parse ''-'')"
    "parse ''-00000000000000001'' = apsnd ((#) (atoi ''000000001'')) (apsnd ((#) (atoi ''-00000000'')) (parse ''''))"
    using parse_chunk [of "''000000000''" "''-''"] parse_chunk [of "''000000001''" "''-00000000''"]
      parse_chunk [of "''-00000000''" "''''"] by simp_all
  have at: "atoi ''000000000'' = 0" "atoi ''000000001'' = 1" "atoi ''-00000000'' = 0"
    by (simp_all add: atoi_def isspace_def isdigit_def dec_value_def digit_val_def)
  have z0: "InfInt_int 0 = \<lparr>pos = True, val = [0]\<rparr>"
    by (simp add: InfInt_int_def Let_def limbs_int.simps my_div_def s32_def signed_divide_int_def)
  have "fromString ''-000000000'' = Some \<lparr>pos = False, val = [0]\<rparr>"
    by (simp add: fromString_parse chunk short at back_sign_def correct_def removeLeadingZeros_def)
  moreover have "fromString ''-00000000000000001'' = Some \<lparr>pos = True, val = [1]\<rparr>"
    by (simp add: fromString_parse chunk short at back_sign_def correct_def removeLeadingZeros_def)
  ultimately show ?thesis
    by (simp add: fromString_parse short z0 ival_def inf_ok_def inf_eq_def)
qed

text \<open>
  \<open>numberOfDigits\<close> is the length of the written magnitude, and \<open>digitAt\<close> selects its
  decimal digits from the least significant one, with -1 out of range.
\<close>

theorem infint_digits:
  assumes "inf_ok n"
  shows "length (toString n) = numberOfDigits n + (if pos n then 0 else 1) \<and>
    digitAt n i = (if i < numberOfDigits n then \<bar>ival n\<bar> div 10 ^ i mod 10 else - 1) \<and>
    (ival n \<noteq> 0 \<longrightarrow> 10 ^ (numberOfDigits n - 1) \<le> \<bar>ival n\<bar> \<and> \<bar>ival n\<bar> < 10 ^ numberOfDigits n)"
  using digitAt_value [OF assms] numberOfDigits_bounds [OF assms] numberOfDigits_magnitude [OF assms]
    toString_magnitude [OF inf_okD(2) [OF assms]]
  by simp

lemma infint_digits_witness:
  "digitAt \<lparr>pos = False, val = [7, 12]\<rparr> 9 = 2 \<and> digitAt \<lparr>pos = False, val = [7, 12]\<rparr> 11 = - 1"
  using infint_digits [of "\<lparr>pos = False, val = [7, 12]\<rparr>" 9] infint_digits [of "\<lparr>pos = False, val = [7, 12]\<rparr>" 11]
  by (simp add: inf_ok_def limbs_ok_def ival_def numberOfDigits_def)

text \<open>
  a number built from a C integer holds that integer, and converting back gives it; a
  conversion reports out of range exactly when the number does not fit, and then returns it
  reduced modulo the width (for the unsigned types the magnitude, so a negative number loses
  its sign).
\<close>

theorem infint_machine_roundtrip:
  assumes "- 2147483648 \<le> i" "i < 2147483648"
    "- 9223372036854775808 \<le> l" "l < 9223372036854775808" "u < 18446744073709551616" "inf_ok n"
  shows "toInt (InfInt_int i) = (False, i) \<and> toLong (InfInt_long l) = (False, l) \<and>
    toUnsignedLong (InfInt_unsigned u) = (False, int u) \<and>
    snd (toInt n) = s32 (ival n) \<and> (fst (toInt n) \<longleftrightarrow> s32 (ival n) \<noteq> ival n) \<and>
    snd (toLong n) = s64 (ival n) \<and> (fst (toLong n) \<longleftrightarrow> s64 (ival n) \<noteq> ival n) \<and>
    snd (toUnsignedInt n) = u32 \<bar>ival n\<bar> \<and> snd (toUnsignedLong n) = u64 \<bar>ival n\<bar>"
proof -
  have f32: "s32 x \<noteq> x \<longleftrightarrow> \<not> (- 2147483648 \<le> x \<and> x < 2147483648)" for x
    using s32_range [of x] s32_id [of x] by auto
  have f64: "s64 x \<noteq> x \<longleftrightarrow> \<not> (- 9223372036854775808 \<le> x \<and> x < 9223372036854775808)" for x
    using s64_range [of x] s64_id [of x] by auto
  show ?thesis
    unfolding f32 f64
    using to_machine [OF assms(6)] to_machine(1) [OF InfInt_int_exact(1) [OF assms(1,2)]]
      to_machine(2) [OF InfInt_long_exact(1) [OF assms(3,4)]]
      to_machine(4) [OF InfInt_unsigned_exact(1), of u] assms
    by (simp add: InfInt_int_exact InfInt_long_exact InfInt_unsigned_exact s32_id s64_id u64_id)
qed

lemma infint_machine_roundtrip_witness:
  "toLong (InfInt_long (- 9223372036854775808)) = (False, - 9223372036854775808) \<and>
   snd (toInt \<lparr>pos = True, val = [294967296, 4]\<rparr>) = 0"
proof -
  let ?n = "\<lparr>pos = True, val = [294967296, 4]\<rparr>"
  have "inf_ok ?n" "ival ?n = 4294967296" by (simp_all add: inf_ok_def limbs_ok_def ival_def)
  then show ?thesis
    using infint_machine_roundtrip [of 0 "- 9223372036854775808" 0 ?n] by (simp add: s32_def)
qed

end
