(* ===== verification/Header_Verify.thy ===== *)
theory Header_Verify
  imports Epoch_Cache RLP_Encoding InfInt_Sqrt
begin

text \<open>
  Verification of Ethereum block headers, \<open>headerHash\<close>, \<open>verifyBlockHeader\<close> and
  \<open>verifyBlockHeader_v2\<close> of \<^verbatim>\<open>src/cross/plugin/cross_plugin.cpp\<close>, on the records of
  \<^verbatim>\<open>src/cross/include/cross_struct.hpp\<close>.  The parts they compose are the caches
  (\<open>Epoch_Cache\<close>), the hash (\<open>Ethash\<close>), the encoding (\<open>RLP_Encoding\<close>), and the conversion and
  arithmetic of the target (\<open>Base_Converter\<close>, \<open>InfInt\<close>); the last is used through the locale
  \<open>bignum\<close>.  An exception is the left of a sum.
\<close>

section \<open>Data\<close>

record block_header =
  hash :: "byte list"
  parent_hash :: string
  uncle_hash :: string
  coinbase :: string
  state_root_hash :: string
  transaction_root_hash :: string
  receipt_root_hash :: string
  blooms :: string
  difficulty :: string
  number :: string
  gas_limit :: string
  gas_used :: string
  timestamp :: string
  extra_hash :: string
  mix_hash :: string
  nonce :: string

record nonce_header =
  n_number :: string
  n_difficulty :: string
  n_mix_hash :: string
  n_nonce :: string
  n_hash_without_nonce :: string

datatype verify_error =
    Invalid_argument \<comment> \<open>\<open>stoul\<close>: no digits\<close>
  | Out_of_range \<comment> \<open>\<open>stoul\<close>: the number does not fit\<close>
  | Length_error \<comment> \<open>the insertion of \<open>hex_to_sha256\<close>\<close>
  | Foreign_character \<comment> \<open>the converter\<close>
  | Undefined \<comment> \<open>outside what the code defines\<close>

definition bind_result :: "'e + 'a \<Rightarrow> ('a \<Rightarrow> 'e + 'b) \<Rightarrow> 'e + 'b" where
  "bind_result r f = (case r of Inl e \<Rightarrow> Inl e | Inr x \<Rightarrow> f x)"

lemma bind_result_simps [simp]: "bind_result (Inl e) f = Inl e" "bind_result (Inr x) f = f x"
  by (simp_all add: bind_result_def)

definition from_option :: "'e \<Rightarrow> 'a option \<Rightarrow> 'e + 'a" where
  "from_option e x = (case x of None \<Rightarrow> Inl e | Some y \<Rightarrow> Inr y)"

lemma from_option_simps [simp]: "from_option e None = Inl e" "from_option e (Some x) = Inr x"
  by (simp_all add: from_option_def)

section \<open>\<open>std::stoul\<close> in base 16\<close>

text \<open>
  Leading space, an optional sign and an optional prefix are skipped; the digits before the
  first other character are read; a minus sign negates modulo \<open>2^64\<close>.
\<close>

definition hex_digit :: "char \<Rightarrow> nat option" where
  "hex_digit c =
     (let k = of_char c :: nat
      in if 48 \<le> k \<and> k \<le> 57 then Some (k - 48)
         else if 97 \<le> k \<and> k \<le> 102 then Some (k - 87)
         else if 65 \<le> k \<and> k \<le> 70 then Some (k - 55) else None)"

definition is_xdigit :: "char \<Rightarrow> bool" where
  "is_xdigit c \<longleftrightarrow> hex_digit c \<noteq> None"

definition hex_number :: "string \<Rightarrow> nat" where
  "hex_number s = foldl (\<lambda>a c. 16 * a + the (hex_digit c)) 0 s"

fun skip_prefix :: "string \<Rightarrow> string" where
  "skip_prefix (z # x # d # s) =
     (if z = CHR ''0'' \<and> (x = CHR ''x'' \<or> x = CHR ''X'') \<and> is_xdigit d then d # s else z # x # d # s)"
| "skip_prefix s = s"

fun skip_sign :: "string \<Rightarrow> bool \<times> string" where
  "skip_sign (c # s) = (if c = CHR ''-'' then (True, s) else if c = CHR ''+'' then (False, s) else (False, c # s))"
| "skip_sign [] = (False, [])"

definition stoul16 :: "string \<Rightarrow> verify_error + word64" where
  "stoul16 str =
     (let (neg, s) = skip_sign (dropWhile isspace str);
          ds = takeWhile is_xdigit (skip_prefix s)
      in if ds = [] then Inl Invalid_argument
         else if hex_number ds \<ge> 2 ^ 64 then Inl Out_of_range
         else Inr (if neg then - of_nat (hex_number ds) else of_nat (hex_number ds)))"

section \<open>The header's hash\<close>

definition header_fields :: "block_header \<Rightarrow> string list" where
  "header_fields header =
     [parent_hash header, uncle_hash header, coinbase header, state_root_hash header,
      transaction_root_hash header, receipt_root_hash header, blooms header, difficulty header,
      number header, gas_limit header, gas_used header, timestamp header, extra_hash header]"

definition header_rlp :: "block_header \<Rightarrow> string" where
  "header_rlp header =
     (let result = foldl (\<lambda>result field. result @ rlp_encode field encode_hex) [] (header_fields header)
      in generate_array_header result @ result)"

definition headerHash :: "block_header \<Rightarrow> byte list" where
  "headerHash header = hash_into (replicate 32 0) 0 (keccak_256 32 (map chr_byte (header_rlp header)))"

section \<open>Verification\<close>

definition convert_number :: "string \<Rightarrow> verify_error + infint" where
  "convert_number s =
     (case HexToDecimalConverter of
        Returns hex2dec \<Rightarrow>
          (case Convert hex2dec s of
             Returns r \<Rightarrow> from_option Undefined (InfInt_string r)
           | Throws e \<Rightarrow> Inl Foreign_character
           | Diverges \<Rightarrow> Inl Undefined)
      | _ \<Rightarrow> Inl Undefined)"

definition below_target :: "string \<Rightarrow> byte list \<Rightarrow> verify_error + bool" where
  "below_target diff_text pow =
     bind_result (convert_number (replicate 64 (CHR ''f''))) (\<lambda>big256.
     bind_result (convert_number diff_text) (\<lambda>diff.
     bind_result (convert_number (sha256_to_hex pow)) (\<lambda>pow_int.
     bind_result (from_option Undefined (inf_div big256 diff)) (\<lambda>target.
       Inr (if inf_gt pow_int target then False else True)))))"

text \<open>What both functions do once they have the cache and the hash to mix in.\<close>

definition verify_pow ::
    "word64 \<Rightarrow> word32 list \<Rightarrow> byte list \<Rightarrow> string \<Rightarrow> string \<Rightarrow> string \<Rightarrow> verify_error + bool" where
  "verify_pow epoch cache hash_without_nonce nonce_text mix_text diff_text =
     bind_result (stoul16 nonce_text) (\<lambda>nonce.
     bind_result (from_option Length_error (hex_to_sha256 mix_text)) (\<lambda>mix_digest.
     bind_result (from_option Undefined (hashimoto (unat epoch) cache hash_without_nonce nonce)) (\<lambda>(digest, pow).
       if \<not> hash_256_eq digest mix_digest then Inr False else below_target diff_text pow)))"

definition verifyBlockHeader :: "'b epoch_state \<Rightarrow> block_header \<Rightarrow> verify_error + bool" where
  "verifyBlockHeader s header =
     bind_result (stoul16 (number header)) (\<lambda>block_number.
       let epoch = block_number div of_int BLOCKS_PER_EPOCH
       in case find_cache epoch s of
            None \<Rightarrow> Inr False
          | Some cache \<Rightarrow>
              verify_pow epoch cache (headerHash header) (nonce header) (mix_hash header) (difficulty header))"

definition verifyBlockHeader_v2 :: "'b epoch_state \<Rightarrow> nonce_header \<Rightarrow> verify_error + bool" where
  "verifyBlockHeader_v2 s header =
     bind_result (stoul16 (n_number header)) (\<lambda>block_number.
       let epoch = block_number div of_int BLOCKS_PER_EPOCH
       in case find_cache epoch s of
            None \<Rightarrow> Inr False
          | Some cache \<Rightarrow>
              bind_result (from_option Length_error (hex_to_sha256 (n_hash_without_nonce header))) (\<lambda>hash_without_nonce.
                verify_pow epoch cache hash_without_nonce (n_nonce header) (n_mix_hash header) (n_difficulty header)))"

section \<open>The arithmetic of the target, as an interface\<close>

locale bignum =
  fixes parse :: "string \<Rightarrow> 'i option"
    and divide :: "'i \<Rightarrow> 'i \<Rightarrow> 'i option"
    and greater :: "'i \<Rightarrow> 'i \<Rightarrow> bool"
    and number_of :: "'i \<Rightarrow> int"
    and valid :: "'i \<Rightarrow> bool"
  assumes parse_ok: "canonical decimalSet r \<Longrightarrow> length r < 2147483648 \<Longrightarrow>
      \<exists>n. parse r = Some n \<and> valid n \<and> number_of n = sval decimalSet r"
    and divide_ok: "valid a \<Longrightarrow> valid b \<Longrightarrow> 0 \<le> number_of a \<Longrightarrow> 0 \<le> number_of b \<Longrightarrow>
      \<exists>q. divide a b = Some q \<and> valid q \<and> number_of q = number_of a div number_of b"
    and greater_ok: "valid a \<Longrightarrow> valid b \<Longrightarrow> greater a b \<longleftrightarrow> number_of a > number_of b"
begin

lemma target_test:
  assumes "canonical decimalSet m" "canonical decimalSet d" "canonical decimalSet p"
    "length m < 2147483648" "length d < 2147483648" "length p < 2147483648"
  shows "\<exists>x y z q. parse m = Some x \<and> parse d = Some y \<and> parse p = Some z \<and> divide x y = Some q \<and>
    (greater z q \<longleftrightarrow> sval decimalSet p > sval decimalSet m div sval decimalSet d)"
proof -
  have dec: "charset decimalSet" by (rule decimal_digits.charset_axioms)
  obtain x y z where n: "parse m = Some x" "valid x" "number_of x = sval decimalSet m"
      "parse d = Some y" "valid y" "number_of y = sval decimalSet d"
      "parse p = Some z" "valid z" "number_of z = sval decimalSet p"
    using parse_ok assms by meson
  obtain q where "divide x y = Some q" "valid q" "number_of q = number_of x div number_of y"
    using divide_ok [OF n(2,5)] n(3,6) charset.sval_bounds(1) [OF dec] by auto
  then show ?thesis using n greater_ok by auto
qed

end

lemma decimal_isdigit: "set r \<subseteq> set decimalSet \<Longrightarrow> list_all isdigit r"
  by (auto simp: decimalSet_def isdigit_def list_all_iff)

lemma digit_index: "c \<in> set decimalSet \<Longrightarrow> char_index decimalSet c = digit_val c"
proof -
  have "list_all (\<lambda>c. char_index decimalSet c = digit_val c) decimalSet" by code_simp
  then show "c \<in> set decimalSet \<Longrightarrow> char_index decimalSet c = digit_val c" by (simp add: list_all_iff)
qed

lemma sval_decimal: "set r \<subseteq> set decimalSet \<Longrightarrow> sval decimalSet r = dec_value r"
proof -
  assume "set r \<subseteq> set decimalSet"
  then have "map (char_index decimalSet) r = map digit_val r" by (intro map_cong) (auto simp: digit_index)
  moreover have "int (length decimalSet) = 10" by (simp add: decimalSet_def)
  ultimately show ?thesis by (simp only: sval_def dec_value_def)
qed

interpretation inf: bignum InfInt_string inf_div inf_gt ival inf_ok
proof
  fix r assume r: "canonical decimalSet r" "length r < 2147483648"
  then have "set r \<subseteq> set decimalSet" "r \<noteq> []" by (simp_all add: canonical_def)
  then show "\<exists>n. InfInt_string r = Some n \<and> inf_ok n \<and> ival n = sval decimalSet r"
    using fromString_digits [OF decimal_isdigit _ r(2)] by (simp add: InfInt_string_def sval_decimal)
next
  fix a b assume ab: "inf_ok a" "inf_ok b" "0 \<le> ival a" "0 \<le> ival b"
  show "\<exists>q. inf_div a b = Some q \<and> inf_ok q \<and> ival q = ival a div ival b"
  proof (cases "ival b = 0")
    case True
    then have "inf_div a b = Some (InfInt_int 0)" using ab(2) eq_zero by (simp add: inf_div_def)
    then show ?thesis using True small_ints by auto
  next
    case False
    then show ?thesis using inf_div_exact(1) [OF ab(1,2) False] ab(3,4) by (auto simp: trunc_div)
  qed
qed (simp add: inf_cmp_cases(3))

section \<open>The target\<close>

lemma hex_converter: "HexToDecimalConverter = Returns \<lparr>sourceBaseSet = hexSet, targetBaseSet = decimalSet\<rparr>"
  by (simp add: HexToDecimalConverter_def BaseConverter_def hexSet_def decimalSet_def)

lemma converted:
  assumes "set s \<subseteq> set hexSet" "length s < 1073741824"
  obtains r where "convert_number s = from_option Undefined (InfInt_string r)" "canonical decimalSet r"
    "sval decimalSet r = sval hexSet s" "length r < 2147483648"
proof -
  obtain r where r: "Convert \<lparr>sourceBaseSet = hexSet, targetBaseSet = decimalSet\<rparr> s = Returns r"
      "canonical decimalSet r" "sval decimalSet r = sval hexSet s"
    using convert_exact [OF hex_digits.charset_axioms decimal_digits.charset_axioms assms(1)] by blast
  have "length r < 2147483648"
  proof (cases "r = [decimalSet ! 0]")
    case False
    have "(10 :: int) ^ (length r - 1) \<le> sval hexSet s"
      using decimal_digits.canonical_least [OF r(2) False] r(3) by (simp add: decimalSet_def)
    also have "\<dots> < 16 ^ length s" using hex_digits.sval_bounds(2) [of s] by (simp add: hexSet_def)
    also have "\<dots> \<le> 100 ^ length s" by (rule power_mono) simp_all
    also have "\<dots> = (10 :: int) ^ (2 * length s)" by (simp add: power_mult)
    finally have "length r - 1 < 2 * length s" by (rule power_less_imp_less_exp [rotated]) simp
    then show ?thesis using assms(2) by linarith
  qed simp
  moreover have "convert_number s = from_option Undefined (InfInt_string r)"
    by (simp add: convert_number_def hex_converter r(1))
  ultimately show ?thesis using that r(2,3) by blast
qed

lemma convert_foreign: "\<not> set s \<subseteq> set hexSet \<Longrightarrow> convert_number s = Inl Foreign_character"
  using convert_throws [OF hex_digits.charset_axioms decimal_digits.charset_axioms]
  by (simp add: convert_number_def hex_converter)

lemma sval_max: "sval hexSet (replicate 64 (CHR ''f'')) = 2 ^ 256 - 1"
  by code_simp

lemma below_target_value:
  assumes "length pow = 32" "length d < 1073741824"
  shows "below_target d pow =
    (if set d \<subseteq> set hexSet then Inr (be_value pow \<le> (2 ^ 256 - 1) div sval hexSet d) else Inl Foreign_character)"
proof -
  have "set (replicate 64 (CHR ''f'')) \<subseteq> set hexSet" by (simp add: hexSet_def)
  then obtain m where m: "convert_number (replicate 64 (CHR ''f'')) = from_option Undefined (InfInt_string m)"
      "canonical decimalSet m" "sval decimalSet m = 2 ^ 256 - 1" "length m < 2147483648"
    using converted [of "replicate 64 (CHR ''f'')"] sval_max by auto
  obtain x where x: "InfInt_string m = Some x" using inf.parse_ok [OF m(2,4)] by blast
  show ?thesis
  proof (cases "set d \<subseteq> set hexSet")
    case True
    obtain e where e: "convert_number d = from_option Undefined (InfInt_string e)"
        "canonical decimalSet e" "sval decimalSet e = sval hexSet d" "length e < 2147483648"
      by (rule converted [OF True assms(2)])
    have "set (to_hex pow) \<subseteq> set hexSet" "length (to_hex pow) < 1073741824"
      using to_hex_digits [of pow] assms(1) by simp_all
    then obtain p where p: "convert_number (to_hex pow) = from_option Undefined (InfInt_string p)"
        "canonical decimalSet p" "sval decimalSet p = be_value pow" "length p < 2147483648"
      using converted sval_to_hex by metis
    from inf.target_test [OF m(2) e(2) p(2) m(4) e(4) p(4)] show ?thesis
      using m(1,3) e(1,3) p(1,3) True by (auto simp: below_target_def sha256_to_hex_def not_less)
  next
    case False
    then show ?thesis using m(1) x by (simp add: below_target_def convert_foreign)
  qed
qed

section \<open>The hash of a header\<close>

definition field_bytes :: "string \<Rightarrow> string" where
  "field_bytes s = map byte_chr (from_hex s (length s))"

definition header_item :: "block_header \<Rightarrow> rlp_arg" where
  "header_item h = Arg_vec (map (\<lambda>f. Arg_str (field_bytes f)) (header_fields h))"

lemma foldl_append_concat: "foldl (\<lambda>r f. r @ g f) acc fs = acc @ concat (map g fs)"
  by (induction fs arbitrary: acc) simp_all

lemma header_rlp_item: "header_rlp h = rlp_encode_arg encode_utf8 (header_item h)"
proof -
  have "rlp_encode f encode_hex = rlp_encode (field_bytes f) encode_utf8" for f
    by (simp add: rlp_encode_def field_bytes_def)
  then show ?thesis by (simp add: header_rlp_def header_item_def foldl_append_concat o_def)
qed

lemma headerHash_digest: "headerHash h = H256 (map chr_byte (header_rlp h))"
  by (simp add: headerHash_def hash_into_digest put_whole k256.length_digest)

lemma length_headerHash [simp]: "length (headerHash h) = 32"
  by (simp add: headerHash_digest k256.length_digest)

section \<open>The proof of work\<close>

definition epoch_rows :: "nat \<Rightarrow> word32 list list" where
  "epoch_rows e = map (words 16) (spec_cache (nat (datasetSizes ! e) div 64) ((H256 ^^ e) (replicate 32 0)))"

definition ethash :: "nat \<Rightarrow> byte list \<Rightarrow> word64 \<Rightarrow> byte list \<times> byte list" where
  "ethash e = spec_hashimoto (nat (cacheSizes ! e)) (\<lambda>j. spec_item (epoch_rows e) (of_nat j))"

lemma ethash_lengths: "length (fst (ethash e h k)) = 32" "length (snd (ethash e h k)) = 32"
  using spec_hashimoto_lengths by (metis ethash_def prod.collapse)+

lemma cached_hashimoto:
  assumes "caches_ok s" "find_cache e s = Some c" "length h = 32"
  shows "hashimoto (unat e) c h k = Some (ethash (unat e) h k)"
proof -
  have g: "generate_cache e = Some c" "e < 2048" using find_cache_ok(1) [OF assms(1,2)] by auto
  note b = generate_cache_block [OF g(2)]
  obtain n where n: "table_at datasetSizes (unat e) = Some (n * 64)" "0 < n" "n * 64 < 2 ^ 29" "n = nat (datasetSizes ! unat e) div 64"
    by (rule dataset_rows [OF b(2)])
  have q: "unat e * 30000 div 30000 = unat e" by simp
  have "gencache (unat e * 30000) = Some (concat (map (words 16) (spec_cache n (genseed (unat e * 30000)))))"
    by (rule gencache_spec) (use n b(2) in simp_all)
  then have "c = concat (epoch_rows (unat e))" "gencache (unat e * 30000) = Some c"
    using g(1) b(1) by (simp_all add: epoch_rows_def genseed_digest n(4))
  moreover obtain C where "c = concat C" "rows_ok 16 C" "length C = n"
    using gencache_rows [OF calculation(2)] unfolding q n(4) by blast
  moreover have "rows_ok 16 (epoch_rows (unat e))" by (simp add: epoch_rows_def rows_ok_def)
  moreover have "length (epoch_rows (unat e)) = n"
    using length_rows [OF calculation(4)] length_rows [OF calculation(6)] calculation(1,3,5) by simp
  ultimately have "lookup (unat e) j c = Some (spec_item (epoch_rows (unat e)) j)" for j
    using lookup_spec [OF n(1,2)] by simp
  then show ?thesis unfolding ethash_def by (rule hashimoto_spec [OF b(2)]) (simp_all add: assms(3))
qed

lemma be_value_inj:
  assumes "length a = length b" "be_value a = be_value b"
  shows "a = b"
proof -
  have ok: "digits_ok 256 (rev (map uint bs))" for bs :: "byte list"
    using uint_lt2p [where 'a = 8] by (auto simp: digits_ok_def list_all_iff)
  have "map uint a = map uint b"
    using positional.dval_inj_len [OF _ ok ok] assms by (simp add: be_value_def positional_def)
  then show ?thesis by (rule map_injective) (rule injI, rule word_uint_eqI)
qed

lemma verify_pow_value:
  assumes "caches_ok s" "find_cache e s = Some c" "length h = 32" "stoul16 nt = Inr k"
    "set m \<subseteq> set hexSet" "length m \<le> 64" "length d < 1073741824"
  shows "verify_pow e c h nt m d =
    (if be_value (fst (ethash (unat e) h k)) \<noteq> sval hexSet m then Inr False
     else if set d \<subseteq> set hexSet
     then Inr (be_value (snd (ethash (unat e) h k)) \<le> (2 ^ 256 - 1) div sval hexSet d)
     else Inl Foreign_character)"
proof -
  obtain digest pow where p: "ethash (unat e) h k = (digest, pow)" by fastforce
  have l: "length digest = 32" "length pow = 32" using ethash_lengths [of "unat e" h k] p by simp_all
  obtain x where x: "hex_to_sha256 m = Some x" "length x = 32" "be_value x = sval hexSet m"
    using hex_to_sha256_value [OF assms(5,6)] by blast
  have "hash_256_eq digest x \<longleftrightarrow> be_value digest = sval hexSet m"
    using hash_256_eq_iff [OF l(1) x(2)] be_value_inj [of digest x] l(1) x(2,3) by auto
  then show ?thesis
    using cached_hashimoto [OF assms(1-3), of k] x(1) assms(4) p below_target_value [OF l(2) assms(7)]
    by (simp add: verify_pow_def)
qed

section \<open>Properties\<close>

text \<open>
  C30: what a header hashes to is the Keccak digest of the RLP list of its thirteen fields,
  taken as bytes; two headers with the same list have the same fields.
\<close>

theorem header_hash_binds_fields:
  assumes "length (header_rlp a) < 18446744073709551616"
  shows "headerHash a = H256 (map chr_byte (header_rlp a)) \<and>
    rlp_decode (rlp_size (header_item a)) (header_rlp a) = Some (header_item a, []) \<and>
    (header_rlp b = header_rlp a \<longrightarrow> map field_bytes (header_fields b) = map field_bytes (header_fields a))"
proof -
  have l: "length (rlp_encode_arg encode_utf8 (header_item a)) < 18446744073709551616"
    using assms by (simp add: header_rlp_item)
  have "map field_bytes (header_fields b) = map field_bytes (header_fields a)" if "header_rlp b = header_rlp a"
  proof -
    have "header_item b = header_item a"
      using rlp_arg_inj [OF l, of "header_item b"] that by (simp add: header_rlp_item)
    then have "map Arg_str (map field_bytes (header_fields b)) = map Arg_str (map field_bytes (header_fields a))"
      by (simp add: header_item_def o_def)
    then show ?thesis by (rule map_injective) (simp add: inj_def)
  qed
  then show ?thesis
    using rlp_decode_encode [OF l order_refl, of "[]"] by (simp add: headerHash_digest header_rlp_item)
qed

lemma rlp_short:
  assumes "length s \<le> 55"
  shows "length (rlp_encode s encode_hex) \<le> 1 + length s"
proof -
  have "length (from_hex_loop t room) \<le> room" for t room
    by (induction t room rule: from_hex_loop.induct) simp_all
  then have "length (from_hex s (length s)) \<le> length s" by (simp add: from_hex_def)
  then show ?thesis using assms
    by (simp add: rlp_encode_def generate_string_header_def is_multi_prefix_string_def Let_def)
qed

lemma length_concat_bound: "(\<And>x. x \<in> set xs \<Longrightarrow> length (f x) \<le> k) \<Longrightarrow> length (concat (map f xs)) \<le> k * length xs"
  by (induction xs) force+

definition sample_header :: block_header where
  "sample_header = \<lparr>hash = [], parent_hash = ''aa'', uncle_hash = ''bb'', coinbase = ''cc'', state_root_hash = ''dd'',
     transaction_root_hash = ''ee'', receipt_root_hash = ''ff'', blooms = ''00'', difficulty = ''0400'',
     number = ''0xb71b01'', gas_limit = ''01'', gas_used = ''02'', timestamp = ''03'', extra_hash = '''',
     mix_hash = ''0123'', nonce = ''-1''\<rparr>"

lemma header_hash_binds_fields_witness:
  "rlp_decode (rlp_size (header_item sample_header)) (header_rlp sample_header) = Some (header_item sample_header, [])"
proof -
  let ?r = "concat (map (\<lambda>f. rlp_encode f encode_hex) (header_fields sample_header))"
  have "length (rlp_encode f encode_hex) \<le> 9" if "f \<in> set (header_fields sample_header)" for f
    using that rlp_short [of f] by (auto simp: header_fields_def sample_header_def)
  then have "length ?r \<le> 9 * length (header_fields sample_header)" by (rule length_concat_bound)
  then have "length ?r < 256 ^ 1" by (simp add: header_fields_def)
  from length_reserve_bound [OF this] this have "length (header_rlp sample_header) < 18446744073709551616"
    by (simp add: header_rlp_def foldl_append_concat generate_array_header_def Let_def)
  then show ?thesis using header_hash_binds_fields by blast
qed

text \<open>
  C14: with caches kept as \<open>epoch_caches_aligned\<close> says, a header whose texts are well formed is
  accepted exactly when its epoch is cached, Ethash on its hash and nonce gives its mix
  digest, and the result is at most \<open>(2^256 - 1) / difficulty\<close> (zero when the difficulty is).
\<close>

theorem header_accepted:
  assumes "epoch_reach pack unpack reqs True db s" "\<forall>e \<in> reqs. 5 \<le> e \<and> e < 2048"
    "\<forall>v. unpack (pack v) = Some v" "\<forall>v. get_db_epoch unpack db = (True, v) \<longrightarrow> v + 4 \<in> reqs"
    "stoul16 (number h) = Inr n" "stoul16 (nonce h) = Inr k"
    "set (mix_hash h) \<subseteq> set hexSet" "length (mix_hash h) \<le> 64"
    "set (difficulty h) \<subseteq> set hexSet" "length (difficulty h) < 1073741824"
  shows "verifyBlockHeader s h =
    Inr (find_cache (n div 30000) s \<noteq> None \<and>
      (let (digest, result) = ethash (unat n div 30000) (H256 (map chr_byte (header_rlp h))) k
       in be_value digest = sval hexSet (mix_hash h) \<and>
          be_value result \<le> (2 ^ 256 - 1) div sval hexSet (difficulty h)))"
proof -
  have c: "caches_ok s" using reach_inv [OF assms(1) _ assms(2)] assms(3,4) by (simp add: db_ok_def epoch_inv_def)
  have u: "unat (n div 30000) = unat n div 30000" by (simp add: unat_div)
  show ?thesis
  proof (cases "find_cache (n div 30000) s")
    case None
    then show ?thesis using assms(5) by (simp add: verifyBlockHeader_def BLOCKS_PER_EPOCH_def)
  next
    case (Some cache)
    then show ?thesis
      using verify_pow_value [OF c Some length_headerHash assms(6-8,10)] assms(5,9)
      by (auto simp: verifyBlockHeader_def BLOCKS_PER_EPOCH_def headerHash_digest u Let_def split: prod.split)
  qed
qed

lemma start_reach: "epoch_reach id Some reqs True None (epoch_start None)"
  using Registered [of id Some reqs True None] by (simp add: register_epoch_def epoch_start_def get_db_epoch_def)

lemma header_accepted_witness:
  "verifyBlockHeader (epoch_start (None :: word64 epoch_db)) sample_header = Inr False"
proof -
  have n: "stoul16 (number sample_header) = Inr 0xb71b01" "stoul16 (nonce sample_header) = Inr 0xffffffffffffffff"
    by (simp_all add: sample_header_def stoul16_def is_xdigit_def hex_digit_def hex_number_def isspace_def)
  have t: "set (mix_hash sample_header) \<subseteq> set hexSet" "length (mix_hash sample_header) \<le> 64"
      "set (difficulty sample_header) \<subseteq> set hexSet" "length (difficulty sample_header) < 1073741824"
    by (simp_all add: sample_header_def hexSet_def)
  have "find_cache k (epoch_start (None :: word64 epoch_db)) = None" for k
    by (simp add: find_cache_def epoch_start_def upper_epoch_def not_less)
  then show ?thesis
    using header_accepted [OF start_reach [of "{400}"] _ _ _ n t] by (simp add: get_db_epoch_def)
qed

lemma header_stages:
  assumes "caches_ok s" "length (difficulty h) < 1073741824" "length (mix_hash h) < 9223372036854775807"
    "find_cache (n div 30000) s = Some cache" "stoul16 (number h) = Inr n" "stoul16 (nonce h) = Inr k"
  shows "64 < length (mix_hash h) \<Longrightarrow> verifyBlockHeader s h = Inl Length_error"
    "set (mix_hash h) \<subseteq> set hexSet \<Longrightarrow> length (mix_hash h) \<le> 64 \<Longrightarrow>
     verifyBlockHeader s h =
       (if be_value (fst (ethash (unat n div 30000) (headerHash h) k)) \<noteq> sval hexSet (mix_hash h) then Inr False
        else if set (difficulty h) \<subseteq> set hexSet
        then Inr (be_value (snd (ethash (unat n div 30000) (headerHash h) k)) \<le> (2 ^ 256 - 1) div sval hexSet (difficulty h))
        else Inl Foreign_character)"
proof -
  have v: "verifyBlockHeader s h = verify_pow (n div 30000) cache (headerHash h) (nonce h) (mix_hash h) (difficulty h)"
    using assms(4,5) by (simp add: verifyBlockHeader_def BLOCKS_PER_EPOCH_def Let_def)
  show "verifyBlockHeader s h = Inl Length_error" if "64 < length (mix_hash h)"
    using v assms(6) hex_to_sha256_long [OF that] assms(3) by (simp add: verify_pow_def)
  have u: "unat (n div 30000) = unat n div 30000" by (simp add: unat_div)
  show "verifyBlockHeader s h =
       (if be_value (fst (ethash (unat n div 30000) (headerHash h) k)) \<noteq> sval hexSet (mix_hash h) then Inr False
        else if set (difficulty h) \<subseteq> set hexSet
        then Inr (be_value (snd (ethash (unat n div 30000) (headerHash h) k)) \<le> (2 ^ 256 - 1) div sval hexSet (difficulty h))
        else Inl Foreign_character)" if "set (mix_hash h) \<subseteq> set hexSet" "length (mix_hash h) \<le> 64"
    using v verify_pow_value [OF assms(1,4) length_headerHash assms(6) that assms(2)] by (simp only: u)
qed

text \<open>
  C35: which failure is reported: the number's first; without a cache the answer is no,
  whatever the other texts are; then the nonce's, then an over-long mix hash; a wrong digest
  is refused before the difficulty is looked at, and a difficulty with a foreign character
  only throws after the digest has matched.
\<close>

theorem header_failures:
  assumes "epoch_reach pack unpack reqs True db s" "\<forall>e \<in> reqs. 5 \<le> e \<and> e < 2048"
    "\<forall>v. unpack (pack v) = Some v" "\<forall>v. get_db_epoch unpack db = (True, v) \<longrightarrow> v + 4 \<in> reqs"
    "length (difficulty h) < 1073741824" "length (mix_hash h) < 9223372036854775807"
  shows "(stoul16 (number h) = Inl e \<longrightarrow> verifyBlockHeader s h = Inl e) \<and>
    (\<forall>n. stoul16 (number h) = Inr n \<longrightarrow>
       (find_cache (n div 30000) s = None \<longrightarrow> verifyBlockHeader s h = Inr False) \<and>
       (find_cache (n div 30000) s \<noteq> None \<longrightarrow>
          (stoul16 (nonce h) = Inl e \<longrightarrow> verifyBlockHeader s h = Inl e) \<and>
          (\<forall>k. stoul16 (nonce h) = Inr k \<longrightarrow>
             (64 < length (mix_hash h) \<longrightarrow> verifyBlockHeader s h = Inl Length_error) \<and>
             (set (mix_hash h) \<subseteq> set hexSet \<and> length (mix_hash h) \<le> 64 \<longrightarrow>
                (if be_value (fst (ethash (unat n div 30000) (headerHash h) k)) \<noteq> sval hexSet (mix_hash h)
                 then verifyBlockHeader s h = Inr False
                 else \<not> set (difficulty h) \<subseteq> set hexSet \<longrightarrow> verifyBlockHeader s h = Inl Foreign_character)))))"
proof -
  have c: "caches_ok s" using reach_inv [OF assms(1) _ assms(2)] assms(3,4) by (simp add: db_ok_def epoch_inv_def)
  note stages = header_stages [OF c assms(5,6)]
  have "verifyBlockHeader s h = Inl e" if "stoul16 (number h) = Inl e"
    using that by (simp add: verifyBlockHeader_def)
  moreover have "verifyBlockHeader s h = Inr False" if "stoul16 (number h) = Inr n" "find_cache (n div 30000) s = None" for n
    using that by (simp add: verifyBlockHeader_def BLOCKS_PER_EPOCH_def Let_def)
  moreover have "verifyBlockHeader s h = Inl e"
    if "stoul16 (number h) = Inr n" "find_cache (n div 30000) s \<noteq> None" "stoul16 (nonce h) = Inl e" for n
    using that by (auto simp: verifyBlockHeader_def BLOCKS_PER_EPOCH_def Let_def verify_pow_def)
  moreover have "if be_value (fst (ethash (unat n div 30000) (headerHash h) k)) \<noteq> sval hexSet (mix_hash h)
       then verifyBlockHeader s h = Inr False
       else \<not> set (difficulty h) \<subseteq> set hexSet \<longrightarrow> verifyBlockHeader s h = Inl Foreign_character"
    if "stoul16 (number h) = Inr n" "find_cache (n div 30000) s \<noteq> None" "stoul16 (nonce h) = Inr k"
      "set (mix_hash h) \<subseteq> set hexSet" "length (mix_hash h) \<le> 64" for n k
    using stages(2) [OF _ that(1,3-5)] that(2) by (cases "set (difficulty h) \<subseteq> set hexSet") auto
  ultimately show ?thesis using stages(1) by blast
qed

lemma header_failures_witness:
  "verifyBlockHeader (epoch_start (None :: word64 epoch_db)) (sample_header\<lparr>number := ''#''\<rparr>) = Inl Invalid_argument"
proof -
  have n: "stoul16 (number (sample_header\<lparr>number := ''#''\<rparr>)) = Inl Invalid_argument"
    by (simp add: stoul16_def is_xdigit_def hex_digit_def isspace_def)
  have l: "length (difficulty (sample_header\<lparr>number := ''#''\<rparr>)) < 1073741824"
      "length (mix_hash (sample_header\<lparr>number := ''#''\<rparr>)) < 9223372036854775807"
    by (simp_all add: sample_header_def)
  show ?thesis
    using header_failures [OF start_reach [of "{400}"] _ _ _ l] n by (simp add: get_db_epoch_def)
qed

text \<open>
  verifying the header with its fields and verifying it with only its hash give the same
  answer, exceptions included, when the hash is the one the first computes.
\<close>

theorem header_versions_agree:
  "verifyBlockHeader_v2 s \<lparr>n_number = number h, n_difficulty = difficulty h, n_mix_hash = mix_hash h,
     n_nonce = nonce h, n_hash_without_nonce = sha256_to_hex (headerHash h)\<rparr> = verifyBlockHeader s h"
proof -
  have "hex_to_sha256 (to_hex (headerHash h)) = Some (headerHash h)"
    using hex_to_sha256_short [of "to_hex (headerHash h)"] from_to_hex [of "headerHash h" 32] by simp
  then show ?thesis
    by (simp add: verifyBlockHeader_def verifyBlockHeader_v2_def sha256_to_hex_def cong: option.case_cong)
qed

end
