(* ===== verification/Plugin_Map.thy ===== *)
theory Plugin_Map
  imports Header_Verify "HOL-Library.Multiset"
begin

text \<open>
  The functions contracts can call in the plugin: the callback table
  (\<^verbatim>\<open>src/cross/include/global_var.hpp\<close>, \<^verbatim>\<open>src/cross/patch/eos-vm.cpp\<close>), the six callbacks of
  \<open>register_plugin_map\<close>, \<open>isInByteArray\<close> and \<open>aggregateBlsKey\<close>
  (\<^verbatim>\<open>src/cross/plugin/cross_plugin.cpp\<close>), and the points of keys
  (\<^verbatim>\<open>src/cross/src/serialize_ecc.cpp\<close>).

  A callback gets the calling contract, its argument bytes and the caller's return buffer; it
  returns a number or an error, the buffer, and the state of the epoch caches.  What the
  code takes from libraries (serialisation, curve points, the cross contract's name) is the
  record \<open>externals\<close>.  A copy into a buffer that is too short is the error \<open>Memory_error\<close>.
\<close>

section \<open>Libraries\<close>

datatype public_key = K1_key "byte list" | R1_key "byte list" | Webauthn_key "byte list"

record verify_signature_data =
  sig_pub_key :: "byte list"
  sig_signature :: "byte list"
  sig_data :: "byte list"

record aggregate_key_data =
  agg_keys :: "byte list list"
  agg_mask :: "byte list"

record ('b, 'a, 'p) externals =
  eosio_cross_name :: word64
  pack_epoch :: "word64 \<Rightarrow> 'b"
  unpack_epoch :: "'b \<Rightarrow> word64 option"
  db_fails :: "db_operation \<Rightarrow> bool"
  unpack_number :: "byte list \<Rightarrow> word64 option"
  unpack_header :: "byte list \<Rightarrow> block_header option"
  unpack_nonce_header :: "byte list \<Rightarrow> nonce_header option"
  unpack_keys :: "byte list \<Rightarrow> public_key list option"
  unpack_aggregate :: "byte list \<Rightarrow> aggregate_key_data option"
  unpack_signature :: "byte list \<Rightarrow> verify_signature_data option"
  pack_bool :: "bool \<Rightarrow> byte list"
  pack_split_keys :: "byte list list \<Rightarrow> byte list"
  secp256k1_uncompressed :: "byte list \<Rightarrow> byte list"
  blank_point :: "byte list"
  p1_uncompress :: "byte list \<Rightarrow> 'a"
  p1_from_affine :: "'a \<Rightarrow> 'p"
  p1_add_affine :: "'p \<Rightarrow> 'a \<Rightarrow> 'p"
  p1_compress :: "'p \<Rightarrow> byte list"
  p1_uninitialised :: 'p
  core_verify_fails :: "byte list \<Rightarrow> byte list \<Rightarrow> byte list \<Rightarrow> bool"

datatype plugin_error =
    Not_cross_contract
  | Unpack_error
  | Invalid_epoch
  | Verify_error verify_error
  | Ret_too_small
  | No_plugin_function
  | Memory_error

type_synonym 'b outcome_state = "(plugin_error + int \<times> byte list) \<times> 'b epoch_state"

type_synonym 'b callback = "word64 \<Rightarrow> byte list \<Rightarrow> byte list \<Rightarrow> 'b epoch_state \<Rightarrow> 'b outcome_state"

section \<open>Epochs and headers\<close>

definition invoke_init_cache :: "('b, 'a, 'p) externals \<Rightarrow> 'b callback" where
  "invoke_init_cache lib account data ret s =
     (if account \<noteq> eosio_cross_name lib then (Inl Not_cross_contract, s)
      else case unpack_number lib data of
        None \<Rightarrow> (Inl Unpack_error, s)
      | Some verify_number \<Rightarrow>
          (let epoch = verify_number div of_int BLOCKS_PER_EPOCH
           in if epoch = 0 then (Inl Invalid_epoch, s)
              else (Inr (0, ret), start_epoch (pack_epoch lib) (db_fails lib) (epoch + epoch_vec_size - 1) s)))"

text \<open>The answer is copied to the return buffer after the epoch has been asked for.\<close>

definition return_bytes :: "byte list \<Rightarrow> byte list \<Rightarrow> 'b epoch_state \<Rightarrow> 'b outcome_state" where
  "return_bytes ret_char ret s =
     (if length ret < length ret_char then (Inl Ret_too_small, s)
      else (Inr (int (length ret_char), put ret 0 ret_char), s))"

definition verified_epoch :: "('b, 'a, 'p) externals \<Rightarrow> string \<Rightarrow> 'b epoch_state \<Rightarrow> verify_error + 'b epoch_state" where
  "verified_epoch lib number_text s =
     bind_result (stoul16 number_text) (\<lambda>block_number.
       let current_epoch = block_number div of_int BLOCKS_PER_EPOCH;
           epoch = current_epoch + (epoch_vec_size - update_epoch_pos)
       in Inr (start_epoch (pack_epoch lib) (db_fails lib) epoch s))"

definition invoke_verify_header :: "('b, 'a, 'p) externals \<Rightarrow> 'b callback" where
  "invoke_verify_header lib account data ret s =
     (if account \<noteq> eosio_cross_name lib then (Inl Not_cross_contract, s)
      else case unpack_header lib data of
        None \<Rightarrow> (Inl Unpack_error, s)
      | Some header \<Rightarrow>
          (case verifyBlockHeader s header of
             Inl e \<Rightarrow> (Inl (Verify_error e), s)
           | Inr result \<Rightarrow>
               (case verified_epoch lib (number header) s of
                  Inl e \<Rightarrow> (Inl (Verify_error e), s)
                | Inr s \<Rightarrow> return_bytes (pack_bool lib result) ret s)))"

definition invoke_verify_header_v2 :: "('b, 'a, 'p) externals \<Rightarrow> 'b callback" where
  "invoke_verify_header_v2 lib account data ret s =
     (if account \<noteq> eosio_cross_name lib then (Inl Not_cross_contract, s)
      else case unpack_nonce_header lib data of
        None \<Rightarrow> (Inl Unpack_error, s)
      | Some header \<Rightarrow>
          (case verifyBlockHeader_v2 s header of
             Inl e \<Rightarrow> (Inl (Verify_error e), s)
           | Inr result \<Rightarrow>
               (case verified_epoch lib (n_number header) s of
                  Inl e \<Rightarrow> (Inl (Verify_error e), s)
                | Inr s \<Rightarrow> return_bytes (pack_bool lib result) ret s)))"

section \<open>Keys\<close>

text \<open>Only keys of the first kind have a point; the others give a blank array.\<close>

definition serialize_ecc_point :: "('b, 'a, 'p) externals \<Rightarrow> public_key \<Rightarrow> byte list" where
  "serialize_ecc_point lib key =
     (case key of
        K1_key k \<Rightarrow> secp256k1_uncompressed lib k
      | R1_key k \<Rightarrow> blank_point lib
      | Webauthn_key k \<Rightarrow> blank_point lib)"

definition convert_eth_public :: "('b, 'a, 'p) externals \<Rightarrow> 'b callback" where
  "convert_eth_public lib account data ret s =
     (if account \<noteq> eosio_cross_name lib then (Inl Not_cross_contract, s)
      else case unpack_keys lib data of
        None \<Rightarrow> (Inl Unpack_error, s)
      | Some packed_keys \<Rightarrow>
          return_bytes (pack_split_keys lib (map (\<lambda>pub_key. drop 1 (serialize_ecc_point lib pub_key)) packed_keys)) ret s)"

definition isInByteArray :: "byte list \<Rightarrow> nat \<Rightarrow> nat \<Rightarrow> bool" where
  "isInByteArray arr len i =
     (if i \<ge> len * 8 then False else (drop_bit (i mod 8) (arr ! (i div 8)) AND 1) \<noteq> 0)"

text \<open>The point is only initialised by the first selected key.\<close>

definition aggregate_key ::
    "('b, 'a, 'p) externals \<Rightarrow> byte list list \<Rightarrow> byte list \<Rightarrow> bool \<times> 'p \<Rightarrow> nat \<Rightarrow> bool \<times> 'p" where
  "aggregate_key lib keys bit_mask acc i =
     (let (is_init, point) = acc
      in if \<not> isInByteArray bit_mask (length bit_mask) i then acc
         else let pk = p1_uncompress lib (keys ! i)
              in (True, if \<not> is_init then p1_from_affine lib pk else p1_add_affine lib point pk))"

definition aggregateBlsKey :: "('b, 'a, 'p) externals \<Rightarrow> byte list list \<Rightarrow> byte list \<Rightarrow> byte list" where
  "aggregateBlsKey lib keys bit_mask =
     p1_compress lib (snd (foldl (aggregate_key lib keys bit_mask) (False, p1_uninitialised lib) [0..<length keys]))"

text \<open>These two callbacks copy without looking at the size of the return buffer.\<close>

definition aggregate_bls_key :: "('b, 'a, 'p) externals \<Rightarrow> 'b callback" where
  "aggregate_bls_key lib account data ret s =
     (if account \<noteq> eosio_cross_name lib then (Inl Not_cross_contract, s)
      else case unpack_aggregate lib data of
        None \<Rightarrow> (Inl Unpack_error, s)
      | Some agg_data \<Rightarrow>
          (let buf = aggregateBlsKey lib (agg_keys agg_data) (agg_mask agg_data)
           in if length ret < 48 then (Inl Memory_error, s)
              else (Inr (int (length ret), put ret 0 (take 48 buf)), s)))"

definition verify_bls_signature :: "('b, 'a, 'p) externals \<Rightarrow> 'b callback" where
  "verify_bls_signature lib account data ret s =
     (if account \<noteq> eosio_cross_name lib then (Inl Not_cross_contract, s)
      else case unpack_signature lib data of
        None \<Rightarrow> (Inl Unpack_error, s)
      | Some check_data \<Rightarrow>
          (let res = \<not> core_verify_fails lib (sig_pub_key check_data) (sig_signature check_data) (sig_data check_data)
           in if length ret < 1 then (Inl Memory_error, s)
              else (Inr (1, put ret 0 [of_bool res]), s)))"

section \<open>The callback table\<close>

type_synonym 'b plugin_map = "string \<rightharpoonup> 'b callback"

definition add_callback :: "string \<Rightarrow> string \<Rightarrow> 'b callback \<Rightarrow> 'b plugin_map \<Rightarrow> bool \<times> 'b plugin_map" where
  "add_callback plugin_name function_name call_back_func plugin_map =
     (let key_name = plugin_name @ ''/'' @ function_name
      in case plugin_map key_name of
           Some _ \<Rightarrow> (False, plugin_map)
         | None \<Rightarrow> (True, plugin_map(key_name \<mapsto> call_back_func)))"

definition eth_key :: string where "eth_key = ''ethash''"
definition cross_key :: string where "cross_key = ''cross''"

definition register_callbacks :: "('b, 'a, 'p) externals \<Rightarrow> 'b plugin_map \<Rightarrow> 'b plugin_map" where
  "register_callbacks lib m =
     (let m = snd (add_callback eth_key ''init_eth_epoch'' (invoke_init_cache lib) m);
          m = snd (add_callback eth_key ''verify_header'' (invoke_verify_header lib) m);
          m = snd (add_callback eth_key ''verify_header_v2'' (invoke_verify_header_v2 lib) m);
          m = snd (add_callback eth_key ''convert_eth_public'' (convert_eth_public lib) m);
          m = snd (add_callback cross_key ''aggregate_bls_key'' (aggregate_bls_key lib) m)
      in snd (add_callback cross_key ''verify_bls_signature'' (verify_bls_signature lib) m))"

definition register_plugin_map ::
    "('b, 'a, 'p) externals \<Rightarrow> 'b plugin_map \<Rightarrow> 'b epoch_state \<Rightarrow> 'b plugin_map \<times> 'b epoch_state" where
  "register_plugin_map lib m s = (register_callbacks lib m, register_epoch (unpack_epoch lib) s)"

definition max_assert_message :: nat where "max_assert_message = 1024"

definition do_plugin_function ::
    "'b plugin_map \<Rightarrow> word64 \<Rightarrow> string \<Rightarrow> byte list \<Rightarrow> byte list \<Rightarrow> 'b epoch_state \<Rightarrow> 'b outcome_state" where
  "do_plugin_function plugin_map account plugin_name ret data s =
     (let plugin_name_str = takeWhile (\<lambda>c. c \<noteq> char_of (0 :: nat)) (take max_assert_message plugin_name)
      in case plugin_map plugin_name_str of
           None \<Rightarrow> (Inl No_plugin_function, s)
         | Some call \<Rightarrow> call account data ret s)"

section \<open>The table\<close>

definition plugin_names :: "string list" where
  "plugin_names = [''ethash/init_eth_epoch'', ''ethash/verify_header'', ''ethash/verify_header_v2'',
     ''ethash/convert_eth_public'', ''cross/aggregate_bls_key'', ''cross/verify_bls_signature'']"

definition plugin_functions :: "('b, 'a, 'p) externals \<Rightarrow> 'b callback list" where
  "plugin_functions lib = [invoke_init_cache lib, invoke_verify_header lib, invoke_verify_header_v2 lib,
     convert_eth_public lib, aggregate_bls_key lib, verify_bls_signature lib]"

definition add_missing :: "string \<times> 'b callback \<Rightarrow> 'b plugin_map \<Rightarrow> 'b plugin_map" where
  "add_missing kf m = (case m (fst kf) of Some _ \<Rightarrow> m | None \<Rightarrow> m(fst kf \<mapsto> snd kf))"

lemma add_missing_apply:
  "fold add_missing kfs m k = (case m k of Some f \<Rightarrow> Some f | None \<Rightarrow> map_of kfs k)"
  by (induction kfs arbitrary: m) (auto simp: add_missing_def split: option.splits)

lemma snd_add_callback: "snd (add_callback p f c m) = add_missing (p @ ''/'' @ f, c) m"
  by (simp add: add_callback_def add_missing_def split: option.split)

lemma register_callbacks_fold:
  "register_callbacks lib m = fold add_missing (zip plugin_names (plugin_functions lib)) m"
  by (simp add: register_callbacks_def plugin_names_def plugin_functions_def eth_key_def cross_key_def snd_add_callback)

lemma register_apply:
  "register_callbacks lib m k =
     (case m k of Some f \<Rightarrow> Some f | None \<Rightarrow> map_of (zip plugin_names (plugin_functions lib)) k)"
  by (simp add: register_callbacks_fold add_missing_apply)

lemma guarded:
  assumes "f \<in> set (plugin_functions lib)" "account \<noteq> eosio_cross_name lib"
  shows "f account data ret s = (Inl Not_cross_contract, s)"
  using assms
  by (auto simp: plugin_functions_def invoke_init_cache_def invoke_verify_header_def invoke_verify_header_v2_def
      convert_eth_public_def aggregate_bls_key_def verify_bls_signature_def)

lemma map_of_functions:
  assumes "map_of (zip plugin_names (plugin_functions lib)) k = Some f"
  shows "k \<in> set plugin_names" "f \<in> set (plugin_functions lib)"
  using map_of_SomeD [OF assms] by (auto dest: set_zip_leftD set_zip_rightD)

lemma map_of_missing: "map_of (zip plugin_names (plugin_functions lib)) k = None \<longleftrightarrow> k \<notin> set plugin_names"
  by (simp add: map_of_zip_is_None plugin_names_def plugin_functions_def)

section \<open>Aggregation\<close>

lemma bit_of_byte: "(drop_bit n (w :: byte) AND 1) \<noteq> 0 \<longleftrightarrow> bit w n"
  by (simp add: and_one_eq bit_iff_odd_drop_bit odd_iff_mod_2_eq_one)

lemma isInByteArray_bit: "isInByteArray arr (length arr) i \<longleftrightarrow> i < 8 * length arr \<and> bit (arr ! (i div 8)) (i mod 8)"
  by (auto simp: isInByteArray_def bit_of_byte not_le mult.commute)

definition selected :: "byte list list \<Rightarrow> byte list \<Rightarrow> byte list list" where
  "selected keys bit_mask = map (\<lambda>i. keys ! i) (filter (isInByteArray bit_mask (length bit_mask)) [0..<length keys])"

definition aggregate_points :: "('b, 'a, 'p) externals \<Rightarrow> byte list list \<Rightarrow> 'p" where
  "aggregate_points lib ks =
     (case map (p1_uncompress lib) ks of
        [] \<Rightarrow> p1_uninitialised lib
      | a # as \<Rightarrow> foldl (p1_add_affine lib) (p1_from_affine lib a) as)"

lemma aggregate_fold:
  "foldl (aggregate_key lib keys bit_mask) acc is =
     foldl (\<lambda>(b, p) k. (True, if b then p1_add_affine lib p (p1_uncompress lib k) else p1_from_affine lib (p1_uncompress lib k)))
       acc (map (\<lambda>i. keys ! i) (filter (isInByteArray bit_mask (length bit_mask)) is))"
  by (induction "is" arbitrary: acc) (simp_all add: aggregate_key_def split: prod.split)

lemma aggregate_fold_init:
  "foldl (\<lambda>(b, p) k. (True, if b then add p (u k) else h (u k))) (True, p) ks = (True, foldl add p (map u ks))"
  by (induction ks arbitrary: p) simp_all

lemma aggregateBlsKey_spec: "aggregateBlsKey lib keys bit_mask = p1_compress lib (aggregate_points lib (selected keys bit_mask))"
  unfolding aggregateBlsKey_def aggregate_fold selected_def [symmetric] aggregate_points_def
  by (cases "selected keys bit_mask") (simp_all add: aggregate_fold_init)

lemma foldl_commute_mset:
  assumes "\<And>p a b. add (add p a) b = add (add p b) a" "mset as = mset bs"
  shows "foldl add p as = foldl add p bs"
  using assms(2)
proof (induction as arbitrary: bs p)
  case (Cons a as)
  then have "a \<in> set bs" by (metis list.set_intros(1) set_mset_mset)
  then obtain us vs where b: "bs = us @ a # vs" using List.split_list by fast
  have "foldl add p (us @ [a]) = foldl add (add p a) us" for us p
    by (induction us arbitrary: p) (simp_all add: assms(1))
  from this [of p us] have "foldl add p bs = foldl add (add p a) (us @ vs)" by (simp add: b)
  moreover have "mset as = mset (us @ vs)" using Cons.prems by (simp add: b)
  ultimately show ?case using Cons.IH [of "us @ vs" "add p a"] by simp
qed simp

lemma aggregate_points_mset:
  assumes "\<And>p a b. p1_add_affine lib (p1_add_affine lib p a) b = p1_add_affine lib (p1_add_affine lib p b) a"
    "\<And>a b. p1_add_affine lib (p1_from_affine lib a) b = p1_add_affine lib (p1_from_affine lib b) a"
    "mset ks = mset ls"
  shows "aggregate_points lib ks = aggregate_points lib ls"
proof (cases ks)
  case Nil
  then show ?thesis using assms(3) by (cases ls) simp_all
next
  case (Cons k ks')
  let ?u = "p1_uncompress lib" and ?add = "p1_add_affine lib" and ?from = "p1_from_affine lib"
  obtain l ls' where l: "ls = l # ls'" using assms(3) Cons by (cases ls) auto
  show ?thesis
  proof (cases "k = l")
    case True
    then have "mset (map ?u ks') = mset (map ?u ls')" using assms(3) Cons l by simp
    then show ?thesis using foldl_commute_mset [of ?add] assms(1) Cons l True by (simp add: aggregate_points_def)
  next
    case False
    then have "l \<in># mset ks'" "k \<in># mset ls'" using assms(3) Cons l by (metis insert_noteq_member mset.simps(2))+
    then have "mset ks' = mset (l # remove1 l ks')" "mset ls' = mset (k # remove1 k ls')" by simp_all
    then have m: "mset (map ?u ks') = mset (map ?u (l # remove1 l ks'))" "mset (map ?u ls') = mset (map ?u (k # remove1 k ls'))"
      unfolding mset_map by (simp_all only:)
    have r: "mset (map ?u (remove1 l ks')) = mset (map ?u (remove1 k ls'))"
      using assms(3) Cons l False by (simp add: diff_union_swap) (metis add_mset_remove_trivial diff_union_swap mset_map)
    have "aggregate_points lib ks = foldl ?add (?add (?from (?u k)) (?u l)) (map ?u (remove1 l ks'))"
      using foldl_commute_mset [of ?add, OF assms(1) m(1)] Cons by (simp add: aggregate_points_def)
    also have "\<dots> = foldl ?add (?add (?from (?u l)) (?u k)) (map ?u (remove1 k ls'))"
      using foldl_commute_mset [of ?add, OF assms(1) r] assms(2) by metis
    also have "\<dots> = aggregate_points lib ls"
      using foldl_commute_mset [of ?add, OF assms(1) m(2)] l by (simp add: aggregate_points_def)
    finally show ?thesis .
  qed
qed

section \<open>Properties\<close>


text \<open>
  a header sent by the cross contract moves the window of epochs by its number alone: for
  every answer of the verification, and also when the return buffer is too small for it, the
  state afterwards is that of the request for the third epoch after the header's, both in
  memory and in the epoch table.
\<close>

theorem header_requests_epoch:
  assumes "unpack_header lib data = Some h" "stoul16 (number h) = Inr n" "verifyBlockHeader s h = Inr accepted"
    "account = eosio_cross_name lib"
  shows "snd (invoke_verify_header lib account data ret s) =
      start_epoch (pack_epoch lib) (db_fails lib) (n div 30000 + 3) s \<and>
    fst (invoke_verify_header lib account data ret s) =
      (let answer = pack_bool lib accepted
       in if length ret < length answer then Inl Ret_too_small
          else Inr (int (length answer), answer @ drop (length answer) ret))"
  using assms
  by (simp add: invoke_verify_header_def verified_epoch_def return_bytes_def Let_def epoch_consts BLOCKS_PER_EPOCH_def put_def)

text \<open>
  the aggregated key is the sum of the keys whose bit is set in the mask (bit \<open>i mod 8\<close> of
  byte \<open>i div 8\<close>; none beyond the mask's end), starting at the first of them; when sums may be
  reordered, only the multiset of selected keys matters.
\<close>

theorem aggregate_selected:
  assumes "\<forall>p a b. p1_add_affine lib (p1_add_affine lib p a) b = p1_add_affine lib (p1_add_affine lib p b) a"
    "\<forall>a b. p1_add_affine lib (p1_from_affine lib a) b = p1_add_affine lib (p1_from_affine lib b) a"
    "mset (selected keys bits) = mset (selected keys' bits')"
  shows "aggregateBlsKey lib keys bits = p1_compress lib (aggregate_points lib (selected keys bits)) \<and>
    (isInByteArray bits (length bits) i \<longleftrightarrow> i < 8 * length bits \<and> bit (bits ! (i div 8)) (i mod 8)) \<and>
    aggregateBlsKey lib keys bits = aggregateBlsKey lib keys' bits'"
  using assms aggregate_points_mset [of lib "selected keys bits" "selected keys' bits'"]
  by (simp add: aggregateBlsKey_spec isInByteArray_bit)

text \<open>
  the two BLS callbacks do not look at the size of the return buffer: where the other
  callbacks refuse a short one, these write past its end.
\<close>

theorem bls_callbacks_overflow:
  assumes "account = eosio_cross_name lib" "unpack_aggregate lib data = Some a" "unpack_signature lib data = Some v"
    "unpack_keys lib data = Some ks"
  shows "aggregate_bls_key lib account data ret s =
      (if length ret < 48 then Inl Memory_error
       else Inr (int (length ret), put ret 0 (take 48 (aggregateBlsKey lib (agg_keys a) (agg_mask a)))), s) \<and>
    verify_bls_signature lib account data ret s =
      (if ret = [] then Inl Memory_error
       else Inr (1, of_bool (\<not> core_verify_fails lib (sig_pub_key v) (sig_signature v) (sig_data v)) # tl ret), s) \<and>
    fst (convert_eth_public lib account data ret s) \<noteq> Inl Memory_error"
  using assms
  by (auto simp: aggregate_bls_key_def verify_bls_signature_def convert_eth_public_def return_bytes_def put_def Let_def drop_Suc
      less_Suc_eq_0_disj)

text \<open>An instance of the libraries.\<close>

definition sample_externals :: "(word64, int, int) externals" where
  "sample_externals = \<lparr>eosio_cross_name = 7, pack_epoch = id, unpack_epoch = Some, db_fails = (\<lambda>_. False),
     unpack_number = (\<lambda>d. Some (of_nat (length d))), unpack_header = (\<lambda>d. Some sample_header),
     unpack_nonce_header = (\<lambda>d. None), unpack_keys = (\<lambda>d. Some []),
     unpack_aggregate = (\<lambda>d. Some \<lparr>agg_keys = [d, d], agg_mask = [2]\<rparr>),
     unpack_signature = (\<lambda>d. Some \<lparr>sig_pub_key = d, sig_signature = d, sig_data = d\<rparr>),
     pack_bool = (\<lambda>b. [of_bool b]), pack_split_keys = concat, secp256k1_uncompressed = id, blank_point = replicate 65 0,
     p1_uncompress = (\<lambda>k. int (length k)), p1_from_affine = id, p1_add_affine = (+),
     p1_compress = (\<lambda>p. replicate 48 (of_int p)), p1_uninitialised = 0, core_verify_fails = (\<lambda>_ _ _. False)\<rparr>"


lemma header_requests_epoch_witness:
  "snd (invoke_verify_header sample_externals 7 [] [] (epoch_start None)) =
     start_epoch id (\<lambda>_. False) (0xb71b01 div 30000 + 3) (epoch_start None)"
proof -
  have n: "stoul16 (number sample_header) = Inr 0xb71b01"
    by (simp add: sample_header_def stoul16_def is_xdigit_def hex_digit_def hex_number_def isspace_def)
  have "find_cache k (epoch_start (None :: word64 epoch_db)) = None" for k
    by (simp add: find_cache_def epoch_start_def upper_epoch_def not_less)
  then have "verifyBlockHeader (epoch_start (None :: word64 epoch_db)) sample_header = Inr False"
    by (simp add: verifyBlockHeader_def n Let_def)
  moreover have "unpack_header sample_externals [] = Some sample_header" "7 = eosio_cross_name sample_externals"
      "pack_epoch sample_externals = id" "db_fails sample_externals = (\<lambda>_. False)"
    by (simp_all add: sample_externals_def)
  ultimately show ?thesis
    using header_requests_epoch [of sample_externals "[]" sample_header "0xb71b01" "epoch_start None" False 7, OF _ n]
    by (simp only: simp_thms)
qed

lemma aggregate_selected_witness:
  "aggregateBlsKey sample_externals [[1, 1], [1], []] [3] = aggregateBlsKey sample_externals [[1], [], [1, 1]] [5]"
proof -
  have "mset (selected [[1, 1], [1], []] [3]) = mset (selected [[1], [], [1, 1]] [5])"
    by (simp add: selected_def isInByteArray_def)
  moreover have "\<forall>p a b. p1_add_affine sample_externals (p1_add_affine sample_externals p a) b =
      p1_add_affine sample_externals (p1_add_affine sample_externals p b) a"
    "\<forall>a b. p1_add_affine sample_externals (p1_from_affine sample_externals a) b =
      p1_add_affine sample_externals (p1_from_affine sample_externals b) a"
    by (simp_all add: sample_externals_def)
  ultimately show ?thesis using aggregate_selected by blast
qed

lemma bls_callbacks_overflow_witness:
  "aggregate_bls_key sample_externals 7 [] (replicate 47 0) (epoch_start None) = (Inl Memory_error, epoch_start None)"
  using bls_callbacks_overflow [of 7 sample_externals "[]" "\<lparr>agg_keys = [[], []], agg_mask = [2]\<rparr>"
      "\<lparr>sig_pub_key = [], sig_signature = [], sig_data = []\<rparr>" "[]" "replicate 47 0"]
  by (simp add: sample_externals_def)

end
