(* ===== verification/Sign_Loop.thy ===== *)
theory Sign_Loop
  imports Hex_Codec "HOL-Library.Multiset"
begin

text \<open>
  The signing service of the plugin (\<^verbatim>\<open>src/cross/plugin/cross_plugin.cpp\<close>): the keys it reads
  from the options, the permission it looks for at start, and the loop that pages through
  the sign pool and pushes one signature for each row that waits for it.

  Keys, digests and signatures are type variables; what the node computes (signing, packing an
  action, a page of a table) is a parameter.  The loop runs until a page says there is no
  more, which need not happen: it is a partial function, None when it does not return.
\<close>

section \<open>Options\<close>

definition cut_at :: "char \<Rightarrow> string \<Rightarrow> (string \<times> string) option" where
  "cut_at delim s =
     (if delim \<in> set s then Some (takeWhile (\<lambda>c. c \<noteq> delim) s, tl (dropWhile (\<lambda>c. c \<noteq> delim) s)) else None)"

text \<open>A pair that cannot be read leaves the map as it is.\<close>

definition add_signature_provider ::
    "(string \<Rightarrow> 'k option) \<Rightarrow> (string \<Rightarrow> 's option) \<Rightarrow> string \<Rightarrow> ('k \<rightharpoonup> 's) \<Rightarrow> ('k \<rightharpoonup> 's)" where
  "add_signature_provider public_key_type private_key_type pub_pri_str m =
     (case cut_at (CHR ''='') pub_pri_str of
        None \<Rightarrow> m
      | Some (pub_key_str, spec_str) \<Rightarrow>
          (case cut_at (CHR '':'') spec_str of
             None \<Rightarrow> m
           | Some (spec_type_str, spec_data) \<Rightarrow>
               (case public_key_type pub_key_str of
                  None \<Rightarrow> m
                | Some pubkey \<Rightarrow>
                    if spec_type_str = ''KEY''
                    then (case private_key_type spec_data of None \<Rightarrow> m | Some k \<Rightarrow> m(pubkey \<mapsto> k)) else m)))"

definition add_private_key :: "(string \<Rightarrow> ('k \<times> 's) option) \<Rightarrow> string \<Rightarrow> ('k \<rightharpoonup> 's) \<Rightarrow> ('k \<rightharpoonup> 's)" where
  "add_private_key dejsonify pub_pri_str m =
     (case dejsonify pub_pri_str of None \<Rightarrow> m | Some (pub, pri) \<Rightarrow> m(pub \<mapsto> pri))"

definition signature_providers ::
    "(string \<Rightarrow> ('k \<times> 's) option) \<Rightarrow> (string \<Rightarrow> 'k option) \<Rightarrow> (string \<Rightarrow> 's option) \<Rightarrow>
     string list \<Rightarrow> string list \<Rightarrow> ('k \<rightharpoonup> 's)" where
  "signature_providers dejsonify public_key_type private_key_type private_keys providers =
     fold (add_signature_provider public_key_type private_key_type) providers
       (fold (add_private_key dejsonify) private_keys Map.empty)"

section \<open>Keys and permissions\<close>

record 'k producer_authority =
  producer_name :: "64 word"
  producer_keys :: "'k list"

text \<open>\<open>blank\<close> is the default private key, which the caller takes for "none".\<close>

fun get_valid_private_key :: "'s \<Rightarrow> 'k producer_authority list \<Rightarrow> 64 word \<Rightarrow> ('k \<rightharpoonup> 's) \<Rightarrow> 's" where
  "get_valid_private_key blank [] me providers = blank"
| "get_valid_private_key blank (p # ps) me providers =
     (if producer_name p \<noteq> me then get_valid_private_key blank ps me providers
      else case providers (hd (producer_keys p)) of
             Some k \<Rightarrow> k
           | None \<Rightarrow> get_valid_private_key blank ps me providers)"

record 'k permission =
  perm_name :: "64 word"
  perm_threshold :: nat
  perm_keys :: "('k \<times> nat) list"

fun enough_weight :: "'k \<Rightarrow> nat \<Rightarrow> ('k \<times> nat) list \<Rightarrow> bool" where
  "enough_weight sign_key threshold [] = False"
| "enough_weight sign_key threshold ((key, weight) # keys) =
     (if key \<noteq> sign_key then enough_weight sign_key threshold keys
      else if weight \<ge> threshold then True else enough_weight sign_key threshold keys)"

fun find_permission :: "'k \<Rightarrow> 64 word \<Rightarrow> 64 word \<Rightarrow> 'k permission list \<Rightarrow> 64 word option" where
  "find_permission sign_key active create_permission [] = None"
| "find_permission sign_key active create_permission (perm # perms) =
     (if perm_name perm \<noteq> active \<and> perm_name perm \<noteq> create_permission
      then find_permission sign_key active create_permission perms
      else if enough_weight sign_key (perm_threshold perm) (perm_keys perm) then Some (perm_name perm)
      else find_permission sign_key active create_permission perms)"

text \<open>None is the answer false; otherwise the new \<open>sign_permission\<close>.\<close>

definition do_init_check ::
    "int \<Rightarrow> int \<Rightarrow> 64 word \<Rightarrow> 64 word option \<Rightarrow> 'k permission list \<Rightarrow> 'k \<Rightarrow> 64 word option" where
  "do_init_check head_time start_time active link permissions sign_key =
     (if head_time < start_time then None
      else let create_permission = (case link of None \<Rightarrow> active | Some p \<Rightarrow> p)
           in find_permission sign_key active create_permission permissions)"

section \<open>The loop over the pool\<close>

record ('d, 'g) sign_row =
  primary :: "64 word"
  digest :: 'd
  signatures :: "(64 word \<times> 'g option) list"
  timestamp :: "64 word"

fun need_sign :: "64 word \<Rightarrow> (64 word \<times> 'g option) list \<Rightarrow> bool" where
  "need_sign me [] = False"
| "need_sign me ((signee, signature) # sigs) = (if signee = me \<and> signature = None then True else need_sign me sigs)"

text \<open>Seconds are multiplied in 64 bits and read as a signed number of microseconds.\<close>

definition sign_action ::
    "('d \<Rightarrow> 'g) \<Rightarrow> (64 word \<Rightarrow> 'g \<Rightarrow> 'a option) \<Rightarrow> 64 word \<Rightarrow> int \<Rightarrow> ('d, 'g) sign_row \<Rightarrow> 'a list" where
  "sign_action sign fill_action me irr_time ret =
     (if irr_time < sint (timestamp ret * 1000000) then []
      else if \<not> need_sign me (signatures ret) then []
      else case fill_action (primary ret) (sign (digest ret)) of None \<Rightarrow> [] | Some actn \<Rightarrow> [actn])"

partial_function (option) sign_loop ::
    "(64 word \<Rightarrow> ('d, 'g) sign_row list \<times> bool) \<Rightarrow> (('d, 'g) sign_row \<Rightarrow> 'a list) \<Rightarrow> 64 word \<Rightarrow> 64 word \<Rightarrow>
     'a list \<Rightarrow> 'a list option" where
  "sign_loop get_table_rows act lower prim pushed =
     (let (rows, more) = get_table_rows lower;
          pushed = pushed @ concat (map act rows);
          prim = (if rows = [] then prim else primary (last rows))
      in if more then sign_loop get_table_rows act prim prim pushed else Some pushed)"

definition handle_sign_action ::
    "(64 word \<Rightarrow> ('d, 'g) sign_row list \<times> bool) \<Rightarrow> ('s \<Rightarrow> 'd \<Rightarrow> 'g) \<Rightarrow> (64 word \<Rightarrow> 'g \<Rightarrow> 'a option) \<Rightarrow>
     64 word \<Rightarrow> int \<Rightarrow> 's \<Rightarrow> 's \<Rightarrow> 'a list option" where
  "handle_sign_action get_table_rows sign fill_action me irr_time blank producer_private_key =
     (if producer_private_key = blank then Some []
      else sign_loop get_table_rows (sign_action (sign producer_private_key) fill_action me irr_time) 0 0 [])"

text \<open>
  One tick: the timer is set again first; until the check has succeeded once it is repeated,
  and a tick on which it fails signs nothing.  The result is the permission and the actions.
\<close>

definition handle_action_loop ::
    "64 word option \<Rightarrow> 64 word option \<Rightarrow> (64 word \<Rightarrow> 'a list option) \<Rightarrow> 64 word option \<times> 'a list option" where
  "handle_action_loop sign_permission init_check sign_pool =
     (case sign_permission of
        Some p \<Rightarrow> (Some p, sign_pool p)
      | None \<Rightarrow>
          (case init_check of
             None \<Rightarrow> (None, Some [])
           | Some p \<Rightarrow> (Some p, sign_pool p)))"

section \<open>Transactions\<close>

definition default_expiration_delta :: int where "default_expiration_delta = 120"

record ('a, 'i) transaction =
  expiration :: "32 word"
  reference_block :: 'i
  max_net_usage_words :: nat
  max_cpu_usage_ms :: nat
  delay_sec :: nat
  actions :: "'a list"

definition set_transaction_headers ::
    "(int \<Rightarrow> 32 word) \<Rightarrow> int \<Rightarrow> 'i \<Rightarrow> ('a, 'i) transaction \<Rightarrow> int \<Rightarrow> nat \<Rightarrow> ('a, 'i) transaction" where
  "set_transaction_headers time_point_sec head_time irreversible_id trx expire delay =
     trx\<lparr>expiration := time_point_sec (head_time + expire * 1000000), reference_block := irreversible_id,
       max_net_usage_words := 0, max_cpu_usage_ms := 0, delay_sec := delay\<rparr>"

definition generate_signed_transaction_from_action ::
    "(int \<Rightarrow> 32 word) \<Rightarrow> int \<Rightarrow> 'i \<Rightarrow> (('a, 'i) transaction \<Rightarrow> 'g) \<Rightarrow> 64 word \<Rightarrow> ('a, 'i) transaction \<Rightarrow> 'a \<Rightarrow>
     (('a, 'i) transaction \<times> 'g) option" where
  "generate_signed_transaction_from_action time_point_sec head_time irreversible_id sign producer empty_trx actn =
     (if producer = 0 then None
      else let trx = empty_trx\<lparr>actions := actions empty_trx @ [actn]\<rparr>;
               trx = set_transaction_headers time_point_sec head_time irreversible_id trx default_expiration_delta 0
           in Some (trx, sign trx))"

text \<open>The bytes of a number, most significant first.\<close>

fun number_bytes :: "nat \<Rightarrow> nat \<Rightarrow> byte list" where
  "number_bytes 0 v = []"
| "number_bytes (Suc byte_length) v = of_nat (v mod 256) # number_bytes byte_length (v div 256)"

definition parse_number_to_string :: "nat \<Rightarrow> nat \<Rightarrow> byte list" where
  "parse_number_to_string byte_length v = rev (number_bytes byte_length v)"

section \<open>Paging\<close>

definition rows_from :: "('d, 'g) sign_row list \<Rightarrow> 64 word \<Rightarrow> ('d, 'g) sign_row list" where
  "rows_from table lower = filter (\<lambda>r. lower \<le> primary r) table"

text \<open>
  What is asked of a page: the rows from the bound on, cut after at least two when there are
  more, and whether there are more.
\<close>

definition pages_ok ::
    "('d, 'g) sign_row list \<Rightarrow> (64 word \<Rightarrow> ('d, 'g) sign_row list \<times> bool) \<Rightarrow> bool" where
  "pages_ok table get \<longleftrightarrow>
     sorted_wrt (\<lambda>r s. primary r < primary s) table \<and>
     (\<forall>lower. \<exists>k. get lower = (take k (rows_from table lower), k < length (rows_from table lower)) \<and>
        (k < length (rows_from table lower) \<longrightarrow> 2 \<le> k))"

lemma rows_from_boundary:
  assumes "sorted_wrt (\<lambda>r s. primary r < primary s) table" "i < length (rows_from table lower)"
  shows "rows_from table (primary (rows_from table lower ! i)) = drop i (rows_from table lower)"
proof -
  let ?R = "rows_from table lower"
  have s: "sorted_wrt (\<lambda>r s. primary r < primary s) ?R" using assms(1) by (simp add: rows_from_def sorted_wrt_filter)
  have "lower \<le> primary (?R ! i)" using nth_mem [OF assms(2)] by (simp add: rows_from_def)
  then have "rows_from table (primary (?R ! i)) = filter (\<lambda>r. primary (?R ! i) \<le> primary r) ?R"
    by (auto simp: rows_from_def intro!: filter_cong)
  also have "\<dots> = filter (\<lambda>r. primary (?R ! i) \<le> primary r) (take i ?R) @ filter (\<lambda>r. primary (?R ! i) \<le> primary r) (drop i ?R)"
    by (simp flip: filter_append)
  also have "filter (\<lambda>r. primary (?R ! i) \<le> primary r) (take i ?R) = []"
    using sorted_wrt_nth_less [OF s _ assms(2)] by (auto simp: filter_empty_conv in_set_conv_nth not_le)
  also have "filter (\<lambda>r. primary (?R ! i) \<le> primary r) (drop i ?R) = drop i ?R"
  proof (rule filter_True, rule ballI)
    fix r assume "r \<in> set (drop i ?R)"
    then obtain j where j: "r = ?R ! (i + j)" "i + j < length ?R" by (auto simp: in_set_conv_nth)
    then show "primary (?R ! i) \<le> primary r"
      using sorted_wrt_nth_less [OF s, of i "i + j"] by (cases "j = 0") auto
  qed
  finally show ?thesis by simp
qed

text \<open>
  The rows from a bound on are all acted on, in order; the first once, every other row once
  or twice.
\<close>

lemma sign_loop_rows:
  assumes "pages_ok table get"
  shows "\<exists>p. sign_loop get act lower prim acc = Some (acc @ p) \<and>
    (\<forall>a. count (mset (concat (map act (rows_from table lower)))) a \<le> count (mset p) a \<and>
      count (mset p) a \<le> count (mset (concat (map act (take 1 (rows_from table lower))))) a +
        2 * count (mset (concat (map act (drop 1 (rows_from table lower))))) a)"
proof (induction "length (rows_from table lower)" arbitrary: lower prim acc rule: less_induct)
  case less
  let ?R = "rows_from table lower" and ?c = "\<lambda>rs a. count (mset (concat (map act rs))) a"
  obtain k where k: "get lower = (take k ?R, k < length ?R)" "k < length ?R \<longrightarrow> 2 \<le> k"
    using assms unfolding pages_ok_def by meson
  show ?case
  proof (cases "k < length ?R")
    case False
    then have "sign_loop get act lower prim acc = Some (acc @ concat (map act ?R))"
      by (subst sign_loop.simps) (simp add: k(1))
    moreover have "?c ?R a = ?c (take 1 ?R) a + ?c (drop 1 ?R) a" for a
      by (metis append_take_drop_id concat_append count_union map_append mset_append)
    ultimately show ?thesis by (metis (no_types, lifting) add_le_mono1 le_add2 mult_2 nat_add_left_cancel_le order_refl)
  next
    case True
    then have two: "2 \<le> k" using k(2) by simp
    obtain x mid b ys where r: "?R = x # mid @ b # ys" "take k ?R = x # mid @ [b]" "k - 1 = Suc (length mid)"
    proof -
      have "take (k - 1) ?R \<noteq> []" using True two by auto
      then obtain x mid where xm: "take (k - 1) ?R = x # mid" by (cases "take (k - 1) ?R") auto
      have "length (x # mid) = k - 1" unfolding xm [symmetric] using True by simp
      moreover have "?R = take (k - 1) ?R @ ?R ! (k - 1) # drop (Suc (k - 1)) ?R"
        using True by (intro id_take_nth_drop) simp
      moreover have "take (Suc (k - 1)) ?R = take (k - 1) ?R @ [?R ! (k - 1)]"
        using True by (intro take_Suc_conv_app_nth) simp
      ultimately show ?thesis using that [of x mid "?R ! (k - 1)" "drop (Suc (k - 1)) ?R"] two xm by simp
    qed
    have step: "sign_loop get act lower prim acc =
        sign_loop get act (primary b) (primary b) (acc @ concat (map act (x # mid @ [b])))"
      by (subst sign_loop.simps) (simp add: k(1) True r(2) Let_def)
    have b: "?R ! (k - 1) = b" "drop (k - 1) ?R = b # ys" unfolding r(1,3) by (simp_all add: nth_append)
    have nx: "rows_from table (primary b) = b # ys"
      using rows_from_boundary [of table "k - 1" lower] assms True b by (simp add: pages_ok_def)
    have "length (rows_from table (primary b)) < length ?R" by (simp add: nx r(1))
    from less [OF this, of "primary b" "acc @ concat (map act (x # mid @ [b]))"] obtain p where
        p: "sign_loop get act lower prim acc = Some (acc @ concat (map act (x # mid @ [b])) @ p)"
          "\<And>a. ?c (b # ys) a \<le> count (mset p) a" "\<And>a. count (mset p) a \<le> ?c [b] a + 2 * ?c ys a"
      unfolding step nx by (auto simp del: concat.simps)
    have "?c ?R a \<le> count (mset (concat (map act (x # mid @ [b])) @ p)) a \<and>
        count (mset (concat (map act (x # mid @ [b])) @ p)) a \<le> ?c (take 1 ?R) a + 2 * ?c (drop 1 ?R) a" for a
      using p(2,3) [of a] by (simp add: r(1))
    then show ?thesis using p(1) by blast
  qed
qed

text \<open>A page of one row, at a bound that is that row's number, comes back for ever.\<close>

lemma sign_loop_stuck:
  fixes act :: "('d, 'g) sign_row \<Rightarrow> 'a list"
  assumes "get p = ([r], True)" "primary r = p"
  shows "sign_loop get act p q acc = None"
proof -
  have step: "\<not> (g = get \<and> l = p)" if "sign_loop g a l q acc = Some res" for g l q acc res and a :: "('d, 'g) sign_row \<Rightarrow> 'a list"
  proof (rule sign_loop.raw_induct [where P = "\<lambda>g a l _ _ _. \<not> (g = get \<and> l = p)", OF _ that])
    fix loop g a l q acc res
    assume ih: "\<And>g a l q acc res. loop g a l q acc = Some res \<Longrightarrow> \<not> (g = get \<and> l = p)"
      and run: "(let (rows, more) = g l; pushed = acc @ concat (map a rows); prim = if rows = [] then q else primary (last rows)
        in if more then loop g a prim prim pushed else Some pushed) = Some res"
    show "\<not> (g = get \<and> l = p)"
    proof
      assume gl: "g = get \<and> l = p"
      then have "loop g a p p (acc @ a r) = Some res" using run assms by (simp add: Let_def)
      then show False using ih gl by blast
    qed
  qed
  show ?thesis
  proof (rule ccontr)
    assume "sign_loop get act p q acc \<noteq> None"
    then obtain res where "sign_loop get act p q acc = Some res" by blast
    from step [OF this] show False by simp
  qed
qed

section \<open>Keys\<close>

lemma cut_at_Some: "cut_at d s = Some (a, b) \<longleftrightarrow> s = a @ d # b \<and> d \<notin> set a"
proof
  assume "cut_at d s = Some (a, b)"
  then have d: "d \<in> set s" "a = takeWhile (\<lambda>c. c \<noteq> d) s" "b = tl (dropWhile (\<lambda>c. c \<noteq> d) s)"
    by (simp_all add: cut_at_def split: if_splits)
  then have "dropWhile (\<lambda>c. c \<noteq> d) s \<noteq> []" by (simp add: dropWhile_eq_Nil_conv)
  then have "dropWhile (\<lambda>c. c \<noteq> d) s = d # b" using d(3) hd_dropWhile by (metis (full_types) list.collapse)
  then show "s = a @ d # b \<and> d \<notin> set a" using d(2) by (metis set_takeWhileD takeWhile_dropWhile_id)
next
  assume "s = a @ d # b \<and> d \<notin> set a"
  then show "cut_at d s = Some (a, b)"
    by (auto simp: cut_at_def takeWhile_append dropWhile_append)
qed

lemma enough_weight_iff: "enough_weight key t ks \<longleftrightarrow> (\<exists>w \<ge> t. (key, w) \<in> set ks)"
  by (induction key t ks rule: enough_weight.induct) auto

lemma find_permission_find:
  "find_permission key active create perms =
     map_option perm_name (find (\<lambda>q. (perm_name q = active \<or> perm_name q = create) \<and>
       enough_weight key (perm_threshold q) (perm_keys q)) perms)"
  by (induction perms) auto

lemma need_sign_iff: "need_sign me sigs \<longleftrightarrow> (me, None) \<in> set sigs"
  by (induction me sigs rule: need_sign.induct) auto

lemma get_key_find:
  "get_valid_private_key blank ps me providers =
     (case find (\<lambda>p. producer_name p = me \<and> providers (hd (producer_keys p)) \<noteq> None) ps of
        None \<Rightarrow> blank | Some p \<Rightarrow> the (providers (hd (producer_keys p))))"
  by (induction ps) (auto split: option.split)

section \<open>Properties\<close>

text \<open>
  C25: with pages of at least two rows (unless there are no more) one pass over the sign pool
  returns, and it makes the actions of exactly the rows that are old enough and still want
  this producer's signature, each at least once and, for the row that ends a page and begins
  the next, twice.
\<close>

theorem sign_pool_signed:
  assumes "pages_ok table get" "key \<noteq> blank" and act: "act = sign_action (sign key) fill me irr_time"
  shows "\<exists>pushed. handle_sign_action get sign fill me irr_time blank key = Some pushed \<and>
    set pushed = (\<Union>r \<in> set table. {a. sint (timestamp r * 1000000) \<le> irr_time \<and> (me, None) \<in> set (signatures r) \<and>
      fill (primary r) (sign key (digest r)) = Some a}) \<and>
    (\<forall>a. count (mset (concat (map act table))) a \<le> count (mset pushed) a \<and>
      count (mset pushed) a \<le> 2 * count (mset (concat (map act table))) a)"
proof -
  let ?c = "\<lambda>rs a. count (mset (concat (map act rs))) a"
  have "rows_from table 0 = table" by (simp add: rows_from_def)
  then obtain p where p: "sign_loop get act 0 0 [] = Some p"
      "\<And>a. ?c table a \<le> count (mset p) a" "\<And>a. count (mset p) a \<le> ?c (take 1 table) a + 2 * ?c (drop 1 table) a"
    using sign_loop_rows [OF assms(1), of act 0 0 "[]"] by auto
  have s: "?c table a = ?c (take 1 table) a + ?c (drop 1 table) a" for a
    by (metis append_take_drop_id concat_append count_union map_append mset_append)
  have two: "count (mset p) a \<le> 2 * ?c table a" for a using p(3) [of a] s [of a] by simp
  have "a \<in> set p \<longleftrightarrow> a \<in> set (concat (map act table))" for a
    using p(2) [of a] two [of a] unfolding set_mset_mset [symmetric] count_greater_zero_iff [symmetric] by linarith
  then have "set p = (\<Union>r \<in> set table. set (act r))" by auto
  also have "\<dots> = (\<Union>r \<in> set table. {a. sint (timestamp r * 1000000) \<le> irr_time \<and> (me, None) \<in> set (signatures r) \<and>
      fill (primary r) (sign key (digest r)) = Some a})"
    by (intro SUP_cong) (auto simp: act sign_action_def need_sign_iff split: option.splits)
  finally show ?thesis
    using p(1,2) two assms(2) by (auto simp: handle_sign_action_def act)
qed

definition sample_table :: "(nat, nat) sign_row list" where
  "sample_table = [\<lparr>primary = 1, digest = 10, signatures = [(9, None)], timestamp = 5\<rparr>,
     \<lparr>primary = 3, digest = 30, signatures = [(8, None), (9, None)], timestamp = 5\<rparr>,
     \<lparr>primary = 4, digest = 40, signatures = [(9, Some 2)], timestamp = 5\<rparr>]"

definition sample_pages :: "nat \<Rightarrow> 64 word \<Rightarrow> (nat, nat) sign_row list \<times> bool" where
  "sample_pages k lower = (take k (rows_from sample_table lower), k < length (rows_from sample_table lower))"

lemma sign_pool_signed_witness:
  "\<exists>pushed. handle_sign_action (sample_pages 2) (+) (\<lambda>p g. Some (p, g)) 9 5000000 0 7 = Some pushed \<and>
    set pushed = {(1, 17), (3, 37)}"
proof -
  have p: "pages_ok sample_table (sample_pages 2)"
    by (auto simp: pages_ok_def sample_pages_def sample_table_def)
  have t: "sint (5 * 1000000 :: 64 word) = 5000000" by code_simp
  show ?thesis
    using sign_pool_signed [OF p, of 7 0 _ "(+)" "\<lambda>p g. Some (p, g)" 9 5000000, OF _ refl]
    by (auto simp: sample_table_def t)
qed

text \<open>
  a pass does not return when a page holds only the row at its bound and says there are
  more: the next bound is that row's number again.
\<close>

theorem sign_pool_stuck:
  assumes "get 0 = ([r], True)" "get (primary r) = ([r], True)" "key \<noteq> blank"
  shows "handle_sign_action get sign fill me irr_time blank key = None"
  using assms sign_loop_stuck [of get "primary r" r]
  by (simp add: handle_sign_action_def) (simp add: sign_loop.simps [of get _ 0] Let_def)

lemma sign_pool_stuck_witness:
  "handle_sign_action (sample_pages 1) (+) (\<lambda>p g. Some (p, g)) 9 5000000 0 7 = None"
  using sign_pool_stuck [of "sample_pages 1" "hd sample_table" "7 :: nat" 0]
  by (simp add: sample_pages_def rows_from_def sample_table_def)

text \<open>
  the permission found at start is the producer's active one or the one linked to the
  action, and the signing key alone reaches its threshold; the check fails exactly when the
  head block is older than the start or there is no such permission.
\<close>

theorem init_check_permission:
  fixes perms :: "'k permission list"
  shows "do_init_check head_time start_time active link perms key =
     (if head_time < start_time then None
      else map_option perm_name (find (\<lambda>q. (perm_name q = active \<or> Some (perm_name q) = link) \<and>
        (\<exists>w \<ge> perm_threshold q. (key, w) \<in> set (perm_keys q))) perms))"
proof -
  have "(\<lambda>q :: 'k permission. (perm_name q = active \<or> perm_name q = (case link of None \<Rightarrow> active | Some p \<Rightarrow> p)) \<and>
        (\<exists>w \<ge> perm_threshold q. (key, w) \<in> set (perm_keys q))) =
      (\<lambda>q. (perm_name q = active \<or> Some (perm_name q) = link) \<and> (\<exists>w \<ge> perm_threshold q. (key, w) \<in> set (perm_keys q)))"
    by (rule ext) (auto split: option.splits)
  then show ?thesis by (simp add: do_init_check_def find_permission_find enough_weight_iff Let_def)
qed

text \<open>
  a provider option adds a key exactly when it reads PUB=KEY:PRIV with both keys valid;
  any other text, or another kind of provider, changes nothing.
\<close>

theorem provider_option:
  "(CHR ''='' \<notin> set pub \<and> pub_of pub = Some k \<and> priv_of dat = Some s \<longrightarrow>
      add_signature_provider pub_of priv_of (pub @ ''=KEY:'' @ dat) m = m(k \<mapsto> s)) \<and>
   ((\<forall>pub dat. str = pub @ ''=KEY:'' @ dat \<and> CHR ''='' \<notin> set pub \<longrightarrow> pub_of pub = None \<or> priv_of dat = None) \<longrightarrow>
      add_signature_provider pub_of priv_of str m = m)"
proof (intro conjI impI)
  assume p: "CHR ''='' \<notin> set pub \<and> pub_of pub = Some k \<and> priv_of dat = Some s"
  then have "cut_at (CHR ''='') (pub @ ''=KEY:'' @ dat) = Some (pub, ''KEY:'' @ dat)"
    "cut_at (CHR '':'') (''KEY:'' @ dat) = Some (''KEY'', dat)"
    by (simp_all add: cut_at_Some)
  then show "add_signature_provider pub_of priv_of (pub @ ''=KEY:'' @ dat) m = m(k \<mapsto> s)"
    using p unfolding add_signature_provider_def by simp
next
  assume none: "\<forall>pub dat. str = pub @ ''=KEY:'' @ dat \<and> CHR ''='' \<notin> set pub \<longrightarrow> pub_of pub = None \<or> priv_of dat = None"
  have "pub_of pub = None \<or> priv_of dat = None"
    if "cut_at (CHR ''='') str = Some (pub, spec)" "cut_at (CHR '':'') spec = Some (''KEY'', dat)" for pub spec dat
    using that none by (auto simp: cut_at_Some)
  then show "add_signature_provider pub_of priv_of str m = m"
    unfolding add_signature_provider_def by (fastforce split: option.split)
qed

lemma provider_option_witness:
  "add_signature_provider Some Some ''EOS5=KEY:5K:=x'' Map.empty = [''EOS5'' \<mapsto> ''5K:=x''] \<and>
   add_signature_provider Some Some ''EOS5=KEOSD:url'' [''a'' \<mapsto> ''b''] = [''a'' \<mapsto> ''b'']"
proof
  show "add_signature_provider Some Some ''EOS5=KEY:5K:=x'' Map.empty = [''EOS5'' \<mapsto> ''5K:=x'']"
    using provider_option [of "''EOS5''" Some "''EOS5''" Some "''5K:=x''" "''5K:=x''" Map.empty "[]"] by simp
  show "add_signature_provider Some Some ''EOS5=KEOSD:url'' [''a'' \<mapsto> ''b''] = [''a'' \<mapsto> ''b'']"
    using provider_option [of "[]" Some "[]" Some "[]" "[]" "[''a'' \<mapsto> ''b'']" "''EOS5=KEOSD:url''"]
    by (auto simp: append_eq_Cons_conv Cons_eq_append_conv)
qed

end
