(* ===== verification/Ripemd.thy ===== *)
theory Ripemd
  imports "HOL-Library.Word"
begin

unbundle bit_operations_syntax

text \<open>
  The RIPEMD-160 block function the build puts into OpenSSL (\<^verbatim>\<open>src/patch/openssl/rmd_dgst.c\<close>,
  \<^verbatim>\<open>rmd_local.h\<close>, \<^verbatim>\<open>rmdconst.h\<close>, \<^verbatim>\<open>ripemd.h\<close>).  The code unrolls both lines of eighty
  steps, and instead of moving the five registers it renames them from line to line; the
  tables give the word and the shift of each line.  The specification moves the registers
  and derives the tables: the word orders from two permutations, the shifts from one table
  by round and message word.

  \<open>ROTATE\<close> and \<open>HOST_c2l\<close> come from a header of OpenSSL itself and are parameters; the former
  is a rotation to the left.
\<close>

type_synonym w32 = "32 word"

section \<open>The code\<close>

record ripemd160_ctx =
  ctx_A :: w32
  ctx_B :: w32
  ctx_C :: w32
  ctx_D :: w32
  ctx_E :: w32
  ctx_Nl :: w32
  ctx_Nh :: w32
  ctx_data :: "w32 list"
  ctx_num :: w32

definition RIPEMD160_LBLOCK :: nat where "RIPEMD160_LBLOCK = 16"

definition RIPEMD160_A :: w32 where "RIPEMD160_A = 0x67452301"
definition RIPEMD160_B :: w32 where "RIPEMD160_B = 0xEFCDAB89"
definition RIPEMD160_C :: w32 where "RIPEMD160_C = 0x98BADCFE"
definition RIPEMD160_D :: w32 where "RIPEMD160_D = 0x10325476"
definition RIPEMD160_E :: w32 where "RIPEMD160_E = 0xC3D2E1F0"

definition RIPEMD160_Init :: "ripemd160_ctx \<Rightarrow> ripemd160_ctx" where
  "RIPEMD160_Init c = \<lparr>ctx_A = RIPEMD160_A, ctx_B = RIPEMD160_B, ctx_C = RIPEMD160_C, ctx_D = RIPEMD160_D,
     ctx_E = RIPEMD160_E, ctx_Nl = 0, ctx_Nh = 0, ctx_data = replicate RIPEMD160_LBLOCK 0, ctx_num = 0\<rparr>"

definition KL1 :: w32 where "KL1 = 0x5A827999"
definition KL2 :: w32 where "KL2 = 0x6ED9EBA1"
definition KL3 :: w32 where "KL3 = 0x8F1BBCDC"
definition KL4 :: w32 where "KL4 = 0xA953FD4E"
definition KR0 :: w32 where "KR0 = 0x50A28BE6"
definition KR1 :: w32 where "KR1 = 0x5C4DD124"
definition KR2 :: w32 where "KR2 = 0x6D703EF3"
definition KR3 :: w32 where "KR3 = 0x7A6D76E9"

text \<open>The word and the shift of each line, by rounds.\<close>

definition WSL0 :: "(nat \<times> nat) list" where
  "WSL0 = [(0, 11), (1, 14), (2, 15), (3, 12), (4, 5), (5, 8), (6, 7), (7, 9),
     (8, 11), (9, 13), (10, 14), (11, 15), (12, 6), (13, 7), (14, 9), (15, 8)]"

definition WSL1 :: "(nat \<times> nat) list" where
  "WSL1 = [(7, 7), (4, 6), (13, 8), (1, 13), (10, 11), (6, 9), (15, 7), (3, 15),
     (12, 7), (0, 12), (9, 15), (5, 9), (2, 11), (14, 7), (11, 13), (8, 12)]"

definition WSL2 :: "(nat \<times> nat) list" where
  "WSL2 = [(3, 11), (10, 13), (14, 6), (4, 7), (9, 14), (15, 9), (8, 13), (1, 15),
     (2, 14), (7, 8), (0, 13), (6, 6), (13, 5), (11, 12), (5, 7), (12, 5)]"

definition WSL3 :: "(nat \<times> nat) list" where
  "WSL3 = [(1, 11), (9, 12), (11, 14), (10, 15), (0, 14), (8, 15), (12, 9), (4, 8),
     (13, 9), (3, 14), (7, 5), (15, 6), (14, 8), (5, 6), (6, 5), (2, 12)]"

definition WSL4 :: "(nat \<times> nat) list" where
  "WSL4 = [(4, 9), (0, 15), (5, 5), (9, 11), (7, 6), (12, 8), (2, 13), (10, 12),
     (14, 5), (1, 12), (3, 13), (8, 14), (11, 11), (6, 8), (15, 5), (13, 6)]"

definition WSR0 :: "(nat \<times> nat) list" where
  "WSR0 = [(5, 8), (14, 9), (7, 9), (0, 11), (9, 13), (2, 15), (11, 15), (4, 5),
     (13, 7), (6, 7), (15, 8), (8, 11), (1, 14), (10, 14), (3, 12), (12, 6)]"

definition WSR1 :: "(nat \<times> nat) list" where
  "WSR1 = [(6, 9), (11, 13), (3, 15), (7, 7), (0, 12), (13, 8), (5, 9), (10, 11),
     (14, 7), (15, 7), (8, 12), (12, 7), (4, 6), (9, 15), (1, 13), (2, 11)]"

definition WSR2 :: "(nat \<times> nat) list" where
  "WSR2 = [(15, 9), (5, 7), (1, 15), (3, 11), (7, 8), (14, 6), (6, 6), (9, 14),
     (11, 12), (8, 13), (12, 5), (2, 14), (10, 13), (0, 13), (4, 7), (13, 5)]"

definition WSR3 :: "(nat \<times> nat) list" where
  "WSR3 = [(8, 15), (6, 5), (4, 8), (1, 11), (3, 14), (11, 14), (15, 6), (0, 14),
     (5, 6), (12, 9), (2, 12), (13, 9), (9, 12), (7, 5), (10, 15), (14, 8)]"

definition WSR4 :: "(nat \<times> nat) list" where
  "WSR4 = [(12, 8), (15, 5), (10, 12), (4, 9), (1, 12), (5, 5), (8, 14), (7, 6),
     (6, 8), (2, 13), (13, 6), (14, 5), (0, 15), (3, 13), (9, 11), (11, 11)]"

definition F1 :: "w32 \<Rightarrow> w32 \<Rightarrow> w32 \<Rightarrow> w32" where "F1 x y z = (x XOR y XOR z)"
definition F2 :: "w32 \<Rightarrow> w32 \<Rightarrow> w32 \<Rightarrow> w32" where "F2 x y z = (((y XOR z) AND x) XOR z)"
definition F3 :: "w32 \<Rightarrow> w32 \<Rightarrow> w32 \<Rightarrow> w32" where "F3 x y z = ((NOT y OR x) XOR z)"
definition F4 :: "w32 \<Rightarrow> w32 \<Rightarrow> w32 \<Rightarrow> w32" where "F4 x y z = (((x XOR y) AND z) XOR y)"
definition F5 :: "w32 \<Rightarrow> w32 \<Rightarrow> w32 \<Rightarrow> w32" where "F5 x y z = ((NOT z OR y) XOR x)"

text \<open>
  The registers are the list A, B, C, D, E; in line \<open>j\<close> of a half the parameters a to e of
  the macro are the registers from number \<open>- j\<close> on, cyclically.  The macros only write
  a and c.
\<close>

definition role :: "nat \<Rightarrow> nat \<Rightarrow> nat" where
  "role j k = (k + 4 * j) mod 5"

definition RIP1 :: "(w32 \<Rightarrow> nat \<Rightarrow> w32) \<Rightarrow> w32 list \<Rightarrow> w32 list \<Rightarrow> nat \<times> nat \<times> nat \<Rightarrow> w32 list" where
  "RIP1 ROTATE X regs l =
     (let (j, w, s) = l; a = role j 0; b = role j 1; c = role j 2; d = role j 3; e = role j 4;
          regs = regs[a := regs ! a + (F1 (regs ! b) (regs ! c) (regs ! d) + X ! w)];
          regs = regs[a := ROTATE (regs ! a) s + regs ! e]
      in regs[c := ROTATE (regs ! c) 10])"

definition RIP2 :: "(w32 \<Rightarrow> nat \<Rightarrow> w32) \<Rightarrow> w32 list \<Rightarrow> w32 \<Rightarrow> w32 list \<Rightarrow> nat \<times> nat \<times> nat \<Rightarrow> w32 list" where
  "RIP2 ROTATE X K regs l =
     (let (j, w, s) = l; a = role j 0; b = role j 1; c = role j 2; d = role j 3; e = role j 4;
          regs = regs[a := regs ! a + (F2 (regs ! b) (regs ! c) (regs ! d) + X ! w + K)];
          regs = regs[a := ROTATE (regs ! a) s + regs ! e]
      in regs[c := ROTATE (regs ! c) 10])"

definition RIP3 :: "(w32 \<Rightarrow> nat \<Rightarrow> w32) \<Rightarrow> w32 list \<Rightarrow> w32 \<Rightarrow> w32 list \<Rightarrow> nat \<times> nat \<times> nat \<Rightarrow> w32 list" where
  "RIP3 ROTATE X K regs l =
     (let (j, w, s) = l; a = role j 0; b = role j 1; c = role j 2; d = role j 3; e = role j 4;
          regs = regs[a := regs ! a + (F3 (regs ! b) (regs ! c) (regs ! d) + X ! w + K)];
          regs = regs[a := ROTATE (regs ! a) s + regs ! e]
      in regs[c := ROTATE (regs ! c) 10])"

definition RIP4 :: "(w32 \<Rightarrow> nat \<Rightarrow> w32) \<Rightarrow> w32 list \<Rightarrow> w32 \<Rightarrow> w32 list \<Rightarrow> nat \<times> nat \<times> nat \<Rightarrow> w32 list" where
  "RIP4 ROTATE X K regs l =
     (let (j, w, s) = l; a = role j 0; b = role j 1; c = role j 2; d = role j 3; e = role j 4;
          regs = regs[a := regs ! a + (F4 (regs ! b) (regs ! c) (regs ! d) + X ! w + K)];
          regs = regs[a := ROTATE (regs ! a) s + regs ! e]
      in regs[c := ROTATE (regs ! c) 10])"

definition RIP5 :: "(w32 \<Rightarrow> nat \<Rightarrow> w32) \<Rightarrow> w32 list \<Rightarrow> w32 \<Rightarrow> w32 list \<Rightarrow> nat \<times> nat \<times> nat \<Rightarrow> w32 list" where
  "RIP5 ROTATE X K regs l =
     (let (j, w, s) = l; a = role j 0; b = role j 1; c = role j 2; d = role j 3; e = role j 4;
          regs = regs[a := regs ! a + (F5 (regs ! b) (regs ! c) (regs ! d) + X ! w + K)];
          regs = regs[a := ROTATE (regs ! a) s + regs ! e]
      in regs[c := ROTATE (regs ! c) 10])"

text \<open>The lines of a round, numbered from its first; then the two halves.\<close>

definition lines :: "nat \<Rightarrow> (nat \<times> nat) list \<Rightarrow> (nat \<times> nat \<times> nat) list" where
  "lines first ws = zip [first..<first + 16] ws"

definition left_half :: "(w32 \<Rightarrow> nat \<Rightarrow> w32) \<Rightarrow> w32 list \<Rightarrow> w32 list \<Rightarrow> w32 list" where
  "left_half ROTATE X regs =
     (let regs = foldl (RIP1 ROTATE X) regs (lines 0 WSL0);
          regs = foldl (RIP2 ROTATE X KL1) regs (lines 16 WSL1);
          regs = foldl (RIP3 ROTATE X KL2) regs (lines 32 WSL2);
          regs = foldl (RIP4 ROTATE X KL3) regs (lines 48 WSL3)
      in foldl (RIP5 ROTATE X KL4) regs (lines 64 WSL4))"

definition right_half :: "(w32 \<Rightarrow> nat \<Rightarrow> w32) \<Rightarrow> w32 list \<Rightarrow> w32 list \<Rightarrow> w32 list" where
  "right_half ROTATE X regs =
     (let regs = foldl (RIP5 ROTATE X KR0) regs (lines 0 WSR0);
          regs = foldl (RIP4 ROTATE X KR1) regs (lines 16 WSR1);
          regs = foldl (RIP3 ROTATE X KR2) regs (lines 32 WSR2);
          regs = foldl (RIP2 ROTATE X KR3) regs (lines 48 WSR3)
      in foldl (RIP1 ROTATE X) regs (lines 64 WSR4))"

text \<open>
  One block.  The code reads the sixteen words in between the first round's lines, each
  before the line that uses it.
\<close>

definition ripemd160_block :: "(w32 \<Rightarrow> nat \<Rightarrow> w32) \<Rightarrow> ripemd160_ctx \<Rightarrow> w32 list \<Rightarrow> ripemd160_ctx" where
  "ripemd160_block ROTATE ctx X =
     (let regs = [ctx_A ctx, ctx_B ctx, ctx_C ctx, ctx_D ctx, ctx_E ctx];
          l = left_half ROTATE X regs;
          r = right_half ROTATE X regs;
          D = ctx_B ctx + l ! 2 + r ! 3;
          ctx = ctx\<lparr>ctx_B := ctx_C ctx + l ! 3 + r ! 4\<rparr>;
          ctx = ctx\<lparr>ctx_C := ctx_D ctx + l ! 4 + r ! 0\<rparr>;
          ctx = ctx\<lparr>ctx_D := ctx_E ctx + l ! 0 + r ! 1\<rparr>;
          ctx = ctx\<lparr>ctx_E := ctx_A ctx + l ! 1 + r ! 2\<rparr>
      in ctx\<lparr>ctx_A := D\<rparr>)"

fun ripemd160_block_data_order ::
    "(w32 \<Rightarrow> nat \<Rightarrow> w32) \<Rightarrow> (8 word list \<Rightarrow> w32) \<Rightarrow> ripemd160_ctx \<Rightarrow> 8 word list \<Rightarrow> nat \<Rightarrow> ripemd160_ctx" where
  "ripemd160_block_data_order ROTATE HOST_c2l ctx data 0 = ctx"
| "ripemd160_block_data_order ROTATE HOST_c2l ctx data (Suc num) =
     (let X = map (\<lambda>i. HOST_c2l (take 4 (drop (4 * i) data))) [0..<16]
      in ripemd160_block_data_order ROTATE HOST_c2l (ripemd160_block ROTATE ctx X) (drop 64 data) num)"

section \<open>RIPEMD-160\<close>

definition spec_f :: "nat \<Rightarrow> w32 \<Rightarrow> w32 \<Rightarrow> w32 \<Rightarrow> w32" where
  "spec_f round x y z =
     (if round = 0 then x XOR y XOR z
      else if round = 1 then (x AND y) OR (NOT x AND z)
      else if round = 2 then (x OR NOT y) XOR z
      else if round = 3 then (x AND z) OR (y AND NOT z)
      else x XOR (y OR NOT z))"

text \<open>The constants are the roots of 2, 3, 5 and 7, square on the left and cubic on the right.\<close>

definition spec_K :: "nat \<Rightarrow> w32" where
  "spec_K round = [0, 0x5A827999, 0x6ED9EBA1, 0x8F1BBCDC, 0xA953FD4E] ! round"

definition spec_K' :: "nat \<Rightarrow> w32" where
  "spec_K' round = [0x50A28BE6, 0x5C4DD124, 0x6D703EF3, 0x7A6D76E9, 0] ! round"

text \<open>The two permutations, and the words of a round.\<close>

definition spec_rho :: "nat \<Rightarrow> nat" where
  "spec_rho i = [7, 4, 13, 1, 10, 6, 15, 3, 12, 0, 9, 5, 2, 14, 11, 8] ! i"

definition spec_pi :: "nat \<Rightarrow> nat" where
  "spec_pi i = (9 * i + 5) mod 16"

definition spec_r :: "nat \<Rightarrow> nat \<Rightarrow> nat" where
  "spec_r round i = (spec_rho ^^ round) i"

definition spec_r' :: "nat \<Rightarrow> nat \<Rightarrow> nat" where
  "spec_r' round i = (spec_rho ^^ round) (spec_pi i)"

text \<open>The shift of a message word in a round, the same on both sides.\<close>

definition spec_shift :: "nat \<Rightarrow> nat \<Rightarrow> nat" where
  "spec_shift round w =
     [[11, 14, 15, 12, 5, 8, 7, 9, 11, 13, 14, 15, 6, 7, 9, 8],
      [12, 13, 11, 15, 6, 9, 9, 7, 12, 15, 11, 13, 7, 8, 7, 7],
      [13, 15, 14, 11, 7, 7, 6, 8, 13, 14, 13, 12, 5, 5, 6, 9],
      [14, 11, 12, 14, 8, 6, 5, 5, 15, 12, 15, 14, 9, 9, 8, 6],
      [15, 12, 13, 13, 9, 5, 8, 6, 14, 11, 12, 11, 8, 6, 5, 5]] ! round ! w"

type_synonym rip_state = "w32 \<times> w32 \<times> w32 \<times> w32 \<times> w32"

fun spec_step :: "(w32 \<Rightarrow> w32 \<Rightarrow> w32 \<Rightarrow> w32) \<Rightarrow> w32 \<Rightarrow> w32 \<Rightarrow> nat \<Rightarrow> rip_state \<Rightarrow> rip_state" where
  "spec_step f k x s (A, B, C, D, E) =
     (E, word_rotl s (A + f B C D + x + k) + E, B, word_rotl 10 C, D)"

definition spec_left :: "w32 list \<Rightarrow> rip_state \<Rightarrow> rip_state" where
  "spec_left X st = foldl (\<lambda>st j. let round = j div 16; w = spec_r round (j mod 16)
      in spec_step (spec_f round) (spec_K round) (X ! w) (spec_shift round w) st) st [0..<80]"

definition spec_right :: "w32 list \<Rightarrow> rip_state \<Rightarrow> rip_state" where
  "spec_right X st = foldl (\<lambda>st j. let round = j div 16; w = spec_r' round (j mod 16)
      in spec_step (spec_f (4 - round)) (spec_K' round) (X ! w) (spec_shift round w) st) st [0..<80]"

definition spec_compress :: "rip_state \<Rightarrow> w32 list \<Rightarrow> rip_state" where
  "spec_compress h X =
     (let (h0, h1, h2, h3, h4) = h; (A, B, C, D, E) = spec_left X h; (A', B', C', D', E') = spec_right X h
      in (h1 + C + D', h2 + D + E', h3 + E + A', h4 + A + B', h0 + B + C'))"

section \<open>The lines are the steps\<close>

definition rip :: "(w32 \<Rightarrow> w32 \<Rightarrow> w32 \<Rightarrow> w32) \<Rightarrow> (w32 \<Rightarrow> nat \<Rightarrow> w32) \<Rightarrow> w32 list \<Rightarrow> w32 \<Rightarrow> w32 list \<Rightarrow> nat \<times> nat \<times> nat \<Rightarrow> w32 list" where
  "rip f ROTATE X K regs l =
     (let (j, w, s) = l; a = role j 0; b = role j 1; c = role j 2; d = role j 3; e = role j 4;
          regs = regs[a := regs ! a + (f (regs ! b) (regs ! c) (regs ! d) + X ! w + K)];
          regs = regs[a := ROTATE (regs ! a) s + regs ! e]
      in regs[c := ROTATE (regs ! c) 10])"

lemma macros_rip:
  "RIP1 ROTATE X = rip F1 ROTATE X 0" "RIP2 ROTATE X = rip F2 ROTATE X" "RIP3 ROTATE X = rip F3 ROTATE X"
  "RIP4 ROTATE X = rip F4 ROTATE X" "RIP5 ROTATE X = rip F5 ROTATE X"
  by (simp_all add: fun_eq_iff RIP1_def RIP2_def RIP3_def RIP4_def RIP5_def rip_def)

lemma macro_functions:
  "F1 = spec_f 0" "F2 = spec_f 1" "F3 = spec_f 2" "F4 = spec_f 3" "F5 = spec_f 4"
proof -
  show "F1 = spec_f 0" by (simp add: fun_eq_iff F1_def spec_f_def)
  show "F2 = spec_f 1" by (intro ext bit_word_eqI) (auto simp: F2_def spec_f_def bit_simps)
  show "F3 = spec_f 2" by (intro ext bit_word_eqI) (auto simp: F3_def spec_f_def bit_simps)
  show "F4 = spec_f 3" by (intro ext bit_word_eqI) (auto simp: F4_def spec_f_def bit_simps)
  show "F5 = spec_f 4" by (intro ext bit_word_eqI) (auto simp: F5_def spec_f_def bit_simps)
qed

text \<open>The registers in the roles of line \<open>j\<close>.\<close>

definition view :: "nat \<Rightarrow> w32 list \<Rightarrow> rip_state" where
  "view j regs = (regs ! role j 0, regs ! role j 1, regs ! role j 2, regs ! role j 3, regs ! role j 4)"

lemma role_mod: "role (5 * q + m) k = role m k"
proof -
  have "k + 4 * (5 * q + m) = (k + 4 * m) + 5 * (4 * q)" by simp
  then show ?thesis unfolding role_def by (simp only: mod_mult_self2)
qed

lemma rip_step:
  assumes "length regs = 5"
  shows "view (Suc j) (rip f (\<lambda>x n. word_rotl n x) X K regs (j, w, s)) = spec_step f K (X ! w) s (view j regs)"
    "length (rip f (\<lambda>x n. word_rotl n x) X K regs (j, w, s)) = 5"
proof -
  obtain a b c d e where r: "regs = [a, b, c, d, e]" using assms by (auto simp: numeral_eq_Suc length_Suc_conv)
  define m where "m = j mod 5"
  have "j = 5 * (j div 5) + m" "Suc j = 5 * (j div 5) + Suc m" by (simp_all add: m_def)
  then have role: "role j k = role m k" "role (Suc j) k = role (Suc m) k" for k using role_mod by metis+
  have "m < 5" by (simp add: m_def)
  then consider "m = 0" | "m = 1" | "m = 2" | "m = 3" | "m = 4" by linarith
  moreover have "rip f (\<lambda>x n. word_rotl n x) X K regs (j, w, s) = rip f (\<lambda>x n. word_rotl n x) X K regs (m, w, s)"
    by (simp only: rip_def Let_def prod.case role(1))
  ultimately show "view (Suc j) (rip f (\<lambda>x n. word_rotl n x) X K regs (j, w, s)) = spec_step f K (X ! w) s (view j regs)"
    unfolding view_def role r by cases (simp_all add: role_def rip_def Let_def add.assoc)
  show "length (rip f (\<lambda>x n. word_rotl n x) X K regs (j, w, s)) = 5" by (simp add: rip_def Let_def assms)
qed

lemma rip_round:
  assumes "length ws = 16"
  shows "length regs = 5 \<Longrightarrow> n \<le> 16 \<Longrightarrow>
    view (first + n) (foldl (rip f (\<lambda>x n. word_rotl n x) X K) regs (take n (lines first ws))) =
      foldl (\<lambda>st i. spec_step f K (X ! fst (ws ! i)) (snd (ws ! i)) st) (view first regs) [0..<n] \<and>
    length (foldl (rip f (\<lambda>x n. word_rotl n x) X K) regs (take n (lines first ws))) = 5"
proof (induction n)
  case (Suc n)
  have n: "n < length (lines first ws)" "lines first ws ! n = (first + n, ws ! n)"
    using Suc.prems(2) assms by (simp_all add: lines_def)
  obtain w s where ws: "ws ! n = (w, s)" by fastforce
  show ?case
    using Suc rip_step [where regs = "foldl (rip f (\<lambda>x n. word_rotl n x) X K) regs (take n (lines first ws))" and
        j = "first + n" and f = f and X = X and K = K and w = w and s = s]
    by (simp add: take_Suc_conv_app_nth [OF n(1)] n(2) ws)
qed simp

text \<open>One round of each half, given that the table is the specification's.\<close>

lemma round_spec:
  assumes "ws = map (\<lambda>i. (r i, sh (r i))) [0..<16]" "length regs = 5"
  shows "view (first + 16) (foldl (rip f (\<lambda>x n. word_rotl n x) X K) regs (lines first ws)) =
      foldl (\<lambda>st i. spec_step f K (X ! r i) (sh (r i)) st) (view first regs) [0..<16]"
    "length (foldl (rip f (\<lambda>x n. word_rotl n x) X K) regs (lines first ws)) = 5"
proof -
  have l: "length ws = 16" by (simp add: assms(1))
  have t: "take 16 (lines first ws) = lines first ws" by (simp add: lines_def l)
  have "foldl (\<lambda>st i. spec_step f K (X ! fst (ws ! i)) (snd (ws ! i)) st) st [0..<16] =
      foldl (\<lambda>st i. spec_step f K (X ! r i) (sh (r i)) st) st [0..<16]" for st
    by (intro foldl_cong) (auto simp: assms(1))
  then show "view (first + 16) (foldl (rip f (\<lambda>x n. word_rotl n x) X K) regs (lines first ws)) =
      foldl (\<lambda>st i. spec_step f K (X ! r i) (sh (r i)) st) (view first regs) [0..<16]"
    "length (foldl (rip f (\<lambda>x n. word_rotl n x) X K) regs (lines first ws)) = 5"
    using rip_round [OF l assms(2) order_refl, of first f X K] t by simp_all
qed

lemma left_tables:
  "WSL0 = map (\<lambda>i. (spec_r 0 i, spec_shift 0 (spec_r 0 i))) [0..<16]"
  "WSL1 = map (\<lambda>i. (spec_r 1 i, spec_shift 1 (spec_r 1 i))) [0..<16]"
  "WSL2 = map (\<lambda>i. (spec_r 2 i, spec_shift 2 (spec_r 2 i))) [0..<16]"
  "WSL3 = map (\<lambda>i. (spec_r 3 i, spec_shift 3 (spec_r 3 i))) [0..<16]"
  "WSL4 = map (\<lambda>i. (spec_r 4 i, spec_shift 4 (spec_r 4 i))) [0..<16]"
  by code_simp+

lemma right_tables:
  "WSR0 = map (\<lambda>i. (spec_r' 0 i, spec_shift 0 (spec_r' 0 i))) [0..<16]"
  "WSR1 = map (\<lambda>i. (spec_r' 1 i, spec_shift 1 (spec_r' 1 i))) [0..<16]"
  "WSR2 = map (\<lambda>i. (spec_r' 2 i, spec_shift 2 (spec_r' 2 i))) [0..<16]"
  "WSR3 = map (\<lambda>i. (spec_r' 3 i, spec_shift 3 (spec_r' 3 i))) [0..<16]"
  "WSR4 = map (\<lambda>i. (spec_r' 4 i, spec_shift 4 (spec_r' 4 i))) [0..<16]"
  by code_simp+

lemma foldl_rounds:
  "foldl (\<lambda>st j. g (j div 16) (j mod 16) st) st [0..<80] =
     foldl (\<lambda>st i. g 4 i st) (foldl (\<lambda>st i. g 3 i st) (foldl (\<lambda>st i. g 2 i st)
       (foldl (\<lambda>st i. g 1 i st) (foldl (\<lambda>st i. g 0 i st) st [0..<16]) [0..<16]) [0..<16]) [0..<16]) [0..<16]"
proof -
  have "[0..<80] = map (\<lambda>i. 16 * 0 + i) [0..<16] @ map (\<lambda>i. 16 * 1 + i) [0..<16] @ map (\<lambda>i. 16 * 2 + i) [0..<16] @
      map (\<lambda>i. 16 * 3 + i) [0..<16] @ map (\<lambda>i. 16 * 4 + i) [0..<16::nat]"
    by code_simp
  moreover have "foldl (\<lambda>st j. g (j div 16) (j mod 16) st) st (map (\<lambda>i. 16 * r + i) [0..<16]) =
      foldl (\<lambda>st i. g r i st) st [0..<16]" for r st
    unfolding foldl_map by (intro foldl_cong) auto
  ultimately show ?thesis by (simp only: foldl_append)
qed

lemma left_half_spec:
  assumes "length regs = 5"
  shows "view 80 (left_half (\<lambda>x n. word_rotl n x) X regs) = spec_left X (view 0 regs)"
    "length (left_half (\<lambda>x n. word_rotl n x) X regs) = 5"
proof -
  note a = round_spec [OF left_tables(1) assms, where first = 0 and f = "spec_f 0" and X = X and K = 0]
  note b = round_spec [OF left_tables(2) a(2), where first = 16 and f = "spec_f 1" and X = X and K = KL1]
  note c = round_spec [OF left_tables(3) b(2), where first = 32 and f = "spec_f 2" and X = X and K = KL2]
  note d = round_spec [OF left_tables(4) c(2), where first = 48 and f = "spec_f 3" and X = X and K = KL3]
  note e = round_spec [OF left_tables(5) d(2), where first = 64 and f = "spec_f 4" and X = X and K = KL4]
  have K: "spec_K 0 = 0" "spec_K 1 = KL1" "spec_K 2 = KL2" "spec_K 3 = KL3" "spec_K 4 = KL4"
    by (simp_all add: spec_K_def KL1_def KL2_def KL3_def KL4_def)
  show "view 80 (left_half (\<lambda>x n. word_rotl n x) X regs) = spec_left X (view 0 regs)"
    using a(1) b(1) c(1) d(1) e(1)
    unfolding left_half_def macros_rip macro_functions Let_def spec_left_def
      foldl_rounds [of "\<lambda>r i. spec_step (spec_f r) (spec_K r) (X ! spec_r r i) (spec_shift r (spec_r r i))"] K by simp
  show "length (left_half (\<lambda>x n. word_rotl n x) X regs) = 5"
    using e(2) unfolding left_half_def macros_rip macro_functions Let_def .
qed

lemma right_half_spec:
  assumes "length regs = 5"
  shows "view 80 (right_half (\<lambda>x n. word_rotl n x) X regs) = spec_right X (view 0 regs)"
    "length (right_half (\<lambda>x n. word_rotl n x) X regs) = 5"
proof -
  note a = round_spec [OF right_tables(1) assms, where first = 0 and f = "spec_f 4" and X = X and K = KR0]
  note b = round_spec [OF right_tables(2) a(2), where first = 16 and f = "spec_f 3" and X = X and K = KR1]
  note c = round_spec [OF right_tables(3) b(2), where first = 32 and f = "spec_f 2" and X = X and K = KR2]
  note d = round_spec [OF right_tables(4) c(2), where first = 48 and f = "spec_f 1" and X = X and K = KR3]
  note e = round_spec [OF right_tables(5) d(2), where first = 64 and f = "spec_f 0" and X = X and K = 0]
  have K: "spec_K' 0 = KR0" "spec_K' 1 = KR1" "spec_K' 2 = KR2" "spec_K' 3 = KR3" "spec_K' 4 = 0"
    by (simp_all add: spec_K'_def KR0_def KR1_def KR2_def KR3_def)
  have f: "4 - 0 = (4::nat)" "4 - 1 = (3::nat)" "4 - 2 = (2::nat)" "4 - 3 = (1::nat)" "4 - 4 = (0::nat)" by simp_all
  show "view 80 (right_half (\<lambda>x n. word_rotl n x) X regs) = spec_right X (view 0 regs)"
    using a(1) b(1) c(1) d(1) e(1)
    unfolding right_half_def macros_rip macro_functions Let_def spec_right_def
      foldl_rounds [of "\<lambda>r i. spec_step (spec_f (4 - r)) (spec_K' r) (X ! spec_r' r i) (spec_shift r (spec_r' r i))"] K f by simp
  show "length (right_half (\<lambda>x n. word_rotl n x) X regs) = 5"
    using e(2) unfolding right_half_def macros_rip macro_functions Let_def .
qed

section \<open>Properties\<close>

definition chain :: "ripemd160_ctx \<Rightarrow> rip_state" where
  "chain ctx = (ctx_A ctx, ctx_B ctx, ctx_C ctx, ctx_D ctx, ctx_E ctx)"

lemma block_spec:
  "chain (ripemd160_block (\<lambda>x n. word_rotl n x) ctx X) = spec_compress (chain ctx) X"
proof -
  let ?regs = "[ctx_A ctx, ctx_B ctx, ctx_C ctx, ctx_D ctx, ctx_E ctx]"
  let ?l = "left_half (\<lambda>x n. word_rotl n x) X ?regs" and ?r = "right_half (\<lambda>x n. word_rotl n x) X ?regs"
  have r: "role 80 k = k" "role 0 k = k" if "k < 5" for k
    using that role_mod [of 16 0 k] by (simp_all add: role_def)
  have v: "view 0 ?regs = chain ctx" by (simp add: view_def r chain_def)
  have "spec_left X (chain ctx) = (?l ! 0, ?l ! 1, ?l ! 2, ?l ! 3, ?l ! 4)"
    "spec_right X (chain ctx) = (?r ! 0, ?r ! 1, ?r ! 2, ?r ! 3, ?r ! 4)"
    using left_half_spec(1) [of ?regs X] right_half_spec(1) [of ?regs X] unfolding v by (simp_all add: view_def r)
  then show ?thesis by (simp add: spec_compress_def ripemd160_block_def Let_def) (simp add: chain_def)
qed

text \<open>
  C22: from the standard's initial value, or any other, the unrolled block function with its
  renamed registers is RIPEMD-160's compression of the blocks one after the other, the words
  of a block read from its bytes in order; the tables in the code are the ones the standard
  derives, and its constants are the integer parts of \<open>2^30\<close> times the square and cube roots
  of 2, 3, 5 and 7.
\<close>

theorem ripemd160_compresses:
  assumes "\<forall>x n. ROTATE x n = word_rotl n x"
  shows "chain (ripemd160_block_data_order ROTATE HOST_c2l ctx data num) =
      foldl (\<lambda>h i. spec_compress h (map (\<lambda>j. HOST_c2l (take 4 (drop (4 * j) (drop (64 * i) data)))) [0..<16]))
        (chain ctx) [0..<num] \<and>
    chain (RIPEMD160_Init ctx) = (0x67452301, 0xEFCDAB89, 0x98BADCFE, 0x10325476, 0xC3D2E1F0) \<and>
    (\<forall>(k, p) \<in> {(KL1, 2), (KL2, 3), (KL3, 5), (KL4, 7)}. uint k ^ 2 \<le> p * 2 ^ 60 \<and> p * 2 ^ 60 < (uint k + 1) ^ 2) \<and>
    (\<forall>(k, p) \<in> {(KR0, 2), (KR1, 3), (KR2, 5), (KR3, 7)}. uint k ^ 3 \<le> p * 2 ^ 90 \<and> p * 2 ^ 90 < (uint k + 1) ^ 3)"
proof -
  have rot: "ROTATE = (\<lambda>x n. word_rotl n x)" using assms by (simp add: fun_eq_iff)
  have "chain (ripemd160_block_data_order ROTATE HOST_c2l ctx data num) =
      foldl (\<lambda>h i. spec_compress h (map (\<lambda>j. HOST_c2l (take 4 (drop (4 * j) (drop (64 * i) data)))) [0..<16]))
        (chain ctx) [0..<num]"
  proof (induction num arbitrary: ctx data)
    case (Suc num)
    have "[0..<Suc num] = 0 # map Suc [0..<num]" by (simp add: upt_conv_Cons map_Suc_upt del: upt_Suc)
    then show ?case
      using Suc by (simp add: rot block_spec foldl_map ac_simps del: upt_Suc)
  qed simp
  moreover have "chain (RIPEMD160_Init ctx) = (0x67452301, 0xEFCDAB89, 0x98BADCFE, 0x10325476, 0xC3D2E1F0)"
    by (simp add: chain_def RIPEMD160_Init_def RIPEMD160_A_def RIPEMD160_B_def RIPEMD160_C_def RIPEMD160_D_def RIPEMD160_E_def)
  moreover have "\<forall>(k, p) \<in> {(KL1, 2), (KL2, 3), (KL3, 5), (KL4, 7)}. uint k ^ 2 \<le> p * 2 ^ 60 \<and> p * 2 ^ 60 < (uint k + 1) ^ 2"
    by (simp add: KL1_def KL2_def KL3_def KL4_def)
  moreover have "\<forall>(k, p) \<in> {(KR0, 2), (KR1, 3), (KR2, 5), (KR3, 7)}. uint k ^ 3 \<le> p * 2 ^ 90 \<and> p * 2 ^ 90 < (uint k + 1) ^ 3"
    by (simp add: KR0_def KR1_def KR2_def KR3_def)
  ultimately show ?thesis by blast
qed

definition blank_ctx :: ripemd160_ctx where
  "blank_ctx = \<lparr>ctx_A = 0, ctx_B = 0, ctx_C = 0, ctx_D = 0, ctx_E = 0, ctx_Nl = 0, ctx_Nh = 0,
     ctx_data = replicate 16 0, ctx_num = 0\<rparr>"

lemma ripemd160_compresses_witness:
  "chain (ripemd160_block_data_order (\<lambda>x n. word_rotl n x) (\<lambda>b. of_nat (length b)) (RIPEMD160_Init blank_ctx) (replicate 64 0) 1) =
     spec_compress (0x67452301, 0xEFCDAB89, 0x98BADCFE, 0x10325476, 0xC3D2E1F0) (replicate 16 4)"
proof -
  have "map (\<lambda>j. of_nat (length (take 4 (drop (4 * j) (replicate 64 (0 :: 8 word)))))) [0..<16] = (replicate 16 4 :: w32 list)"
    by (simp add: numeral_eq_Suc)
  then show ?thesis
    using ripemd160_compresses [of "\<lambda>x n. word_rotl n x" "\<lambda>b. of_nat (length b)" "RIPEMD160_Init blank_ctx" "replicate 64 0" 1]
      ripemd160_compresses [of "\<lambda>x n. word_rotl n x" "\<lambda>b. of_nat (length b)" blank_ctx "[]" 0] by simp
qed

end
