(* ===== verification/Js_Value.thy ===== *)
theory Js_Value
  imports Prelude "HOL-Library.AList"
begin

text \<open>
  The values a contract written in JavaScript exchanges with the chain:
  \<^verbatim>\<open>src/base/js_value.cpp\<close> (\<open>js_value\<close>, \<open>js_variant\<close>, \<open>fc_value\<close>) and
  \<^verbatim>\<open>include/js_value.h\<close> (\<open>string_to_name\<close>).

  \<open>fcv\<close> is the chain's variant, \<open>jsv\<close> a JavaScript value as far as the code tells values
  apart, \<open>nvar\<close> the runtime's own variant.  Texts are the bytes of their UTF-8 encoding; what
  the engine makes of bytes that are not UTF-8 is the parameter \<open>new_string\<close>.  A double is
  \<open>m * 2^e\<close>, an infinity or NaN.  The properties of an object stand in the order they were
  first set, own properties only, no getters; a name that is an array index or \<open>__proto__\<close> is
  outside the model.
\<close>

section \<open>Values\<close>

datatype dbl = DNaN | DInf bool | DFin int int

datatype fcv =
    FNull
  | FInt64 "64 word"
  | FUInt64 "64 word"
  | FDouble dbl
  | FBool bool
  | FString string
  | FArray "fcv list"
  | FObject "(string \<times> fcv) list"
  | FBlob "8 word list"

text \<open>\<open>JStringObj\<close> and its like are the boxed values (\<open>new String(s)\<close>); a function is the
  handle the engine keeps for it.\<close>

datatype jsv =
    JUndefined
  | JNull
  | JBool bool
  | JNumber dbl
  | JBigInt int
  | JString string
  | JBooleanObj bool
  | JNumberObj dbl
  | JBigIntObj int
  | JStringObj string
  | JArray "jsv list"
  | JBuffer "8 word list"
  | JObject "(string \<times> jsv) list"
  | JFunction nat

datatype nvar =
    VNull
  | VInt64 "64 word"
  | VDouble dbl
  | VBool bool
  | VString string
  | VArray "nvar list"
  | VObject "(string \<times> nvar) list"
  | VBuffer "8 word list"

text \<open>A C++ exception that is on its way, or an error code an operation returned: \<open>Set_error\<close>
  is Runtime::setError.  A chain exception carries the values its message is formatted with.\<close>

datatype exn = Chain_exception string "(string \<times> int) list" | Fc_exception string | Std_exception string | Other_exception

datatype js_error =
    Set_error string
  | Wrong_type
  | Param_not_optional
  | Invalid_call
  | Thrown exn

text \<open>What the engine and the chain's name type do for the code: \<open>arg_string\<close> is
  GetArgumentValue to a string, \<open>name_value\<close> and \<open>name_text\<close> are the chain's conversions
  between a text and a name, \<open>conv_out_of_range\<close> is what the compiler's conversion of a
  double gives outside the range of the integer type.\<close>

record js_env =
  new_string :: "string \<Rightarrow> string"
  arg_string :: "jsv \<Rightarrow> js_error + string"
  name_value :: "string \<Rightarrow> 64 word"
  name_text :: "64 word \<Rightarrow> string"
  conv_out_of_range :: "dbl \<Rightarrow> 64 word"

section \<open>From the chain to JavaScript\<close>

definition set_all :: "('k \<times> 'v) list \<Rightarrow> ('k \<times> 'v) list" where
  "set_all kvs = foldl (\<lambda>obj (k, v). AList.update k v obj) [] kvs"

primrec js_value :: "(string \<Rightarrow> string) \<Rightarrow> fcv \<Rightarrow> jsv" where
  "js_value nstr FNull = JNull"
| "js_value nstr (FInt64 w) = JBigInt (sint w)"
| "js_value nstr (FUInt64 w) = JBigInt (uint w)"
| "js_value nstr (FDouble d) = JNumber d"
| "js_value nstr (FBool b) = JBool b"
| "js_value nstr (FString s) = JString (nstr s)"
| "js_value nstr (FArray vs) = JArray (map (js_value nstr) vs)"
| "js_value nstr (FObject kvs) = JObject (set_all (map (map_prod nstr id) (map (map_prod id (js_value nstr)) kvs)))"
| "js_value nstr (FBlob bs) = JBuffer bs"

text \<open>The runtime's variant has no unsigned 64-bit integer: \<open>as_int64\<close> keeps the bits and
  changes the sign.  \<open>add\<close> is the method of the runtime's object.\<close>

primrec js_variant ::
    "((string \<times> nvar) list \<Rightarrow> string \<Rightarrow> nvar \<Rightarrow> (string \<times> nvar) list) \<Rightarrow> fcv \<Rightarrow> nvar" where
  "js_variant add FNull = VNull"
| "js_variant add (FInt64 w) = VInt64 w"
| "js_variant add (FUInt64 w) = VInt64 w"
| "js_variant add (FDouble d) = VDouble d"
| "js_variant add (FBool b) = VBool b"
| "js_variant add (FString s) = VString s"
| "js_variant add (FArray vs) = VArray (map (js_variant add) vs)"
| "js_variant add (FObject kvs) =
     VObject (foldl (\<lambda>obj (k, v). add obj k v) [] (map (map_prod id (js_variant add)) kvs))"
| "js_variant add (FBlob bs) = VBuffer bs"

section \<open>From JavaScript to the chain\<close>

text \<open>\<open>Int64Value\<close> keeps the low 64 bits of a big integer; \<open>BooleanValue\<close> of an object is
  true whatever the object boxes.\<close>

primrec fc_value :: "jsv \<Rightarrow> fcv" where
  "fc_value JUndefined = FNull"
| "fc_value JNull = FNull"
| "fc_value (JString s) = FString s"
| "fc_value (JStringObj s) = FString s"
| "fc_value (JBigInt i) = FInt64 (word_of_int i)"
| "fc_value (JBigIntObj i) = FInt64 (word_of_int i)"
| "fc_value (JNumber d) = FDouble d"
| "fc_value (JNumberObj d) = FDouble d"
| "fc_value (JBool b) = FBool b"
| "fc_value (JBooleanObj b) = FBool True"
| "fc_value (JArray vs) = FArray (map fc_value vs)"
| "fc_value (JBuffer bs) = FBlob bs"
| "fc_value (JObject kvs) = FObject (set_all (map (map_prod id fc_value) kvs))"
| "fc_value (JFunction f) = FObject []"

section \<open>Names\<close>

definition string_to_name :: "'e js_env_scheme \<Rightarrow> string \<Rightarrow> js_error + 64 word" where
  "string_to_name env str =
     (if length str > 13 then Inl (Set_error (''Name is longer than 13 characters ('' @ str @ '').''))
      else let n = name_value env str; str1 = name_text env n
           in if str \<noteq> str1
              then Inl (Set_error (''Name not properly normalized (name: '' @ str @ '', normalized: '' @ str @ '').''))
              else Inr n)"

definition value_to_name :: "'e js_env_scheme \<Rightarrow> jsv \<Rightarrow> js_error + 64 word" where
  "value_to_name env v = (case arg_string env v of Inl hr \<Rightarrow> Inl hr | Inr str \<Rightarrow> string_to_name env str)"

lemma string_to_name_Inr:
  "string_to_name env str = Inr n \<longleftrightarrow> length str \<le> 13 \<and> name_value env str = n \<and> name_text env n = str"
  by (auto simp: string_to_name_def Let_def)

lemma string_to_name_inj:
  "string_to_name env str = Inr n \<Longrightarrow> string_to_name env str' = Inr n \<Longrightarrow> str = str'"
  by (auto simp: string_to_name_Inr)

section \<open>Round trips\<close>

lemma set_all_snoc: "set_all (kvs @ [(k, v)]) = AList.update k v (set_all kvs)"
  by (simp add: set_all_def)

lemma set_all_distinct: "distinct (map fst kvs) \<Longrightarrow> set_all kvs = kvs"
proof (induction kvs rule: rev_induct)
  case Nil
  show ?case by (simp add: set_all_def)
next
  case (snoc kv kvs)
  obtain k v where kv: "kv = (k, v)" by fastforce
  have "k \<notin> fst ` set ps \<Longrightarrow> AList.update k v ps = ps @ [(k, v)]" for ps
    by (induction ps) auto
  then show ?case using snoc kv by (simp add: set_all_snoc)
qed

lemma fst_map_prod [simp]: "map fst (map (map_prod f g) kvs) = map f (map fst kvs)"
  by (induction kvs) auto

text \<open>A variant survives when the names in its objects are distinct and the engine keeps its
  texts as they are.\<close>

primrec plain_fcv :: "(string \<Rightarrow> string) \<Rightarrow> fcv \<Rightarrow> bool" where
  "plain_fcv nstr FNull \<longleftrightarrow> True"
| "plain_fcv nstr (FInt64 w) \<longleftrightarrow> True"
| "plain_fcv nstr (FUInt64 w) \<longleftrightarrow> True"
| "plain_fcv nstr (FDouble d) \<longleftrightarrow> True"
| "plain_fcv nstr (FBool b) \<longleftrightarrow> True"
| "plain_fcv nstr (FString s) \<longleftrightarrow> nstr s = s"
| "plain_fcv nstr (FArray vs) \<longleftrightarrow> list_all (plain_fcv nstr) vs"
| "plain_fcv nstr (FObject kvs) \<longleftrightarrow>
     distinct (map fst kvs) \<and> list_all (\<lambda>k. nstr k = k) (map fst kvs) \<and>
     list_all snd (map (map_prod id (plain_fcv nstr)) kvs)"
| "plain_fcv nstr (FBlob bs) \<longleftrightarrow> True"

text \<open>Integers come back signed.\<close>

primrec signed_fcv :: "fcv \<Rightarrow> fcv" where
  "signed_fcv FNull = FNull"
| "signed_fcv (FInt64 w) = FInt64 w"
| "signed_fcv (FUInt64 w) = FInt64 w"
| "signed_fcv (FDouble d) = FDouble d"
| "signed_fcv (FBool b) = FBool b"
| "signed_fcv (FString s) = FString s"
| "signed_fcv (FArray vs) = FArray (map signed_fcv vs)"
| "signed_fcv (FObject kvs) = FObject (map (map_prod id signed_fcv) kvs)"
| "signed_fcv (FBlob bs) = FBlob bs"

lemma js_value_object:
  assumes "distinct (map fst kvs)" "list_all (\<lambda>k. nstr k = k) (map fst kvs)"
  shows "js_value nstr (FObject kvs) = JObject (map (map_prod id (js_value nstr)) kvs)"
proof -
  have "map (map_prod nstr (js_value nstr)) kvs = map (map_prod id (js_value nstr)) kvs"
    using assms(2) by (induction kvs) auto
  then show ?thesis using assms(1) by (simp add: map_prod.comp set_all_distinct del: map_eq_conv)
qed

lemma fc_js_value: "plain_fcv nstr v \<Longrightarrow> fc_value (js_value nstr v) = signed_fcv v"
proof (induction v)
  case (FArray vs)
  then show ?case by (auto simp: list_all_iff)
next
  case (FObject kvs)
  have "map (map_prod id (fc_value \<circ> js_value nstr)) kvs = map (map_prod id signed_fcv) kvs"
    using FObject by (force simp: list_all_iff)
  then show ?case
    using FObject.prems js_value_object [of kvs nstr]
    by (simp add: map_prod.comp set_all_distinct del: map_eq_conv js_value.simps)
qed simp_all

text \<open>A JavaScript value survives when it has no undefined, boxed or function value in it and
  its big integers are signed 64-bit integers.\<close>

primrec plain_jsv :: "(string \<Rightarrow> string) \<Rightarrow> jsv \<Rightarrow> bool" where
  "plain_jsv nstr JUndefined \<longleftrightarrow> False"
| "plain_jsv nstr JNull \<longleftrightarrow> True"
| "plain_jsv nstr (JBool b) \<longleftrightarrow> True"
| "plain_jsv nstr (JNumber d) \<longleftrightarrow> True"
| "plain_jsv nstr (JBigInt i) \<longleftrightarrow> - (2 ^ 63) \<le> i \<and> i < 2 ^ 63"
| "plain_jsv nstr (JString s) \<longleftrightarrow> nstr s = s"
| "plain_jsv nstr (JBooleanObj b) \<longleftrightarrow> False"
| "plain_jsv nstr (JNumberObj d) \<longleftrightarrow> False"
| "plain_jsv nstr (JBigIntObj i) \<longleftrightarrow> False"
| "plain_jsv nstr (JStringObj s) \<longleftrightarrow> False"
| "plain_jsv nstr (JArray vs) \<longleftrightarrow> list_all (plain_jsv nstr) vs"
| "plain_jsv nstr (JBuffer bs) \<longleftrightarrow> True"
| "plain_jsv nstr (JObject kvs) \<longleftrightarrow>
     distinct (map fst kvs) \<and> list_all (\<lambda>k. nstr k = k) (map fst kvs) \<and>
     list_all snd (map (map_prod id (plain_jsv nstr)) kvs)"
| "plain_jsv nstr (JFunction f) \<longleftrightarrow> False"

lemma js_fc_value: "plain_jsv nstr v \<Longrightarrow> js_value nstr (fc_value v) = v"
proof (induction v)
  case (JBigInt i)
  have "sint (word_of_int i :: 64 word) = i"
    using JBigInt by (simp add: signed_take_bit_int_eq_self sint_sbintrunc')
  then show ?case by simp
next
  case (JArray vs)
  then show ?case by (auto simp: list_all_iff intro: map_idI)
next
  case (JObject kvs)
  have "map (map_prod id (js_value nstr \<circ> fc_value)) kvs = kvs"
    using JObject by (force simp: list_all_iff intro: map_idI)
  then show ?case
    using JObject.prems js_value_object [of "map (map_prod id fc_value) kvs" nstr]
    by (simp add: map_prod.comp set_all_distinct del: map_eq_conv js_value.simps)
qed simp_all

lemma bigint_fits: "js_value nstr (fc_value (JBigInt i)) = JBigInt i \<longleftrightarrow> - (2 ^ 63) \<le> i \<and> i < 2 ^ 63"
proof
  assume "js_value nstr (fc_value (JBigInt i)) = JBigInt i"
  then have "sint (word_of_int i :: 64 word) = i" by simp
  then show "- (2 ^ 63) \<le> i \<and> i < 2 ^ 63"
    using sint_range_size [of "word_of_int i :: 64 word"] by (simp add: word_size)
next
  assume "- (2 ^ 63) \<le> i \<and> i < 2 ^ 63"
  then show "js_value nstr (fc_value (JBigInt i)) = JBigInt i" by (intro js_fc_value) simp
qed

text \<open>
  C31: A chain variant that goes to JavaScript and back is the same variant with its unsigned
  integers read as signed ones; a JavaScript value that goes to the chain and back is itself
  when it has no undefined, boxed or function part and its big integers are 64-bit signed; a
  big integer survives exactly then.  A boxed false arrives as true, and the runtime's own
  variant cannot tell an unsigned integer from the signed one with the same bits.
\<close>

theorem js_value_roundtrip:
  "(plain_fcv nstr v \<longrightarrow> fc_value (js_value nstr v) = signed_fcv v) \<and>
   (plain_jsv nstr x \<longrightarrow> js_value nstr (fc_value x) = x) \<and>
   (js_value nstr (fc_value (JBigInt i)) = JBigInt i \<longleftrightarrow> - (2 ^ 63) \<le> i \<and> i < 2 ^ 63) \<and>
   js_value nstr (fc_value (JBooleanObj b)) = JBool True \<and>
   js_variant add (FUInt64 w) = js_variant add (FInt64 w)"
  using fc_js_value [of nstr v] js_fc_value [of nstr x] bigint_fits [of nstr i] by auto

lemma js_value_roundtrip_witness:
  "fc_value (js_value id (FObject [(''id'', FUInt64 (- 1)), (''tags'', FArray [FString ''a'', FNull])])) =
     FObject [(''id'', FInt64 (- 1)), (''tags'', FArray [FString ''a'', FNull])] \<and>
   js_value id (fc_value (JObject [(''n'', JBigInt (- 5)), (''b'', JBuffer [1, 2])])) =
     JObject [(''n'', JBigInt (- 5)), (''b'', JBuffer [1, 2])] \<and>
   js_value id (fc_value (JBigInt (2 ^ 63))) \<noteq> JBigInt (2 ^ 63)"
proof -
  let ?v = "FObject [(''id'', FUInt64 (- 1)), (''tags'', FArray [FString ''a'', FNull])]"
  let ?x = "JObject [(''n'', JBigInt (- 5)), (''b'', JBuffer [1, 2])]"
  have "plain_fcv id ?v" "plain_jsv id ?x"
    "signed_fcv ?v = FObject [(''id'', FInt64 (- 1)), (''tags'', FArray [FString ''a'', FNull])]" by simp_all
  then show ?thesis
    using js_value_roundtrip [of id ?v ?x "2 ^ 63" False "\<lambda>ob k v. ob" 0] by (simp del: js_value.simps fc_value.simps)
qed

end
