(* ===== verification/Emitter.thy ===== *)
theory Emitter
  imports Js_Value
begin

text \<open>
  The event emitter of the node (\<^verbatim>\<open>src/plugin/emitter_plugin.cpp\<close>,
  \<^verbatim>\<open>include/emitter_plugin.h\<close>).  The chain thread stashes each event in a table of the chain's
  database and in a queue; the JavaScript thread takes events from the queue and triggers the
  listeners.  Two semaphores keep them in step: \<open>s_emitter\<close> counts the events in the queue,
  \<open>s_emitter_db\<close> the rows the table may still take.

  The two threads are two program counters, and \<open>step\<close> says what one atomic step of a thread
  does; what the rest of the node does between them (a signal arrives, the application is told
  to quit, the database goes back to an earlier state) are steps of the environment.  A run
  names its steps, so a claim about runs without some step can say so.

  A row of the table carries the fields of an object of the queue and has its type.  The
  counters are unbounded here; the code's are 64 bits wide, one increment an event.  The loop
  that prunes the table advances an iterator whose row it has just removed; what it finds
  there is the parameter \<open>nxt\<close>.
\<close>

section \<open>State\<close>

datatype event_type = Irreversible_block_type | Block_type | Transaction_type

record event_queue_object =
  eid :: int
  event :: event_type
  edata :: "8 word list"

text \<open>Where the chain thread is in \<open>stash_data\<close> and the JavaScript thread in \<open>js_handler\<close>.\<close>

datatype producer_at =
    Idle
  | Waiting event_type "8 word list"
  | Pruning "event_queue_object list" event_type "8 word list"
  | Stored event_type "8 word list"
  | Queued

datatype consumer_at =
    Top
  | Blocked
  | Holding
  | Taken event_queue_object
  | Emitted event_queue_object
  | Recorded
  | Ended

text \<open>\<open>sent\<close> and \<open>emitted\<close> are the history: the objects that were put in the queue and those
  whose listeners have run.\<close>

record emitter =
  cache :: "event_queue_object list"
  event_cache_queue :: "event_queue_object list"
  emitted_id :: int
  mem_id :: int
  s_emitter :: nat
  s_emitter_db :: nat
  g_js_error :: bool
  quiting :: bool
  producer :: producer_at
  consumer :: consumer_at
  sent :: "event_queue_object list"
  emitted :: "event_queue_object list"

definition MAX_DB_SIZE :: nat where
  "MAX_DB_SIZE = 30000"

definition plugin_initialize :: "event_queue_object list \<Rightarrow> emitter" where
  "plugin_initialize idx =
     \<lparr>cache = idx, event_cache_queue = idx,
      emitted_id = (if idx = [] then - 1 else eid (hd idx) - 1),
      mem_id = (if idx = [] then - 1 else eid (last idx)),
      s_emitter = length idx,
      s_emitter_db = (if length idx < MAX_DB_SIZE then MAX_DB_SIZE - length idx else 0),
      g_js_error = False, quiting = False, producer = Idle, consumer = Top, sent = idx, emitted = []\<rparr>"

section \<open>Steps\<close>

text \<open>The table is ordered by id and an id stands in it once: a second one is refused.\<close>

definition create_row :: "event_queue_object \<Rightarrow> event_queue_object list \<Rightarrow> event_queue_object list option" where
  "create_row r idx = (if eid r \<in> set (map eid idx) then None else Some (insort_key eid r idx))"

datatype chain_label = Call event_type "8 word list" | Db_wait | Prune | Create | Create_fails bool | Enqueue | Notify

datatype js_label = Take_semaphore | Sleep | Pop | Emit | Emit_fails | Record_id | Db_post | Leave

datatype env_label = Undo "event_queue_object list" | Quit

datatype label = Chain chain_label | Js js_label | Env env_label

text \<open>\<open>stash_data\<close>.  Making a row may throw, before or after the counter has been advanced;
  \<open>applied_event\<close> catches it and tells the application to quit.\<close>

type_synonym next_row = "event_queue_object \<Rightarrow> event_queue_object list \<Rightarrow> event_queue_object list"

fun chain_step :: "next_row \<Rightarrow> chain_label \<Rightarrow> emitter \<Rightarrow> emitter option" where
  "chain_step nxt (Call ev d) s =
     (case producer s of Idle \<Rightarrow> Some (s\<lparr>producer := Waiting ev d\<rparr>) | _ \<Rightarrow> None)"
| "chain_step nxt Db_wait s =
     (case producer s of
        Waiting ev d \<Rightarrow>
          if s_emitter_db s = 0 then None
          else Some (s\<lparr>s_emitter_db := s_emitter_db s - 1, producer := Pruning (cache s) ev d\<rparr>)
      | _ \<Rightarrow> None)"
| "chain_step nxt Prune s =
     (case producer s of
        Pruning (r # itr) ev d \<Rightarrow>
          if eid r \<le> emitted_id s
          then (let idx = remove1 r (cache s) in Some (s\<lparr>cache := idx, producer := Pruning (nxt r idx) ev d\<rparr>))
          else None
      | _ \<Rightarrow> None)"
| "chain_step nxt Create s =
     (case producer s of
        Pruning itr ev d \<Rightarrow>
          if itr = [] \<or> emitted_id s < eid (hd itr)
          then (case create_row \<lparr>eid = mem_id s + 1, event = ev, edata = d\<rparr> (cache s) of
                  None \<Rightarrow> None
                | Some idx \<Rightarrow> Some (s\<lparr>mem_id := mem_id s + 1, cache := idx, producer := Stored ev d\<rparr>))
          else None
      | _ \<Rightarrow> None)"
| "chain_step nxt (Create_fails advanced) s =
     (case producer s of
        Pruning itr ev d \<Rightarrow>
          if itr = [] \<or> emitted_id s < eid (hd itr)
          then Some (s\<lparr>mem_id := (if advanced then mem_id s + 1 else mem_id s), quiting := True, producer := Idle\<rparr>)
          else None
      | _ \<Rightarrow> None)"
| "chain_step nxt Enqueue s =
     (case producer s of
        Stored ev d \<Rightarrow>
          (let r = \<lparr>eid = mem_id s, event = ev, edata = d\<rparr> in
           Some (s\<lparr>event_cache_queue := event_cache_queue s @ [r], sent := sent s @ [r], producer := Queued\<rparr>))
      | _ \<Rightarrow> None)"
| "chain_step nxt Notify s =
     (case producer s of Queued \<Rightarrow> Some (s\<lparr>s_emitter := s_emitter s + 1, producer := Idle\<rparr>) | _ \<Rightarrow> None)"

text \<open>\<open>js_handler\<close>.  \<open>front\<close> of an empty queue is undefined: no step.\<close>

fun js_step :: "js_label \<Rightarrow> emitter \<Rightarrow> emitter option" where
  "js_step Leave s = (if consumer s = Top \<and> quiting s then Some (s\<lparr>consumer := Ended\<rparr>) else None)"
| "js_step Sleep s =
     (if consumer s = Top \<and> \<not> quiting s \<and> s_emitter s = 0 then Some (s\<lparr>consumer := Blocked\<rparr>) else None)"
| "js_step Take_semaphore s =
     (if (consumer s = Top \<and> \<not> quiting s \<or> consumer s = Blocked) \<and> 0 < s_emitter s
      then Some (s\<lparr>s_emitter := s_emitter s - 1, consumer := Holding\<rparr>) else None)"
| "js_step Pop s =
     (if consumer s = Holding
      then (case event_cache_queue s of [] \<Rightarrow> None | r # q \<Rightarrow> Some (s\<lparr>event_cache_queue := q, consumer := Taken r\<rparr>))
      else None)"
| "js_step Emit s =
     (case consumer s of Taken r \<Rightarrow> Some (s\<lparr>emitted := emitted s @ [r], consumer := Emitted r\<rparr>) | _ \<Rightarrow> None)"
| "js_step Emit_fails s =
     (case consumer s of
        Taken r \<Rightarrow> Some (s\<lparr>g_js_error := True, quiting := True, consumer := Ended\<rparr>) | _ \<Rightarrow> None)"
| "js_step Record_id s =
     (case consumer s of Emitted r \<Rightarrow> Some (s\<lparr>emitted_id := eid r, consumer := Recorded\<rparr>) | _ \<Rightarrow> None)"
| "js_step Db_post s =
     (if consumer s = Recorded then Some (s\<lparr>s_emitter_db := s_emitter_db s + 1, consumer := Top\<rparr>) else None)"

text \<open>The table is part of the chain's database, so it goes back with it when blocks or
  transactions are undone, which the chain thread does between events; the counters do not.\<close>

fun env_step :: "env_label \<Rightarrow> emitter \<Rightarrow> emitter option" where
  "env_step (Undo idx) s =
     (if producer s = Idle \<and> sorted_wrt (<) (map eid idx) \<and> list_all (\<lambda>r. eid r \<le> mem_id s) idx
      then Some (s\<lparr>cache := idx\<rparr>) else None)"
| "env_step Quit s = Some (s\<lparr>quiting := True\<rparr>)"

fun step :: "next_row \<Rightarrow> label \<Rightarrow> emitter \<Rightarrow> emitter option" where
  "step nxt (Chain l) s = chain_step nxt l s"
| "step nxt (Js l) s = js_step l s"
| "step nxt (Env l) s = env_step l s"

inductive run :: "next_row \<Rightarrow> emitter \<Rightarrow> label list \<Rightarrow> emitter \<Rightarrow> bool" for nxt s where
  run_nil: "run nxt s [] s"
| run_snoc: "run nxt s ls s' \<Longrightarrow> step nxt l s' = Some s'' \<Longrightarrow> run nxt s (ls @ [l]) s''"

section \<open>What is emitted\<close>

definition event_name :: "event_type \<Rightarrow> string" where
  "event_name ev = (case ev of Irreversible_block_type \<Rightarrow> ''irreversible_block'' | Block_type \<Rightarrow> ''block''
     | Transaction_type \<Rightarrow> ''transaction'')"

record signed_block =
  block_num :: "32 word"
  block_id :: string
  timestamp :: string
  block_producer :: string
  previous :: string

text \<open>The value a listener gets: None is an empty handle.\<close>

definition js_object :: "(8 word list \<Rightarrow> signed_block option) \<Rightarrow> (string \<Rightarrow> string) \<Rightarrow> 8 word list \<Rightarrow> jsv option" where
  "js_object unpack nstr var =
     map_option (\<lambda>b. JObject [(''block_num'', JBigInt (uint (block_num b))), (''id'', JString (nstr (block_id b))),
       (''block'', JObject [(''timestamp'', JString (nstr (timestamp b))),
          (''producer'', JString (nstr (block_producer b))), (''previous'', JString (nstr (previous b)))])]) (unpack var)"

definition emit_value :: "(8 word list \<Rightarrow> signed_block option) \<Rightarrow> (8 word list \<Rightarrow> fcv) \<Rightarrow> (string \<Rightarrow> string) \<Rightarrow>
    event_queue_object \<Rightarrow> jsv option" where
  "emit_value unpack unpack_variant nstr r =
     (case event r of Transaction_type \<Rightarrow> Some (js_value nstr (unpack_variant (edata r)))
      | _ \<Rightarrow> js_object unpack nstr (edata r))"

section \<open>Invariants\<close>

text \<open>Every step of a thread is one of the cases below.\<close>

lemmas step_splits = producer_at.split_asm consumer_at.split_asm list.split_asm if_split_asm option.split_asm

fun held :: "consumer_at \<Rightarrow> event_queue_object list" where
  "held (Taken r) = [r]"
| "held at = []"

text \<open>The queue is what was sent and not yet emitted; an event whose listener failed is lost.\<close>

definition inv_queue :: "emitter \<Rightarrow> bool" where
  "inv_queue s \<longleftrightarrow>
     (if g_js_error s then consumer s = Ended \<and> (\<exists>r. sent s = emitted s @ r # event_cache_queue s)
      else sent s = emitted s @ held (consumer s) @ event_cache_queue s)"

definition inv_semaphore :: "emitter \<Rightarrow> bool" where
  "inv_semaphore s \<longleftrightarrow>
     s_emitter s + (if consumer s = Holding then 1 else 0) + (if producer s = Queued then 1 else 0)
       = length (event_cache_queue s)"

text \<open>The permits a thread has in its hands.\<close>

fun chain_permit :: "producer_at \<Rightarrow> nat" where
  "chain_permit (Pruning itr ev d) = 1"
| "chain_permit (Stored ev d) = 1"
| "chain_permit at = 0"

fun js_permit :: "consumer_at \<Rightarrow> nat" where
  "js_permit (Taken r) = 1"
| "js_permit (Emitted r) = 1"
| "js_permit Recorded = 1"
| "js_permit at = 0"

definition permits :: "emitter \<Rightarrow> nat" where
  "permits s = s_emitter_db s + chain_permit (producer s) + length (event_cache_queue s) +
     js_permit (consumer s) + (if g_js_error s then 1 else 0)"

text \<open>The ids: \<open>i0\<close> is the id before the first event.\<close>

fun recorded_at :: "consumer_at \<Rightarrow> event_queue_object list \<Rightarrow> event_queue_object list" where
  "recorded_at (Emitted r) rs = butlast rs"
| "recorded_at at rs = rs"

definition recorded :: "emitter \<Rightarrow> event_queue_object list" where
  "recorded s = recorded_at (consumer s) (emitted s)"

definition inv_ids :: "int \<Rightarrow> emitter \<Rightarrow> bool" where
  "inv_ids i0 s \<longleftrightarrow>
     sorted_wrt (<) (map eid (sent s)) \<and> i0 \<le> mem_id s \<and>
     (\<forall>r \<in> set (sent s). i0 < eid r \<and> eid r \<le> mem_id s) \<and>
     (\<forall>ev d. producer s = Stored ev d \<longrightarrow> i0 < mem_id s \<and> (\<forall>r \<in> set (sent s). eid r < mem_id s))"

definition inv_emitted :: "int \<Rightarrow> emitter \<Rightarrow> bool" where
  "inv_emitted i0 s \<longleftrightarrow>
     emitted_id s = (if recorded s = [] then i0 else eid (last (recorded s))) \<and>
     (\<forall>r. consumer s = Emitted r \<longrightarrow> emitted s \<noteq> [] \<and> last (emitted s) = r)"

text \<open>The table; what the iterator goes on to after a removal has to be rows of the table.\<close>

definition nxt_rows :: "next_row \<Rightarrow> bool" where
  "nxt_rows nxt \<longleftrightarrow> (\<forall>r idx. set (nxt r idx) \<subseteq> set idx)"

definition inv_cache :: "emitter \<Rightarrow> bool" where
  "inv_cache s \<longleftrightarrow>
     sorted_wrt (<) (map eid (cache s)) \<and> (\<forall>r \<in> set (cache s). eid r \<le> mem_id s) \<and>
     (\<forall>itr ev d. producer s = Pruning itr ev d \<longrightarrow> set itr \<subseteq> set (cache s))"

fun stored_at :: "producer_at \<Rightarrow> int \<Rightarrow> event_queue_object set" where
  "stored_at (Stored ev d) i = {\<lparr>eid = i, event = ev, edata = d\<rparr>}"
| "stored_at at i = {}"

definition stored :: "emitter \<Rightarrow> event_queue_object set" where
  "stored s = stored_at (producer s) (mem_id s)"

definition inv_kept :: "emitter \<Rightarrow> bool" where
  "inv_kept s \<longleftrightarrow>
     {r \<in> set (sent s) \<union> stored s. emitted_id s < eid r} = {r \<in> set (cache s). emitted_id s < eid r}"

lemma label_cases [case_names Call Db_wait Prune Create Create_fails Enqueue Notify
    Take_semaphore Sleep Pop Emit Emit_fails Record_id Db_post Leave Undo Quit]:
  assumes "\<And>ev d. l = Chain (Call ev d) \<Longrightarrow> P" "l = Chain Db_wait \<Longrightarrow> P" "l = Chain Prune \<Longrightarrow> P"
    "l = Chain Create \<Longrightarrow> P" "\<And>b. l = Chain (Create_fails b) \<Longrightarrow> P" "l = Chain Enqueue \<Longrightarrow> P"
    "l = Chain Notify \<Longrightarrow> P" "l = Js Take_semaphore \<Longrightarrow> P" "l = Js Sleep \<Longrightarrow> P" "l = Js Pop \<Longrightarrow> P"
    "l = Js Emit \<Longrightarrow> P" "l = Js Emit_fails \<Longrightarrow> P" "l = Js Record_id \<Longrightarrow> P" "l = Js Db_post \<Longrightarrow> P"
    "l = Js Leave \<Longrightarrow> P" "\<And>idx. l = Env (Undo idx) \<Longrightarrow> P" "l = Env Quit \<Longrightarrow> P"
  shows P
proof (cases l)
  case (Chain x) then show ?thesis using assms(1-7) by (cases x) auto
next
  case (Js x) then show ?thesis using assms(8-15) by (cases x) auto
next
  case (Env x) then show ?thesis using assms(16,17) by (cases x) auto
qed

lemma step_queue: "step nxt l s = Some s' \<Longrightarrow> inv_queue s \<Longrightarrow> inv_queue s'"
  by (cases l rule: label_cases) (auto simp: inv_queue_def Let_def split: step_splits)

lemma step_semaphore: "step nxt l s = Some s' \<Longrightarrow> inv_semaphore s \<Longrightarrow> inv_semaphore s'"
  by (cases l rule: label_cases) (auto simp: inv_semaphore_def Let_def split: step_splits)

definition failures :: "label list \<Rightarrow> nat" where
  "failures ls = length (filter (\<lambda>l. \<exists>b. l = Chain (Create_fails b)) ls)"

lemma step_permits:
  "step nxt l s = Some s' \<Longrightarrow> inv_queue s \<Longrightarrow> permits s' + failures [l] = permits s"
  by (cases l rule: label_cases)
    (auto simp: permits_def inv_queue_def failures_def Let_def split: step_splits)

lemma step_ids: "step nxt l s = Some s' \<Longrightarrow> inv_ids i0 s \<Longrightarrow> inv_ids i0 s'"
  by (cases l rule: label_cases) (force simp: inv_ids_def Let_def sorted_wrt_append split: step_splits)+

lemma step_emitted: "step nxt l s = Some s' \<Longrightarrow> inv_emitted i0 s \<Longrightarrow> inv_emitted i0 s'"
  by (cases l rule: label_cases) (auto simp: inv_emitted_def recorded_def Let_def split: step_splits)

lemma create_row_last:
  assumes "\<forall>r \<in> set idx. eid r < eid row"
  shows "create_row row idx = Some (idx @ [row])"
proof -
  have "insort_key eid row idx = idx @ [row]" using assms by (induction idx) auto
  then show ?thesis using assms by (auto simp: create_row_def)
qed

lemma step_create: "inv_cache s \<Longrightarrow>
    create_row \<lparr>eid = mem_id s + 1, event = ev, edata = d\<rparr> (cache s) =
      Some (cache s @ [\<lparr>eid = mem_id s + 1, event = ev, edata = d\<rparr>])"
  by (intro create_row_last) (force simp: inv_cache_def)

lemma sorted_wrt_remove1: "sorted_wrt R (map f xs) \<Longrightarrow> sorted_wrt R (map f (remove1 x xs))"
  by (induction xs) (use set_remove1_subset in fastforce)+

lemma step_cache:
  assumes "step nxt l s = Some s'" "inv_cache s" "nxt_rows nxt"
  shows "inv_cache s'"
  using assms step_create [OF assms(2)]
proof (cases l rule: label_cases)
  case Prune
  with assms(1) obtain r itr ev d where s: "producer s = Pruning (r # itr) ev d"
      "s' = s\<lparr>cache := remove1 r (cache s), producer := Pruning (nxt r (remove1 r (cache s))) ev d\<rparr>"
    by (auto simp: Let_def split: step_splits)
  then show ?thesis
    using assms(2,3) set_remove1_subset [of r "cache s"]
    by (auto simp: inv_cache_def nxt_rows_def intro: sorted_wrt_remove1)
qed (force simp: inv_cache_def sorted_wrt_append list_all_iff Let_def split: step_splits)+

text \<open>The id that is recorded next is above the one recorded before.\<close>

lemma emitted_below:
  assumes "inv_queue s" "inv_ids i0 s" "inv_emitted i0 s" "consumer s = Emitted r"
  shows "emitted_id s < eid r"
proof -
  let ?es = "butlast (emitted s)"
  have es: "emitted s = ?es @ [r]"
    using assms(3,4) by (metis append_butlast_last_id inv_emitted_def)
  have "sent s = emitted s @ event_cache_queue s"
    using assms(1,4) by (simp add: inv_queue_def split: if_splits)
  with es have q: "sent s = ?es @ [r] @ event_cache_queue s" by (metis append_assoc)
  have "sorted_wrt (<) (map eid (sent s))" "\<forall>x \<in> set (sent s). i0 < eid x"
    using assms(2) by (auto simp: inv_ids_def)
  then have "i0 < eid r" "\<forall>x \<in> set ?es. eid x < eid r"
    unfolding q by (auto simp: sorted_wrt_append)
  moreover have "emitted_id s = (if ?es = [] then i0 else eid (last ?es))"
    using assms(3,4) by (simp add: inv_emitted_def recorded_def)
  ultimately show ?thesis by (metis last_in_set)
qed

lemma above_later: "{r \<in> A. e < eid r} = {r \<in> B. e < eid r} \<Longrightarrow> e < e' \<Longrightarrow> {r \<in> A. e' < eid r} = {r \<in> B. e' < eid r}"
  by force

lemma above_remove1: "eid r \<le> e \<Longrightarrow> {x \<in> set (remove1 r idx). e < eid x} = {x \<in> set idx. e < eid x}"
  by (induction idx) auto

lemma step_kept:
  assumes "step nxt l s = Some s'" "inv_kept s" "inv_cache s" "inv_queue s" "inv_ids i0 s" "inv_emitted i0 s"
    and "\<forall>idx. l \<noteq> Env (Undo idx)"
  shows "inv_kept s'"
  using assms
proof (cases l rule: label_cases)
  case Record_id
  with assms(1) obtain r where r: "consumer s = Emitted r" "s' = s\<lparr>emitted_id := eid r, consumer := Recorded\<rparr>"
    by (auto split: step_splits)
  have "emitted_id s < eid r" by (rule emitted_below [OF assms(4-6) r(1)])
  then show ?thesis
    using above_later [OF assms(2) [unfolded inv_kept_def]] r(2) by (simp add: inv_kept_def stored_def)
next
  case Prune
  with assms(1) obtain r itr ev d where "producer s = Pruning (r # itr) ev d" "eid r \<le> emitted_id s"
    "s' = s\<lparr>cache := remove1 r (cache s), producer := Pruning (nxt r (remove1 r (cache s))) ev d\<rparr>"
    by (auto simp: Let_def split: step_splits)
  with assms(2) show ?thesis by (simp add: inv_kept_def stored_def above_remove1)
next
  case Create
  with assms(1) obtain itr ev d where "producer s = Pruning itr ev d"
    "s' = s\<lparr>mem_id := mem_id s + 1, cache := cache s @ [\<lparr>eid = mem_id s + 1, event = ev, edata = d\<rparr>], producer := Stored ev d\<rparr>"
    using step_create [OF assms(3)] by (auto split: step_splits)
  with assms(2) show ?thesis by (auto simp: inv_kept_def stored_def)
qed (auto simp: inv_kept_def stored_def Let_def split: step_splits)

section \<open>Runs\<close>

lemma init_invs:
  assumes "sorted_wrt (<) (map eid idx)"
  shows "inv_queue (plugin_initialize idx)" "inv_semaphore (plugin_initialize idx)"
    "permits (plugin_initialize idx) = max MAX_DB_SIZE (length idx)"
    "inv_ids (emitted_id (plugin_initialize idx)) (plugin_initialize idx)"
    "inv_emitted (emitted_id (plugin_initialize idx)) (plugin_initialize idx)"
    "inv_cache (plugin_initialize idx)" "inv_kept (plugin_initialize idx)"
proof -
  have "\<forall>r \<in> set idx. eid (hd idx) \<le> eid r"
    using assms by (cases idx) (auto intro: less_imp_le)
  moreover have "\<forall>r \<in> set idx. eid r \<le> eid (last idx)"
    using assms by (cases idx rule: rev_cases) (auto simp: sorted_wrt_append intro: less_imp_le)
  moreover have "idx \<noteq> [] \<Longrightarrow> eid (hd idx) - 1 \<le> eid (last idx)"
    using calculation(1) last_in_set by force
  ultimately show "inv_queue (plugin_initialize idx)" "inv_semaphore (plugin_initialize idx)"
    "permits (plugin_initialize idx) = max MAX_DB_SIZE (length idx)"
    "inv_ids (emitted_id (plugin_initialize idx)) (plugin_initialize idx)"
    "inv_emitted (emitted_id (plugin_initialize idx)) (plugin_initialize idx)"
    "inv_cache (plugin_initialize idx)" "inv_kept (plugin_initialize idx)"
    using assms
    by (auto simp: plugin_initialize_def inv_queue_def inv_semaphore_def permits_def inv_ids_def
        inv_emitted_def recorded_def inv_cache_def inv_kept_def stored_def)
qed

lemma failures_append [simp]: "failures (ls @ ls') = failures ls + failures ls'"
  by (simp add: failures_def)

lemma run_invs:
  assumes "run nxt s ls s'"
  shows "inv_queue s \<Longrightarrow> inv_queue s'" "inv_semaphore s \<Longrightarrow> inv_semaphore s'"
    "inv_ids i0 s \<Longrightarrow> inv_ids i0 s'" "inv_emitted i0 s \<Longrightarrow> inv_emitted i0 s'"
    "inv_cache s \<Longrightarrow> nxt_rows nxt \<Longrightarrow> inv_cache s'"
    "inv_queue s \<Longrightarrow> permits s' + failures ls = permits s"
  using assms
proof (induction rule: run.induct)
  case (run_snoc ls s' l s'')
  note st = run_snoc.hyps(2)
  { case 1 then show ?case using run_snoc.IH(1) step_queue [OF st] by blast }
  { case 2 then show ?case using run_snoc.IH(2) step_semaphore [OF st] by blast }
  { case 3 then show ?case using run_snoc.IH(3) step_ids [OF st] by blast }
  { case 4 then show ?case using run_snoc.IH(4) step_emitted [OF st] by blast }
  { case 5 then show ?case using run_snoc.IH(5) step_cache [OF st] by blast }
  { case 6 then show ?case using run_snoc.IH(1,6) step_permits [OF st] by force }
qed (simp_all add: failures_def)

lemma run_kept:
  assumes "run nxt s ls s'" "\<forall>idx. Env (Undo idx) \<notin> set ls" "nxt_rows nxt"
    "inv_kept s" "inv_cache s" "inv_queue s" "inv_ids i0 s" "inv_emitted i0 s"
  shows "inv_kept s'"
  using assms
proof (induction rule: run.induct)
  case (run_snoc ls s' l s'')
  then have "inv_kept s'" "inv_cache s'" "inv_queue s'" "inv_ids i0 s'" "inv_emitted i0 s'"
    using run_invs [OF run_snoc.hyps(1)] by auto
  moreover have "\<forall>idx. l \<noteq> Env (Undo idx)" using run_snoc.prems(1) by auto
  ultimately show ?case by (rule step_kept [OF run_snoc.hyps(2)])
qed

text \<open>Without a failure the ids are consecutive.\<close>

fun stored_count :: "producer_at \<Rightarrow> nat" where
  "stored_count (Stored ev d) = 1"
| "stored_count at = 0"

definition inv_gap :: "int list \<Rightarrow> int \<Rightarrow> emitter \<Rightarrow> bool" where
  "inv_gap is m0 s \<longleftrightarrow>
     (\<exists>k. map eid (sent s) = is @ map (\<lambda>i. m0 + 1 + int i) [0..<k] \<and>
        mem_id s = m0 + int k + int (stored_count (producer s)))"

lemma step_gap:
  assumes "step nxt l s = Some s'" "failures [l] = 0" "inv_gap is m0 s"
  shows "inv_gap is m0 s'"
  using assms
proof (cases l rule: label_cases)
  case Enqueue
  with assms(1) obtain ev d where p: "producer s = Stored ev d"
    "sent s' = sent s @ [\<lparr>eid = mem_id s, event = ev, edata = d\<rparr>]" "mem_id s' = mem_id s" "producer s' = Queued"
    by (auto simp: Let_def split: step_splits)
  from assms(3) obtain k where "map eid (sent s) = is @ map (\<lambda>i. m0 + 1 + int i) [0..<k]" "mem_id s = m0 + int k + 1"
    using p(1) by (auto simp: inv_gap_def)
  with p show ?thesis by (auto simp: inv_gap_def intro!: exI [of _ "Suc k"])
qed (auto simp: inv_gap_def failures_def Let_def split: step_splits)

lemma run_gap:
  assumes "run nxt s ls s'" "failures ls = 0" "inv_gap is m0 s"
  shows "inv_gap is m0 s'"
  using assms
proof (induction rule: run.induct)
  case (run_snoc ls s' l s'')
  then show ?case using step_gap by simp
qed

lemma init_gap: "inv_gap (map eid idx) (mem_id (plugin_initialize idx)) (plugin_initialize idx)"
  by (auto simp: inv_gap_def plugin_initialize_def intro!: exI [of _ 0])

text \<open>
  C3: In every run, whatever the two threads do in between, the events reach the listeners in
  the order in which they were stashed, those of the table first, each once and none skipped:
  what was emitted is a beginning of what was sent.  Without a JavaScript error the rest is
  what the handler holds and what is in the queue.  The ids increase, and by exactly one from
  event to event unless making a row has failed.
\<close>

theorem emitter_in_order:
  assumes "sorted_wrt (<) (map eid idx)" "run nxt (plugin_initialize idx) ls s"
  shows "(\<exists>p. sent s = emitted s @ p \<and> (\<not> g_js_error s \<longrightarrow> p = held (consumer s) @ event_cache_queue s)) \<and>
    sorted_wrt (<) (map eid (sent s)) \<and>
    (failures ls = 0 \<longrightarrow>
      (\<exists>k. map eid (sent s) = map eid idx @ map (\<lambda>i. mem_id (plugin_initialize idx) + 1 + int i) [0..<k]))"
proof -
  note init = init_invs [OF assms(1)]
  have "inv_queue s" "inv_ids (emitted_id (plugin_initialize idx)) s"
    using run_invs [OF assms(2)] init by auto
  moreover have "failures ls = 0 \<longrightarrow> inv_gap (map eid idx) (mem_id (plugin_initialize idx)) s"
    using run_gap [OF assms(2) _ init_gap] by blast
  ultimately show ?thesis by (auto simp: inv_queue_def inv_ids_def inv_gap_def split: if_splits)
qed

text \<open>Runs can be computed.\<close>

primrec exec :: "next_row \<Rightarrow> label list \<Rightarrow> emitter \<Rightarrow> emitter option" where
  "exec nxt [] s = Some s"
| "exec nxt (l # ls) s = (case step nxt l s of None \<Rightarrow> None | Some s' \<Rightarrow> exec nxt ls s')"

lemma exec_run_from: "run nxt s0 ls0 s \<Longrightarrow> exec nxt ls s = Some s' \<Longrightarrow> run nxt s0 (ls0 @ ls) s'"
proof (induction ls arbitrary: s ls0)
  case (Cons l ls)
  then obtain s1 where "step nxt l s = Some s1" "exec nxt ls s1 = Some s'" by (auto split: option.splits)
  with Cons.IH [of "ls0 @ [l]" s1] Cons.prems(1) show ?case by (simp add: run_snoc)
qed simp

lemma exec_run: "exec nxt ls s = Some s' \<Longrightarrow> run nxt s ls s'"
  using exec_run_from [OF run_nil] by simp

definition later_rows :: next_row where
  "later_rows r idx = filter (\<lambda>x. eid r < eid x) idx"

text \<open>A block arrives while one event is left in the table from before.\<close>

definition old_row :: event_queue_object where
  "old_row = \<lparr>eid = 6, event = Transaction_type, edata = [3]\<rparr>"

definition new_row :: event_queue_object where
  "new_row = \<lparr>eid = 7, event = Block_type, edata = [1, 2]\<rparr>"

definition demo_labels :: "label list" where
  "demo_labels = [Js Take_semaphore, Chain (Call Block_type [1, 2]), Chain Db_wait, Js Pop, Js Emit, Js Record_id,
     Chain Prune, Chain Create, Chain Enqueue, Js Db_post, Js Sleep, Chain Notify, Js Take_semaphore, Js Pop]"

definition demo_emitter :: emitter where
  "demo_emitter =
     \<lparr>cache = [new_row], event_cache_queue = [], emitted_id = 6, mem_id = 7, s_emitter = 0, s_emitter_db = 29999,
      g_js_error = False, quiting = False, producer = Idle, consumer = Taken new_row,
      sent = [old_row, new_row], emitted = [old_row]\<rparr>"

lemmas demo_defs = demo_labels_def demo_emitter_def old_row_def new_row_def plugin_initialize_def MAX_DB_SIZE_def
  create_row_def later_rows_def Let_def

lemma demo_run: "run later_rows (plugin_initialize [old_row]) demo_labels demo_emitter"
  by (rule exec_run) (simp add: demo_defs)

lemma emitter_in_order_witness:
  "sent demo_emitter = emitted demo_emitter @ [new_row] \<and> sorted_wrt (<) (map eid (sent demo_emitter))"
  using emitter_in_order [of "[old_row]", OF _ demo_run] by (simp add: demo_defs)

section \<open>Bounds\<close>

text \<open>Events that are not recorded as emitted hold a permit each.\<close>

lemma recorded_prefix:
  assumes "inv_queue s" "inv_emitted i0 s"
  obtains rest where "sent s = recorded s @ rest"
    "length rest + s_emitter_db s + chain_permit (producer s) \<le> permits s"
proof (cases "\<exists>r. consumer s = Emitted r")
  case True
  then obtain r where r: "consumer s = Emitted r" by blast
  with assms have "emitted s \<noteq> []" "last (emitted s) = r" "recorded s = butlast (emitted s)"
      "sent s = emitted s @ event_cache_queue s"
    by (auto simp: inv_emitted_def recorded_def inv_queue_def split: if_splits)
  moreover from this have "emitted s = recorded s @ [r]" by (metis append_butlast_last_id)
  ultimately have "emitted s = recorded s @ [r]" "sent s = emitted s @ event_cache_queue s" by blast+
  then have "sent s = recorded s @ (r # event_cache_queue s)" by simp
  then show ?thesis by (rule that) (simp add: permits_def r)
next
  case False
  then have "recorded s = emitted s" by (cases "consumer s") (auto simp: recorded_def)
  then have "sent s = recorded s @ drop (length (emitted s)) (sent s)"
    using assms(1) by (auto simp: inv_queue_def split: if_splits)
  moreover have "length (drop (length (emitted s)) (sent s)) + s_emitter_db s + chain_permit (producer s) \<le> permits s"
    using assms(1) by (cases "consumer s") (auto simp: inv_queue_def permits_def split: if_splits)
  ultimately show ?thesis by (rule that)
qed

lemma unrecorded_above:
  assumes "inv_ids i0 s" "inv_emitted i0 s" "sent s = recorded s @ rest"
  shows "{r \<in> set (sent s). emitted_id s < eid r} = set rest"
proof (cases "recorded s" rule: rev_cases)
  case Nil
  then show ?thesis using assms by (auto simp: inv_ids_def inv_emitted_def)
next
  case (snoc es r)
  have "sorted_wrt (<) (map eid (es @ [r] @ rest))"
    using assms(1) unfolding inv_ids_def assms(3) snoc by simp
  then have "\<forall>x \<in> set es. eid x < eid r" "\<forall>x \<in> set rest. eid r < eid x" by (simp_all add: sorted_wrt_append)
  then show ?thesis using assms(2,3) snoc by (auto simp: inv_emitted_def)
qed

text \<open>With an iterator that goes on to the row after the removed one, pruning leaves only rows
  that hold a permit, so the table keeps its bound.\<close>

definition inv_table :: "nat \<Rightarrow> emitter \<Rightarrow> bool" where
  "inv_table cap s \<longleftrightarrow>
     length (cache s) \<le> cap \<and> (\<forall>itr ev d. producer s = Pruning itr ev d \<longrightarrow> itr = cache s)"

lemma rows_le:
  assumes "inv_cache s" "set (cache s) \<subseteq> set rest"
  shows "length (cache s) \<le> length rest"
proof -
  have "distinct (map eid (cache s))"
    using assms(1) by (simp add: inv_cache_def strict_sorted_iff)
  then have "length (cache s) = card (set (cache s))" by (simp add: distinct_card distinct_map)
  also have "\<dots> \<le> card (set rest)" using assms(2) by (simp add: card_mono)
  also have "\<dots> \<le> length rest" by (rule card_length)
  finally show ?thesis .
qed

lemma step_table:
  assumes "step later_rows l s = Some s'" "inv_table cap s" "\<forall>idx. l \<noteq> Env (Undo idx)"
    and inv: "inv_cache s" "inv_kept s" "inv_queue s" "inv_ids i0 s" "inv_emitted i0 s" and "permits s \<le> cap"
  shows "inv_table cap s'"
  using assms(1,2,3)
proof (cases l rule: label_cases)
  case Prune
  with assms(1) obtain r itr ev d where p: "producer s = Pruning (r # itr) ev d"
    "s' = s\<lparr>cache := remove1 r (cache s), producer := Pruning (later_rows r (remove1 r (cache s))) ev d\<rparr>"
    by (auto simp: Let_def split: step_splits)
  with assms(2) have "cache s = r # itr" by (simp add: inv_table_def)
  with inv(1) have "later_rows r (remove1 r (cache s)) = itr" by (simp add: inv_cache_def later_rows_def)
  with p assms(2) \<open>cache s = r # itr\<close> show ?thesis by (simp add: inv_table_def)
next
  case Create
  with assms(1) obtain itr ev d where p: "producer s = Pruning itr ev d" "itr = [] \<or> emitted_id s < eid (hd itr)"
    "cache s' = cache s @ [\<lparr>eid = mem_id s + 1, event = ev, edata = d\<rparr>]" "producer s' = Stored ev d"
    using step_create [OF inv(1)] by (auto split: step_splits)
  with assms(2) have "itr = cache s" by (simp add: inv_table_def)
  with p(2) inv(1) have "\<forall>r \<in> set (cache s). emitted_id s < eid r"
    by (cases "cache s") (auto simp: inv_cache_def)
  then have c: "set (cache s) = {r \<in> set (sent s). emitted_id s < eid r}"
    using inv(2) p(1) by (auto simp: inv_kept_def stored_def)
  obtain rest where rest: "sent s = recorded s @ rest"
    "length rest + s_emitter_db s + chain_permit (producer s) \<le> permits s"
    by (rule recorded_prefix [OF inv(3,5)])
  have "length (cache s) \<le> length rest"
    using rows_le [OF inv(1), of rest] c unrecorded_above [OF inv(4,5) rest(1)] by simp
  with rest(2) p \<open>permits s \<le> cap\<close> show ?thesis by (simp add: inv_table_def)
qed (auto simp: inv_table_def Let_def split: step_splits)

lemma run_table:
  assumes "run later_rows (plugin_initialize idx) ls s" "\<forall>i. Env (Undo i) \<notin> set ls" "sorted_wrt (<) (map eid idx)"
  shows "inv_table (max MAX_DB_SIZE (length idx)) s"
  using assms
proof (induction rule: run.induct)
  case run_nil
  then show ?case by (simp add: inv_table_def plugin_initialize_def)
next
  case (run_snoc ls s l s')
  have nx: "nxt_rows later_rows" by (auto simp: nxt_rows_def later_rows_def)
  note r = run_snoc.hyps(1) and init = init_invs [OF run_snoc.prems(2)]
  have nu: "\<forall>i. Env (Undo i) \<notin> set ls" using run_snoc.prems(1) by simp
  have "inv_table (max MAX_DB_SIZE (length idx)) s" using run_snoc.IH [OF nu run_snoc.prems(2)] .
  moreover have "\<forall>i. l \<noteq> Env (Undo i)" using run_snoc.prems(1) by auto
  moreover have "inv_cache s" "inv_kept s" "inv_queue s"
    using run_invs(1,5) [OF r] run_kept [OF r nu nx init(7) init(6) init(1) init(4) init(5)] init nx by auto
  moreover have "inv_ids (emitted_id (plugin_initialize idx)) s" "inv_emitted (emitted_id (plugin_initialize idx)) s"
    using run_invs(3,4) [OF r] init by auto
  moreover have "permits s \<le> max MAX_DB_SIZE (length idx)"
    using run_invs(6) [OF r init(1)] init(3) by simp
  ultimately show ?case by (rule step_table [OF run_snoc.hyps(2)])
qed



section \<open>Restarting\<close>

lemma sorted_split: "sorted_wrt (<) (map eid rs) \<Longrightarrow>
    filter (\<lambda>r. eid r \<le> e) rs @ filter (\<lambda>r. \<not> eid r \<le> e) rs = rs"
proof (induction rs)
  case (Cons r rs)
  show ?case
  proof (cases "eid r \<le> e")
    case False
    then have "filter (\<lambda>r. eid r \<le> e) rs = []" "filter (\<lambda>r. \<not> eid r \<le> e) rs = rs"
      using Cons.prems by (auto simp: filter_empty_conv filter_id_conv)
    then show ?thesis using False by simp
  qed (use Cons in simp)
qed simp



section \<open>A listener that throws\<close>

lemma run_ended:
  assumes "run nxt s ls s'" "consumer s = Ended"
  shows "consumer s' = Ended \<and> emitted s' = emitted s \<and> emitted_id s' = emitted_id s \<and>
    s_emitter_db s' + length (filter (\<lambda>l. l = Chain Db_wait) ls) = s_emitter_db s"
  using assms
proof (induction rule: run.induct)
  case (run_snoc ls s' l s'')
  from run_snoc.hyps(2) run_snoc.IH [OF run_snoc.prems] show ?case
    by (cases l rule: label_cases) (auto simp: Let_def split: step_splits)
qed simp

lemma run_waiting:
  assumes "run nxt s ls s'" "consumer s = Ended" "s_emitter_db s = 0" "producer s = Waiting ev d"
  shows "producer s' = Waiting ev d"
  using assms
proof (induction rule: run.induct)
  case (run_snoc ls s' l s'')
  have "consumer s' = Ended" "s_emitter_db s' = 0" using run_ended [OF run_snoc.hyps(1) run_snoc.prems(1)] run_snoc.prems(2) by auto
  with run_snoc.hyps(2) run_snoc.IH [OF run_snoc.prems] show ?case
    by (cases l rule: label_cases) (auto simp: Let_def split: step_splits)
qed simp

text \<open>
  C38: A listener that throws ends the delivery: the application is told to quit, the failed
  event's id is not recorded, and from then on no event is emitted and no permit comes back.
  The chain thread can stash as many events as there were free permits; the one after them
  blocks it in \<open>stash_data\<close> for good, so the quit it was told is never served.
\<close>

theorem emitter_js_error:
  assumes "js_step Emit_fails s = Some s1" "run nxt s1 ls s2"
  shows "quiting s1 \<and> g_js_error s1 \<and> emitted s2 = emitted s \<and> emitted_id s2 = emitted_id s \<and>
    length (filter (\<lambda>l. l = Chain Db_wait) ls) \<le> s_emitter_db s \<and>
    (producer s1 = Waiting ev d \<longrightarrow> s_emitter_db s1 = 0 \<longrightarrow> producer s2 = Waiting ev d)"
proof -
  have s1: "consumer s1 = Ended" "quiting s1" "g_js_error s1" "emitted s1 = emitted s" "emitted_id s1 = emitted_id s"
    "s_emitter_db s1 = s_emitter_db s"
    using assms(1) by (auto split: step_splits)
  show ?thesis using run_ended [OF assms(2) s1(1)] run_waiting [OF assms(2) s1(1)] s1 by auto
qed

lemma emitter_js_error_witness:
  "\<exists>s1 s2. js_step Emit_fails (demo_emitter\<lparr>s_emitter_db := 0\<rparr>) = Some s1 \<and>
     run later_rows s1 [Chain (Call Block_type [9])] s2 \<and> emitted s2 = [old_row] \<and> emitted_id s2 = 6"
proof -
  let ?s1 = "demo_emitter\<lparr>s_emitter_db := 0, g_js_error := True, quiting := True, consumer := Ended\<rparr>"
  have e: "js_step Emit_fails (demo_emitter\<lparr>s_emitter_db := 0\<rparr>) = Some ?s1" by (simp add: demo_emitter_def)
  have r: "run later_rows ?s1 [Chain (Call Block_type [9])] (?s1\<lparr>producer := Waiting Block_type [9]\<rparr>)"
    by (rule exec_run) (simp add: demo_emitter_def)
  have "emitted (?s1\<lparr>producer := Waiting Block_type [9]\<rparr>) = emitted (demo_emitter\<lparr>s_emitter_db := 0\<rparr>)"
    "emitted_id (?s1\<lparr>producer := Waiting Block_type [9]\<rparr>) = emitted_id (demo_emitter\<lparr>s_emitter_db := 0\<rparr>)"
    using emitter_js_error [OF e r] by blast+
  moreover have "emitted (demo_emitter\<lparr>s_emitter_db := 0\<rparr>) = [old_row]" "emitted_id (demo_emitter\<lparr>s_emitter_db := 0\<rparr>) = 6"
    by (simp_all add: demo_emitter_def)
  ultimately show ?thesis using e r by metis
qed

section \<open>Signals of the chain\<close>

text \<open>The controller emits a signal for each accepted block and each applied transaction.  What
  is stashed for it is a list of events; \<open>fetch\<close> is the controller's block log and may not
  have a block.  Block 1 is fetched without a check: None is the use of a null pointer.\<close>

function irreversible_events :: "(32 word \<Rightarrow> 'b option) \<Rightarrow> 32 word \<Rightarrow> 32 word \<Rightarrow> (event_type \<times> 'b) list \<times> 32 word" where
  "irreversible_events fetch lst lib =
     (if lst < lib
      then (let n = lst + 1; (evs, lst') = irreversible_events fetch n lib in
            ((case fetch n of None \<Rightarrow> evs | Some irrbs \<Rightarrow> (Irreversible_block_type, irrbs) # evs), lst'))
      else ([], lst))"
  by pat_completeness auto
termination
  by (relation "measure (\<lambda>(fetch, lst, lib). unat (lib - lst))")
    (simp, unat_arith)

declare irreversible_events.simps [simp del]

definition on_accepted_block :: "(32 word \<Rightarrow> 'b option) \<Rightarrow> 32 word \<Rightarrow> 32 word \<Rightarrow> 32 word \<Rightarrow> 'b \<Rightarrow>
    ((event_type \<times> 'b) list \<times> 32 word) option" where
  "on_accepted_block fetch lst lib num blk =
     (let (irr, lst') = irreversible_events fetch lst lib in
      if num = 2
      then (case fetch 1 of None \<Rightarrow> None
            | Some b1 \<Rightarrow> Some ((Block_type, b1) # (Block_type, blk) # irr, lst'))
      else Some ((Block_type, blk) # irr, lst'))"

text \<open>A transaction whose only trace is the chain's own action for the start of a block is
  not an event.\<close>

definition on_applied_transaction :: "(string \<times> string) list \<Rightarrow> bool" where
  "on_applied_transaction traces \<longleftrightarrow>
     length traces \<noteq> 1 \<or> fst (traces ! 0) \<noteq> ''eosio'' \<or> snd (traces ! 0) \<noteq> ''onblock''"

text \<open>What a signal starts: an event that cannot be serialised is not stashed, the application is
  told to quit.\<close>

definition applied_event :: "('b \<Rightarrow> exn + 8 word list) \<Rightarrow> event_type \<Rightarrow> 'b \<Rightarrow> label" where
  "applied_event pack ev x = (case pack x of Inl e \<Rightarrow> Env Quit | Inr d \<Rightarrow> Chain (Call ev d))"

lemma irreversible_events_none: "lib \<le> lst \<Longrightarrow> irreversible_events fetch lst lib = ([], lst)"
  by (subst irreversible_events.simps) (simp add: not_less [symmetric])

lemma irreversible_events_split:
  "unat lib = unat lst + k \<Longrightarrow>
   irreversible_events fetch lst lib =
     (concat (map (\<lambda>i. case fetch (word_of_nat i) of None \<Rightarrow> [] | Some b \<Rightarrow> [(Irreversible_block_type, b)])
        [Suc (unat lst)..<Suc (unat lib)]), lib)"
proof (induction k arbitrary: lst)
  case 0
  then have "lst = lib" by (simp add: word_unat_eq_iff)
  then show ?case by (simp add: irreversible_events.simps)
next
  case (Suc k)
  have lt: "lst < lib" using Suc.prems by (simp add: word_less_nat_alt)
  have n: "unat (lst + 1) = Suc (unat lst)" using lt by unat_arith
  have "lst + 1 \<le> lib" "unat lib = unat (lst + 1) + k" using Suc.prems n by (simp_all add: word_le_nat_alt)
  then have "irreversible_events fetch (lst + 1) lib =
     (concat (map (\<lambda>i. case fetch (word_of_nat i) of None \<Rightarrow> [] | Some b \<Rightarrow> [(Irreversible_block_type, b)])
        [Suc (Suc (unat lst))..<Suc (unat lib)]), lib)"
    using Suc.IH [of "lst + 1"] n by simp
  moreover have "[Suc (unat lst)..<Suc (unat lib)] = Suc (unat lst) # [Suc (Suc (unat lst))..<Suc (unat lib)]"
    using Suc.prems by (simp add: upt_conv_Cons)
  moreover have "word_of_nat (Suc (unat lst)) = lst + 1" by (simp add: n [symmetric] del: of_nat_Suc)
  ultimately show ?case using lt by (subst irreversible_events.simps) (simp add: Let_def add.commute del: upt_Suc split: option.split)
qed

lemma irreversible_events_range:
  "irreversible_events fetch lst lib =
     (concat (map (\<lambda>i. case fetch (word_of_nat i) of None \<Rightarrow> [] | Some b \<Rightarrow> [(Irreversible_block_type, b)])
        [Suc (unat lst)..<Suc (unat lib)]), max lst lib)"
proof (cases "lst \<le> lib")
  case True
  then have "unat lib = unat lst + (unat lib - unat lst)" by (simp add: word_le_nat_alt)
  from irreversible_events_split [OF this] show ?thesis using True by (simp add: max_def del: upt_Suc)
next
  case False
  then have "lib \<le> lst" "[Suc (unat lst)..<Suc (unat lib)] = []" by (simp_all add: word_le_nat_alt)
  then show ?thesis by (simp add: irreversible_events_none max_def del: upt_Suc)
qed

text \<open>
  Accepting a block stashes the block, behind the first block when it is the second, and
  then one irreversible event for each number from the last one reported to the chain's last
  irreversible block whose block the log has, in order and without a repetition over the calls;
  the number that is kept is the larger of the two, and nothing is stashed twice.
\<close>

theorem accepted_block_events:
  "irreversible_events fetch lst lib =
     (concat (map (\<lambda>i. case fetch (word_of_nat i) of None \<Rightarrow> [] | Some b \<Rightarrow> [(Irreversible_block_type, b)])
        [Suc (unat lst)..<Suc (unat lib)]), max lst lib) \<and>
   (num \<noteq> 2 \<or> fetch 1 \<noteq> None \<longleftrightarrow> on_accepted_block fetch lst lib num blk \<noteq> None) \<and>
   (on_accepted_block fetch lst lib num blk = Some (evs, lst') \<longrightarrow>
      lst' = max lst lib \<and>
      evs = (if num = 2 then [(Block_type, the (fetch 1))] else []) @ (Block_type, blk) # fst (irreversible_events fetch lst lib) \<and>
      (lib' \<le> lst' \<longrightarrow> irreversible_events fetch lst' lib' = ([], lst')))"
proof -
  have "irreversible_events fetch lst' lib' = ([], lst')" if "lib' \<le> lst'"
    using that by (rule irreversible_events_none)
  then show ?thesis
    using irreversible_events_range [of fetch lst lib] by (auto simp: on_accepted_block_def Let_def split: if_splits option.splits)
qed

lemma accepted_block_events_witness:
  "on_accepted_block (\<lambda>n. if n = 6 then None else Some n) 4 7 9 (9 :: 32 word) =
     Some ([(Block_type, 9), (Irreversible_block_type, 5), (Irreversible_block_type, 7)], 7)"
proof -
  let ?fetch = "\<lambda>n :: 32 word. if n = 6 then None else Some n"
  have u: "[Suc (unat (4 :: 32 word))..<Suc (unat (7 :: 32 word))] = [5, 6, 7]" by (simp add: upt_rec)
  have "irreversible_events ?fetch 4 7 = ([(Irreversible_block_type, 5), (Irreversible_block_type, 7)], 7)"
    using conjunct1 [OF accepted_block_events [of ?fetch 4 7 9 9 "[]" 0 0]] unfolding u by simp
  then show ?thesis by (simp add: on_accepted_block_def)
qed

end
