(* ===== verification/Contract_Cache.thy ===== *)
theory Contract_Cache
  imports Js_Value
begin

text \<open>
  Which program runs for an account: \<^verbatim>\<open>src/patch/eosio/contract_interface.cpp\<close>,
  \<^verbatim>\<open>include/contract_interface.h\<close> and the constructor and \<open>validate\<close> of
  \<^verbatim>\<open>src/js_contract/include/js_module.h\<close>.  The node extends the cache of instantiated
  WebAssembly modules by JavaScript modules, which are zip archives: an entry stands under the
  hash and kind of the code, and a JavaScript entry is made anew when the sequence number of the
  account's ABI is not the one it was made with.

  The chain's objects (code, account metadata, ABI) and the instantiation of WebAssembly are
  parameters.  \<open>'w\<close> is a WebAssembly module, \<open>'a\<close> an ABI.
\<close>

section \<open>Code\<close>

definition int32_at :: "8 word list \<Rightarrow> 32 word" where
  "int32_at bs = word_rcat (rev (take 4 bs))"

definition is_wasm :: "8 word list \<Rightarrow> bool" where
  "is_wasm code \<longleftrightarrow> length code > 4 \<and> int32_at code = 0x6d736100"

definition js_validate :: "bool \<Rightarrow> 8 word list \<Rightarrow> bool" where
  "js_validate g_enable code \<longleftrightarrow> g_enable \<and> length code > 4 \<and> int32_at code = 0x04034b50"

definition wasm_interface_validate :: "bool \<Rightarrow> (8 word list \<Rightarrow> exn + unit) \<Rightarrow> 8 word list \<Rightarrow> exn + unit" where
  "wasm_interface_validate g_enable old_validate code =
     (if is_wasm code then old_validate code
      else if js_validate g_enable code then Inr ()
      else Inl (Chain_exception ''unsupport contract.'' []))"

section \<open>Modules\<close>

record 'a contract_interface =
  m_code :: "8 word list"
  m_abi :: 'a
  m_abi_sequence :: "64 word"
  m_fname :: string

datatype ('w, 'a) cmodule = Wasm_module 'w | Js_module "'a contract_interface"

text \<open>What an action being applied sees of the chain; \<open>check_abi\<close> is the construction of the
  serializer, which may refuse an ABI.\<close>

type_synonym code_key = "8 word list \<times> 8 word \<times> 8 word"

record 'a apply_ctx =
  ctx_receiver :: "64 word"
  code_object :: "code_key \<Rightarrow> exn + 8 word list"
  abi_sequence :: "64 word \<Rightarrow> exn + 64 word"
  account_abi :: "64 word \<Rightarrow> exn + 'a"
  check_abi :: "'a \<Rightarrow> exn + unit"

text \<open>The constructor of \<open>contract_interface\<close>, then \<open>js_module_interface\<close>; \<open>to_string\<close> is the
  chain's text of a name.\<close>

definition new_js_module :: "(64 word \<Rightarrow> string) \<Rightarrow> 'a apply_ctx \<Rightarrow> 8 word list \<Rightarrow> 64 word \<Rightarrow> exn + 'a contract_interface" where
  "new_js_module to_string ctx code seq =
     (case account_abi ctx (ctx_receiver ctx) of Inl e \<Rightarrow> Inl e | Inr abi \<Rightarrow>
      case check_abi ctx abi of Inl e \<Rightarrow> Inl e | Inr _ \<Rightarrow>
        Inr \<lparr>m_code = code, m_abi = abi, m_abi_sequence = seq, m_fname = ''/'' @ to_string (ctx_receiver ctx)\<rparr>)"

definition instantiate_module ::
    "bool \<Rightarrow> (64 word \<Rightarrow> string) \<Rightarrow> 'a apply_ctx \<Rightarrow> 8 word list \<Rightarrow> 64 word \<Rightarrow> exn + 'a contract_interface" where
  "instantiate_module g_enable to_string ctx code seq =
     (if js_validate g_enable code then new_js_module to_string ctx code seq
      else Inl (Chain_exception ''code is not wasm, js'' []))"

section \<open>The cache\<close>

record ('w, 'a) cache_entry =
  entry_module :: "('w, 'a) cmodule"
  last_block_num_used :: "32 word"

type_synonym ('w, 'a) module_cache = "code_key \<rightharpoonup> ('w, 'a) cache_entry"

text \<open>\<open>get_instantiated\<close> is the chain's own \<open>get_instantiated_module\<close>.  When the new module of an
  entry cannot be made, the exception leaves \<open>modify\<close>, which erases the entry.\<close>

definition get_contract_module ::
    "bool \<Rightarrow> (64 word \<Rightarrow> string) \<Rightarrow> (code_key \<Rightarrow> ('w, 'a) module_cache \<Rightarrow> (exn + 'w) \<times> ('w, 'a) module_cache) \<Rightarrow>
     'a apply_ctx \<Rightarrow> code_key \<Rightarrow> ('w, 'a) module_cache \<Rightarrow> (exn + ('w, 'a) cmodule) \<times> ('w, 'a) module_cache" where
  "get_contract_module g_enable to_string get_instantiated ctx key cache =
     (case map_option entry_module (cache key) of
        Some (Wasm_module w) \<Rightarrow> (Inr (Wasm_module w), cache)
      | it \<Rightarrow>
         (case code_object ctx key of Inl e \<Rightarrow> (Inl e, cache) | Inr code \<Rightarrow>
          if is_wasm code then map_prod (map_sum id Wasm_module) id (get_instantiated key cache)
          else case abi_sequence ctx (ctx_receiver ctx) of Inl e \<Rightarrow> (Inl e, cache) | Inr seq \<Rightarrow>
          case it of
            Some (Js_module m) \<Rightarrow>
              if seq \<noteq> m_abi_sequence m
              then (case instantiate_module g_enable to_string ctx code seq of
                      Inl e \<Rightarrow> (Inl e, cache(key := None))
                    | Inr m' \<Rightarrow>
                        (Inr (Js_module m'), cache(key := map_option (entry_module_update (\<lambda>_. Js_module m')) (cache key))))
              else (Inr (Js_module m), cache)
          | _ \<Rightarrow>
              (case instantiate_module g_enable to_string ctx code seq of
                 Inl e \<Rightarrow> (Inl e, cache)
               | Inr m' \<Rightarrow>
                   (Inr (Js_module m'), cache(key \<mapsto> \<lparr>entry_module = Js_module m', last_block_num_used = - 1\<rparr>)))))"

section \<open>What is in the cache\<close>

text \<open>\<open>code_of\<close> is the code with a hash, \<open>abi_at\<close> the ABI an account has under a sequence number:
  the chain advances the number whenever it changes the ABI.\<close>

definition ctx_ok :: "(code_key \<rightharpoonup> 8 word list) \<Rightarrow> (64 word \<Rightarrow> 64 word \<Rightarrow> exn + 'a) \<Rightarrow> 'a apply_ctx \<Rightarrow> bool" where
  "ctx_ok code_of abi_at ctx \<longleftrightarrow>
     (\<forall>key code. code_object ctx key = Inr code \<longrightarrow> code_of key = Some code) \<and>
     (\<forall>acct seq. abi_sequence ctx acct = Inr seq \<longrightarrow> account_abi ctx acct = abi_at acct seq)"

definition made_for :: "(64 word \<Rightarrow> string) \<Rightarrow> (64 word \<Rightarrow> 64 word \<Rightarrow> exn + 'a) \<Rightarrow> 64 word \<Rightarrow> 'a contract_interface \<Rightarrow> bool" where
  "made_for to_string abi_at acct m \<longleftrightarrow>
     m_fname m = ''/'' @ to_string acct \<and> abi_at acct (m_abi_sequence m) = Inr (m_abi m)"

definition cache_ok :: "(64 word \<Rightarrow> string) \<Rightarrow> (code_key \<rightharpoonup> 8 word list) \<Rightarrow> (64 word \<Rightarrow> 64 word \<Rightarrow> exn + 'a) \<Rightarrow>
    ('w, 'a) module_cache \<Rightarrow> bool" where
  "cache_ok to_string code_of abi_at cache \<longleftrightarrow>
     (\<forall>key e m. cache key = Some e \<longrightarrow> entry_module e = Js_module m \<longrightarrow>
        code_of key = Some (m_code m) \<and> js_validate True (m_code m) \<and> (\<exists>acct. made_for to_string abi_at acct m))"

text \<open>Instantiating WebAssembly leaves the entries of JavaScript modules alone.\<close>

definition wasm_ok :: "(code_key \<Rightarrow> ('w, 'a) module_cache \<Rightarrow> (exn + 'w) \<times> ('w, 'a) module_cache) \<Rightarrow> bool" where
  "wasm_ok get_instantiated \<longleftrightarrow>
     (\<forall>key cache k. snd (get_instantiated key cache) k = cache k \<or>
        (\<exists>e w. snd (get_instantiated key cache) k = Some e \<and> entry_module e = Wasm_module w))"

lemma ctx_ok_code: "ctx_ok code_of abi_at ctx \<Longrightarrow> code_object ctx key = Inr code \<Longrightarrow> code_of key = Some code"
  by (cases key) (simp add: ctx_ok_def)

lemma ctx_ok_abi: "ctx_ok code_of abi_at ctx \<Longrightarrow> abi_sequence ctx acct = Inr seq \<Longrightarrow> account_abi ctx acct = abi_at acct seq"
  by (simp add: ctx_ok_def)

lemma instantiate_Inr:
  assumes "instantiate_module g_enable to_string ctx code seq = Inr m" "ctx_ok code_of abi_at ctx"
    "abi_sequence ctx (ctx_receiver ctx) = Inr seq"
  shows "m_code m = code" "m_abi_sequence m = seq" "js_validate True code"
    "made_for to_string abi_at (ctx_receiver ctx) m" "account_abi ctx (ctx_receiver ctx) = Inr (m_abi m)"
  using assms
  by (auto simp: instantiate_module_def new_js_module_def made_for_def ctx_ok_def js_validate_def
      split: if_splits sum.splits)

lemma cache_ok_D: "cache_ok ts code_of abi_at cache \<Longrightarrow> cache key = Some e \<Longrightarrow> entry_module e = Js_module m \<Longrightarrow>
    code_of key = Some (m_code m) \<and> (\<exists>acct. made_for ts abi_at acct m)"
  by (cases key) (simp add: cache_ok_def)

lemma cache_ok_upd:
  "cache_ok ts code_of abi_at cache \<Longrightarrow> code_of key = Some (m_code m) \<Longrightarrow> js_validate True (m_code m) \<Longrightarrow>
   made_for ts abi_at acct m \<Longrightarrow> entry_module e = Js_module m \<Longrightarrow> cache_ok ts code_of abi_at (cache(key \<mapsto> e))"
  by (fastforce simp: cache_ok_def)

lemma cache_ok_del: "cache_ok ts code_of abi_at cache \<Longrightarrow> cache_ok ts code_of abi_at (cache(key := None))"
  by (simp add: cache_ok_def)

lemma cache_ok_wasm: "cache_ok ts code_of abi_at cache \<Longrightarrow> wasm_ok gi \<Longrightarrow> cache_ok ts code_of abi_at (snd (gi key cache))"
  unfolding cache_ok_def wasm_ok_def by (metis cmodule.distinct(1) option.inject)

text \<open>What a lookup that answers with a JavaScript module has done.\<close>

lemma get_contract_js:
  assumes "get_contract_module en ts gi ctx key cache = (Inr (Js_module m), cache')"
  obtains code seq where "code_object ctx key = Inr code" "\<not> is_wasm code" "abi_sequence ctx (ctx_receiver ctx) = Inr seq"
    "(\<exists>e. cache key = Some e \<and> entry_module e = Js_module m \<and> m_abi_sequence m = seq \<and> cache' = cache) \<or>
     (instantiate_module en ts ctx code seq = Inr m \<and>
        (\<exists>e. cache' = cache(key \<mapsto> e) \<and> entry_module e = Js_module m) \<and>
        (\<forall>e. cache key = Some e \<longrightarrow> (\<exists>m0. entry_module e = Js_module m0 \<and> m_abi_sequence m0 \<noteq> seq)))"
proof -
  note get = assms [unfolded get_contract_module_def]
  show thesis
  proof (cases "cache key")
    case None
    with get obtain code seq where "code_object ctx key = Inr code" "\<not> is_wasm code" "abi_sequence ctx (ctx_receiver ctx) = Inr seq"
      "instantiate_module en ts ctx code seq = Inr m"
      "cache' = cache(key \<mapsto> \<lparr>entry_module = Js_module m, last_block_num_used = - 1\<rparr>)"
      by (cases "gi key cache"; cases "fst (gi key cache)") (auto split: sum.splits if_splits)
    with None show thesis by (intro that) (assumption+, fastforce)
  next
    case (Some e)
    with get obtain m0 code seq where e: "entry_module e = Js_module m0" "code_object ctx key = Inr code" "\<not> is_wasm code"
      "abi_sequence ctx (ctx_receiver ctx) = Inr seq"
      "m0 = m \<and> seq = m_abi_sequence m \<and> cache' = cache \<or>
       seq \<noteq> m_abi_sequence m0 \<and> instantiate_module en ts ctx code seq = Inr m \<and>
       cache' = cache(key \<mapsto> entry_module_update (\<lambda>_. Js_module m) e)"
      by (cases "gi key cache"; cases "fst (gi key cache)"; cases "entry_module e") (auto split: sum.splits if_splits)
    from e(5) show thesis
    proof (elim disjE conjE)
      assume "m0 = m" "seq = m_abi_sequence m" "cache' = cache"
      with e Some show thesis by (intro that) (assumption+, simp)
    next
      assume "seq \<noteq> m_abi_sequence m0" "instantiate_module en ts ctx code seq = Inr m"
        "cache' = cache(key \<mapsto> entry_module_update (\<lambda>_. Js_module m) e)"
      moreover have "entry_module (entry_module_update (\<lambda>_. Js_module m) e) = Js_module m" by simp
      ultimately show thesis using e Some by (intro that) (assumption+, metis option.inject)
    qed
  qed
qed

lemma get_contract_cache_ok:
  assumes "get_contract_module en ts gi ctx key cache = (r, cache')"
    and ok: "cache_ok ts code_of abi_at cache" "ctx_ok code_of abi_at ctx" "wasm_ok gi"
  shows "cache_ok ts code_of abi_at cache'"
proof (cases "\<exists>m. r = Inr (Js_module m)")
  case True
  then obtain m where "r = Inr (Js_module m)" by blast
  with assms(1) have "get_contract_module en ts gi ctx key cache = (Inr (Js_module m), cache')" by simp
  then obtain code seq where c: "code_object ctx key = Inr code" "abi_sequence ctx (ctx_receiver ctx) = Inr seq"
    and m: "cache' = cache \<or> (instantiate_module en ts ctx code seq = Inr m \<and>
        (\<exists>e. cache' = cache(key \<mapsto> e) \<and> entry_module e = Js_module m))"
    by (rule get_contract_js) blast
  from m show ?thesis
  proof (elim disjE conjE exE)
    fix e
    assume e: "instantiate_module en ts ctx code seq = Inr m" "cache' = cache(key \<mapsto> e)" "entry_module e = Js_module m"
    have "code_of key = Some code" by (rule ctx_ok_code [OF ok(2) c(1)])
    with e instantiate_Inr [OF e(1) ok(2) c(2)] show ?thesis by (auto intro: cache_ok_upd [OF ok(1)])
  qed (use ok in simp)
next
  case False
  have "cache' = cache \<or> cache' = cache(key := None) \<or> cache' = snd (gi key cache)"
    using assms(1) False
    by (cases "cache key"; cases "gi key cache") (auto simp: get_contract_module_def split: sum.splits if_splits cmodule.splits)
  then show ?thesis using ok cache_ok_del cache_ok_wasm by metis
qed

text \<open>What a lookup answers and leaves behind.\<close>

lemma get_contract_current:
  assumes "get_contract_module en ts gi ctx key cache = (r, cache')"
    and "cache_ok ts code_of abi_at cache" "ctx_ok code_of abi_at ctx" "wasm_ok gi"
  shows "cache_ok ts code_of abi_at cache' \<and>
    (\<forall>m. r = Inr (Js_module m) \<longrightarrow>
      code_object ctx key = Inr (m_code m) \<and> abi_sequence ctx (ctx_receiver ctx) = Inr (m_abi_sequence m) \<and>
      map_option entry_module (cache' key) = Some (Js_module m) \<and>
      (\<exists>acct. made_for ts abi_at acct m) \<and>
      ((\<forall>e m0. cache key = Some e \<longrightarrow> entry_module e = Js_module m0 \<longrightarrow> made_for ts abi_at (ctx_receiver ctx) m0) \<longrightarrow>
        made_for ts abi_at (ctx_receiver ctx) m \<and> account_abi ctx (ctx_receiver ctx) = Inr (m_abi m)))"
proof (intro conjI allI impI)
  show "cache_ok ts code_of abi_at cache'" by (rule get_contract_cache_ok [OF assms])
next
  fix m
  assume "r = Inr (Js_module m)"
  with assms(1) have get: "get_contract_module en ts gi ctx key cache = (Inr (Js_module m), cache')" by simp
  obtain code seq where c: "code_object ctx key = Inr code" "abi_sequence ctx (ctx_receiver ctx) = Inr seq"
    and m: "(\<exists>e. cache key = Some e \<and> entry_module e = Js_module m \<and> m_abi_sequence m = seq \<and> cache' = cache) \<or>
      (instantiate_module en ts ctx code seq = Inr m \<and> (\<exists>e. cache' = cache(key \<mapsto> e) \<and> entry_module e = Js_module m))"
    by (rule get_contract_js [OF get]) blast
  have code: "code_of key = Some code" and abi: "account_abi ctx (ctx_receiver ctx) = abi_at (ctx_receiver ctx) seq"
    by (rule ctx_ok_code [OF assms(3) c(1)], rule ctx_ok_abi [OF assms(3) c(2)])
  note inst = instantiate_Inr [OF _ assms(3) c(2)]
  have hit: "m_code m = code \<and> m_abi_sequence m = seq \<and> (\<exists>acct. made_for ts abi_at acct m)"
    using m
  proof (elim disjE conjE exE)
    fix e
    assume "cache key = Some e" "entry_module e = Js_module m" "m_abi_sequence m = seq"
    with cache_ok_D [OF assms(2) this(1,2)] code show ?thesis by simp
  next
    assume "instantiate_module en ts ctx code seq = Inr m"
    from inst [OF this] show ?thesis by blast
  qed
  show "code_object ctx key = Inr (m_code m)" "abi_sequence ctx (ctx_receiver ctx) = Inr (m_abi_sequence m)"
    "\<exists>acct. made_for ts abi_at acct m" using c hit by auto
  show "map_option entry_module (cache' key) = Some (Js_module m)" using m by auto
  assume "\<forall>e m0. cache key = Some e \<longrightarrow> entry_module e = Js_module m0 \<longrightarrow> made_for ts abi_at (ctx_receiver ctx) m0"
  then show "made_for ts abi_at (ctx_receiver ctx) m" using m inst(4) by auto
  then show "account_abi ctx (ctx_receiver ctx) = Inr (m_abi m)" using abi hit by (simp add: made_for_def)
qed

text \<open>
  C10: The cache keeps its invariant: a JavaScript entry holds the code with its hash, a zip
  archive, and was made for some account with the ABI that account has under the entry's
  sequence number.  A lookup answers with the code that was asked for and with the current
  sequence number of the account that runs.  Every entry having been made for this account,
  it has the account's current ABI and file name.
\<close>

theorem contract_module_current:
  assumes "get_contract_module en ts gi ctx key cache = (r, cache')"
    and "cache_ok ts code_of abi_at cache" "ctx_ok code_of abi_at ctx" "wasm_ok gi"
  shows "cache_ok ts code_of abi_at cache' \<and>
    (\<forall>m. r = Inr (Js_module m) \<longrightarrow>
      code_object ctx key = Inr (m_code m) \<and> abi_sequence ctx (ctx_receiver ctx) = Inr (m_abi_sequence m) \<and>
      map_option entry_module (cache' key) = Some (Js_module m) \<and>
      (\<exists>acct. made_for ts abi_at acct m) \<and>
      ((\<forall>e m0. cache key = Some e \<longrightarrow> entry_module e = Js_module m0 \<longrightarrow> made_for ts abi_at (ctx_receiver ctx) m0) \<longrightarrow>
        made_for ts abi_at (ctx_receiver ctx) m \<and> account_abi ctx (ctx_receiver ctx) = Inr (m_abi m)))"
  by (rule get_contract_current [OF assms])

text \<open>Two accounts with the same code.\<close>

definition alice :: "64 word" where "alice = 1"
definition bob :: "64 word" where "bob = 2"

definition demo_name :: "64 word \<Rightarrow> string" where
  "demo_name n = (if n = alice then ''alice'' else ''bob'')"

definition demo_zip :: "8 word list" where
  "demo_zip = [0x50, 0x4b, 3, 4, 0]"

definition demo_abi_at :: "64 word \<Rightarrow> 64 word \<Rightarrow> exn + string" where
  "demo_abi_at acct seq = Inr (''ABI of '' @ demo_name acct)"

definition demo_ctx :: "64 word \<Rightarrow> string apply_ctx" where
  "demo_ctx acct =
     \<lparr>ctx_receiver = acct, code_object = \<lambda>k. Inr demo_zip, abi_sequence = \<lambda>a. Inr 1,
      account_abi = \<lambda>a. demo_abi_at a 1, check_abi = \<lambda>a. Inr ()\<rparr>"

definition demo_key :: code_key where
  "demo_key = ([7], 0, 0)"

definition demo_gi :: "code_key \<Rightarrow> (unit, string) module_cache \<Rightarrow> (exn + unit) \<times> (unit, string) module_cache" where
  "demo_gi key cache = (Inl Other_exception, cache)"

definition demo_module :: "string contract_interface" where
  "demo_module = \<lparr>m_code = demo_zip, m_abi = ''ABI of alice'', m_abi_sequence = 1, m_fname = ''/alice''\<rparr>"

lemma demo_magic: "int32_at demo_zip = 0x04034b50" "length demo_zip = 5"
  by (simp_all add: int32_at_def demo_zip_def word_rcat_def)

lemma demo_get: "get_contract_module True demo_name demo_gi (demo_ctx alice) demo_key Map.empty =
    (Inr (Js_module demo_module), [demo_key \<mapsto> \<lparr>entry_module = Js_module demo_module, last_block_num_used = - 1\<rparr>])"
  by (simp add: get_contract_module_def demo_ctx_def is_wasm_def js_validate_def demo_magic instantiate_module_def
      new_js_module_def demo_abi_at_def demo_module_def demo_name_def)

lemma demo_ok: "cache_ok demo_name (\<lambda>k. Some demo_zip) demo_abi_at Map.empty"
  "ctx_ok (\<lambda>k. Some demo_zip) demo_abi_at (demo_ctx acct)" "wasm_ok demo_gi"
  by (simp_all add: cache_ok_def ctx_ok_def wasm_ok_def demo_ctx_def demo_abi_at_def demo_gi_def)

lemma contract_module_current_witness:
  "made_for demo_name demo_abi_at alice demo_module \<and> account_abi (demo_ctx alice) alice = Inr (m_abi demo_module)"
proof -
  have "ctx_receiver (demo_ctx alice) = alice" by (simp add: demo_ctx_def)
  with contract_module_current [OF demo_get demo_ok(1) demo_ok(2) demo_ok(3)] show ?thesis by simp
qed

text \<open>
  C11: The hash and the sequence number do not say whose module it is.  An account with the
  same code and the same sequence number as the one the entry was made for gets that entry:
  its actions are decoded with the other account's ABI, and its code runs under the other
  account's file name, whatever its own ABI is and even when JavaScript contracts have been
  disabled in between.
\<close>

theorem contract_module_shared:
  assumes "get_contract_module en ts gi A key cache = (Inr (Js_module m), cache')"
    and "code_object B key = code_object A key" "abi_sequence B (ctx_receiver B) = abi_sequence A (ctx_receiver A)"
  shows "get_contract_module en' ts gi B key cache' = (Inr (Js_module m), cache') \<and>
    (cache key = None \<longrightarrow> account_abi A (ctx_receiver A) = Inr (m_abi m) \<and> m_fname m = ''/'' @ ts (ctx_receiver A))"
proof -
  obtain code seq where c: "code_object A key = Inr code" "\<not> is_wasm code" "abi_sequence A (ctx_receiver A) = Inr seq"
    and m: "(\<exists>e. cache key = Some e \<and> entry_module e = Js_module m \<and> m_abi_sequence m = seq \<and> cache' = cache) \<or>
      (instantiate_module en ts A code seq = Inr m \<and> (\<exists>e. cache' = cache(key \<mapsto> e) \<and> entry_module e = Js_module m))"
    by (rule get_contract_js [OF assms(1)]) blast
  have i: "m_abi_sequence m = seq" "account_abi A (ctx_receiver A) = Inr (m_abi m)" "m_fname m = ''/'' @ ts (ctx_receiver A)"
    if "instantiate_module en ts A code seq = Inr m"
    using that by (auto simp: instantiate_module_def new_js_module_def split: if_splits sum.splits)
  obtain e where "cache' key = Some e" "entry_module e = Js_module m" "m_abi_sequence m = seq"
    using m i(1) by auto
  then have "get_contract_module en' ts gi B key cache' = (Inr (Js_module m), cache')"
    using c assms(2,3) by (simp add: get_contract_module_def)
  then show ?thesis using m i(2,3) by auto
qed

lemma contract_module_shared_witness:
  "\<exists>cache'. get_contract_module False demo_name demo_gi (demo_ctx bob) demo_key cache' = (Inr (Js_module demo_module), cache') \<and>
     m_abi demo_module = ''ABI of alice'' \<and> account_abi (demo_ctx bob) bob = Inr ''ABI of bob''"
  using contract_module_shared [OF demo_get, of "demo_ctx bob" False]
  by (auto simp: demo_ctx_def demo_abi_at_def demo_name_def demo_module_def alice_def bob_def)

text \<open>
  What a lookup of JavaScript code does when it fails.  It fails exactly when the account
  has no metadata, or the cache has no module with the current sequence number and none can be
  made: JavaScript is disabled, the code is no archive, the account has no ABI or one that is
  refused.  The entry of the code is then gone, and no other entry is touched.  Code that
  passed \<open>validate\<close> does not fail for its kind.
\<close>

theorem contract_module_errors:
  assumes "code_object ctx key = Inr code" "\<not> is_wasm code"
    and "\<forall>e w. cache key = Some e \<longrightarrow> entry_module e \<noteq> Wasm_module w"
    and "get_contract_module en ts gi ctx key cache = (r, cache')"
  defines "seq \<equiv> abi_sequence ctx (ctx_receiver ctx)"
  shows "((\<exists>x. r = Inl x) \<longleftrightarrow> (\<exists>x. seq = Inl x) \<or>
      (\<forall>e m. cache key = Some e \<longrightarrow> entry_module e = Js_module m \<longrightarrow> seq \<noteq> Inr (m_abi_sequence m)) \<and>
      (\<not> js_validate en code \<or> (\<forall>abi. account_abi ctx (ctx_receiver ctx) = Inr abi \<longrightarrow> check_abi ctx abi \<noteq> Inr ()))) \<and>
    ((\<exists>x. r = Inl x) \<longrightarrow> (\<exists>n. seq = Inr n) \<longrightarrow> cache' = cache(key := None)) \<and>
    (\<forall>k. k \<noteq> key \<longrightarrow> cache' k = cache k) \<and>
    (wasm_interface_validate en old_validate code = Inr () \<longleftrightarrow> js_validate en code)"
proof (cases seq)
  case (Inl x)
  then have "r = Inl x" "cache' = cache"
    using assms by (cases "cache key"; auto simp: get_contract_module_def split: cmodule.splits)+
  then show ?thesis using Inl assms(2) by (auto simp: wasm_interface_validate_def)
next
  case (Inr n)
  have inst: "(\<exists>x. instantiate_module en ts ctx code n = Inl x) \<longleftrightarrow>
      \<not> js_validate en code \<or> (\<forall>abi. account_abi ctx (ctx_receiver ctx) = Inr abi \<longrightarrow> check_abi ctx abi \<noteq> Inr ())"
    by (auto simp: instantiate_module_def new_js_module_def split: sum.splits)
  show ?thesis
  proof (cases "cache key")
    case None
    have "(r, cache') = (case instantiate_module en ts ctx code n of Inl e \<Rightarrow> (Inl e, cache)
        | Inr m' \<Rightarrow> (Inr (Js_module m'), cache(key \<mapsto> \<lparr>entry_module = Js_module m', last_block_num_used = - 1\<rparr>)))"
      using assms(1,2,4) Inr None by (simp add: get_contract_module_def seq_def)
    then show ?thesis
      using inst None Inr assms(2) by (auto simp: wasm_interface_validate_def split: sum.splits)
  next
    case (Some e)
    then obtain m where m: "entry_module e = Js_module m" using assms(3) by (cases "entry_module e") auto
    then have "(r, cache') = (if n \<noteq> m_abi_sequence m
        then (case instantiate_module en ts ctx code n of Inl e \<Rightarrow> (Inl e, cache(key := None))
          | Inr m' \<Rightarrow> (Inr (Js_module m'), cache(key \<mapsto> entry_module_update (\<lambda>_. Js_module m') e)))
        else (Inr (Js_module m), cache))"
      using assms(1,2,4) Inr Some by (auto simp: get_contract_module_def seq_def split: sum.splits if_splits)
    then show ?thesis
      using inst Some m Inr assms(2) by (auto simp: wasm_interface_validate_def split: sum.splits if_splits)
  qed
qed

lemma contract_module_errors_witness:
  "get_contract_module False demo_name demo_gi (demo_ctx bob) demo_key
       [demo_key \<mapsto> \<lparr>entry_module = Js_module (demo_module\<lparr>m_abi_sequence := 0\<rparr>), last_block_num_used = 9\<rparr>] =
     (Inl (Chain_exception ''code is not wasm, js'' []), Map.empty)"
proof -
  let ?c = "[demo_key \<mapsto> \<lparr>entry_module = Js_module (demo_module\<lparr>m_abi_sequence := 0\<rparr>), last_block_num_used = 9\<rparr>]"
  have get: "get_contract_module False demo_name demo_gi (demo_ctx bob) demo_key ?c =
      (Inl (Chain_exception ''code is not wasm, js'' []), ?c(demo_key := None))"
    by (simp add: get_contract_module_def demo_ctx_def is_wasm_def js_validate_def demo_magic instantiate_module_def demo_module_def)
  have "code_object (demo_ctx bob) demo_key = Inr demo_zip" "\<not> is_wasm demo_zip"
    "\<forall>e w. ?c demo_key = Some e \<longrightarrow> entry_module e \<noteq> Wasm_module w"
    "abi_sequence (demo_ctx bob) (ctx_receiver (demo_ctx bob)) = Inr 1"
    by (simp_all add: demo_ctx_def is_wasm_def demo_magic)
  with contract_module_errors [OF this(1-3) get] get show ?thesis by simp
qed

end
