(* ===== verification/Chain_Db.thy ===== *)
theory Chain_Db
  imports Js_Value
begin

text \<open>
  The database interface of the chain as the tables of a JavaScript contract use it
  (\<^verbatim>\<open>g_now_context\<close> in \<^verbatim>\<open>src/js_contract\<close>).  The chain itself is not part of the repository:
  its operations are the fields of \<open>chain_api\<close> and \<open>sec_api\<close>, arguments of every definition
  that calls them, over a state the code never looks into.

  What the code relies on is \<open>chain_ok\<close>: a view of the state (the rows of each table, the
  entries of each secondary index, the object behind each iterator) and the documented effect
  of each operation on it.  Iterators are never handed out twice for different objects, so the
  object an iterator was given for stays the same for the rest of the action.  The last part
  builds a small database that has these laws, for the witnesses.
\<close>

section \<open>Operations that may throw\<close>

type_synonym ('s, 'a) act = "'s \<Rightarrow> (js_error + 'a) \<times> 's"

definition ret :: "'a \<Rightarrow> ('s, 'a) act" where
  "ret a s = (Inr a, s)"

definition fail :: "js_error \<Rightarrow> ('s, 'a) act" where
  "fail e s = (Inl e, s)"

definition bind_act :: "('s, 'a) act \<Rightarrow> ('a \<Rightarrow> ('s, 'b) act) \<Rightarrow> ('s, 'b) act" where
  "bind_act m f s = (case m s of (Inl e, s') \<Rightarrow> (Inl e, s') | (Inr a, s') \<Rightarrow> f a s')"

definition lift_sum :: "js_error + 'a \<Rightarrow> ('s, 'a) act" where
  "lift_sum r s = (r, s)"

fun exn_text :: "exn \<Rightarrow> string" where
  "exn_text (Chain_exception msg args) = msg"
| "exn_text (Fc_exception msg) = msg"
| "exn_text (Std_exception msg) = msg"
| "exn_text Other_exception = ''unknown exception''"

text \<open>The two ladders of handlers: without and with one for \<open>fc::exception\<close>, which is not a
  \<open>std::exception\<close>.\<close>

fun caught :: "js_error \<Rightarrow> js_error" where
  "caught (Thrown (Fc_exception msg)) = Set_error ''unknown exception''"
| "caught (Thrown e) = Set_error (exn_text e)"
| "caught e = e"

fun caught_fc :: "js_error \<Rightarrow> js_error" where
  "caught_fc (Thrown e) = Set_error (exn_text e)"
| "caught_fc e = e"

definition try_chain :: "('s, 'a) act \<Rightarrow> ('s, 'a) act" where
  "try_chain m s = map_prod (map_sum caught id) id (m s)"

definition try_fc :: "('s, 'a) act \<Rightarrow> ('s, 'a) act" where
  "try_fc m s = map_prod (map_sum caught_fc id) id (m s)"

lemma ret_eq [simp]: "ret a s = (Inr b, s') \<longleftrightarrow> b = a \<and> s' = s"
  by (auto simp: ret_def)

lemma fail_eq [simp]: "fail e s \<noteq> (Inr b, s')"
  by (simp add: fail_def)

lemma bind_act_Inr:
  "bind_act m f s = (Inr b, s'') \<longleftrightarrow> (\<exists>a s'. m s = (Inr a, s') \<and> f a s' = (Inr b, s''))"
  by (auto simp: bind_act_def split: prod.splits sum.splits)

lemma lift_sum_Inr [simp]: "lift_sum r s = (Inr b, s') \<longleftrightarrow> r = Inr b \<and> s' = s"
  by (auto simp: lift_sum_def)

lemma try_chain_Inr [simp]: "try_chain m s = (Inr b, s') \<longleftrightarrow> m s = (Inr b, s')"
  by (cases "m s"; cases "fst (m s)") (auto simp: try_chain_def)

lemma try_fc_Inr [simp]: "try_fc m s = (Inr b, s') \<longleftrightarrow> m s = (Inr b, s')"
  by (cases "m s"; cases "fst (m s)") (auto simp: try_fc_def)

lemmas act_Inr = bind_act_Inr

section \<open>The interface\<close>

text \<open>\<open>sec_api\<close> is one family of secondary indexes (idx64, idx128, idx256).  Tables and
  indexes are named by code, scope and table; storing goes to the account that runs, so it
  takes no code.  An out-parameter that may be left unwritten is an option.\<close>

record ('k, 's) sec_api =
  sec_store :: "64 word \<Rightarrow> 64 word \<Rightarrow> 64 word \<Rightarrow> 64 word \<Rightarrow> 'k \<Rightarrow> ('s, int) act"
  sec_update :: "int \<Rightarrow> 64 word \<Rightarrow> 'k \<Rightarrow> ('s, unit) act"
  sec_remove :: "int \<Rightarrow> ('s, unit) act"
  sec_find_primary :: "64 word \<Rightarrow> 64 word \<Rightarrow> 64 word \<Rightarrow> 64 word \<Rightarrow> ('s, int \<times> 'k option) act"
  sec_find_secondary :: "64 word \<Rightarrow> 64 word \<Rightarrow> 64 word \<Rightarrow> 'k \<Rightarrow> ('s, int \<times> 64 word option) act"
  sec_lowerbound :: "64 word \<Rightarrow> 64 word \<Rightarrow> 64 word \<Rightarrow> 'k \<Rightarrow> ('s, int \<times> 64 word option) act"
  sec_upperbound :: "64 word \<Rightarrow> 64 word \<Rightarrow> 64 word \<Rightarrow> 'k \<Rightarrow> ('s, int \<times> 64 word option) act"
  sec_next :: "int \<Rightarrow> ('s, int \<times> 64 word option) act"
  sec_previous :: "int \<Rightarrow> ('s, int \<times> 64 word option) act"

record 's chain_api =
  db_store :: "64 word \<Rightarrow> 64 word \<Rightarrow> 64 word \<Rightarrow> 64 word \<Rightarrow> 8 word list \<Rightarrow> ('s, int) act"
  db_update :: "int \<Rightarrow> 64 word \<Rightarrow> 8 word list \<Rightarrow> ('s, unit) act"
  db_remove :: "int \<Rightarrow> ('s, unit) act"
  db_get :: "int \<Rightarrow> nat \<Rightarrow> ('s, nat \<times> 8 word list) act"
  db_find :: "64 word \<Rightarrow> 64 word \<Rightarrow> 64 word \<Rightarrow> 64 word \<Rightarrow> ('s, int) act"
  db_lowerbound :: "64 word \<Rightarrow> 64 word \<Rightarrow> 64 word \<Rightarrow> 64 word \<Rightarrow> ('s, int) act"
  db_upperbound :: "64 word \<Rightarrow> 64 word \<Rightarrow> 64 word \<Rightarrow> 64 word \<Rightarrow> ('s, int) act"
  db_end :: "64 word \<Rightarrow> 64 word \<Rightarrow> 64 word \<Rightarrow> ('s, int) act"
  db_next :: "int \<Rightarrow> ('s, int \<times> 64 word option) act"
  db_previous :: "int \<Rightarrow> ('s, int \<times> 64 word option) act"
  keyval_primary :: "int \<Rightarrow> ('s, 64 word) act"
  idx64 :: "(64 word, 's) sec_api"
  idx128 :: "(128 word, 's) sec_api"
  idx256 :: "(128 word \<times> 128 word, 's) sec_api"

section \<open>What the code relies on\<close>

type_synonym tkey = "64 word \<times> 64 word \<times> 64 word"

datatype skind = S64 | S128 | S256

record 's view =
  receiver :: "64 word"
  rows :: "'s \<Rightarrow> tkey \<Rightarrow> 64 word \<rightharpoonup> 8 word list"
  refs :: "'s \<Rightarrow> int \<rightharpoonup> tkey \<times> 64 word"
  ends :: "'s \<Rightarrow> int \<rightharpoonup> tkey"
  secs :: "'s \<Rightarrow> skind \<Rightarrow> tkey \<Rightarrow> 64 word \<rightharpoonup> 64 word list"
  srefs :: "'s \<Rightarrow> skind \<Rightarrow> int \<rightharpoonup> tkey \<times> 64 word"

definition least_key :: "('a::linorder \<rightharpoonup> 'b) \<Rightarrow> ('a \<Rightarrow> bool) \<Rightarrow> 'a option" where
  "least_key m P = (if {j \<in> dom m. P j} = {} then None else Some (Min {j \<in> dom m. P j}))"

definition greatest_key :: "('a::linorder \<rightharpoonup> 'b) \<Rightarrow> ('a \<Rightarrow> bool) \<Rightarrow> 'a option" where
  "greatest_key m P = (if {j \<in> dom m. P j} = {} then None else Some (Max {j \<in> dom m. P j}))"

definition grows :: "'s view \<Rightarrow> 's \<Rightarrow> 's \<Rightarrow> bool" where
  "grows V s s' \<longleftrightarrow> refs V s \<subseteq>\<^sub>m refs V s' \<and> ends V s \<subseteq>\<^sub>m ends V s' \<and> (\<forall>k. srefs V s k \<subseteq>\<^sub>m srefs V s' k)"

definition quiet :: "'s view \<Rightarrow> 's \<Rightarrow> 's \<Rightarrow> bool" where
  "quiet V s s' \<longleftrightarrow> rows V s' = rows V s \<and> secs V s' = secs V s \<and> grows V s s'"

text \<open>The row \<open>pk\<close> of table \<open>tk\<close> becomes \<open>r\<close>, nothing else changes; the same for an index.\<close>

definition set_row :: "'s view \<Rightarrow> 's \<Rightarrow> tkey \<Rightarrow> 64 word \<Rightarrow> 8 word list option \<Rightarrow> 's \<Rightarrow> bool" where
  "set_row V s tk pk r s' \<longleftrightarrow>
     rows V s' = (rows V s)(tk := (rows V s tk)(pk := r)) \<and> secs V s' = secs V s \<and> grows V s s'"

definition set_sec :: "'s view \<Rightarrow> 's \<Rightarrow> skind \<Rightarrow> tkey \<Rightarrow> 64 word \<Rightarrow> 64 word list option \<Rightarrow> 's \<Rightarrow> bool" where
  "set_sec V s k tk pk r s' \<longleftrightarrow>
     secs V s' = (secs V s)(k := (secs V s k)(tk := (secs V s k tk)(pk := r))) \<and> rows V s' = rows V s \<and> grows V s s'"

text \<open>An iterator that was given for \<open>(tk, pk)\<close>, or none for a negative one.\<close>

definition found :: "'s view \<Rightarrow> tkey \<Rightarrow> 64 word option \<Rightarrow> int \<Rightarrow> 's \<Rightarrow> bool" where
  "found V tk r i s = (case r of None \<Rightarrow> i < 0 | Some pk \<Rightarrow> 0 \<le> i \<and> refs V s i = Some (tk, pk))"

definition writes_ok :: "'s view \<Rightarrow> 's chain_api \<Rightarrow> bool" where
  "writes_ok V api \<longleftrightarrow>
     (\<forall>scope tab pyr pk data s i s'. db_store api scope tab pyr pk data s = (Inr i, s') \<longrightarrow>
        rows V s (receiver V, scope, tab) pk = None \<and> set_row V s (receiver V, scope, tab) pk (Some data) s' \<and>
        0 \<le> i \<and> refs V s' i = Some ((receiver V, scope, tab), pk)) \<and>
     (\<forall>i pyr data s s'. db_update api i pyr data s = (Inr (), s') \<longrightarrow>
        (\<exists>tk pk. 0 \<le> i \<and> refs V s i = Some (tk, pk) \<and> fst tk = receiver V \<and> rows V s tk pk \<noteq> None \<and>
           set_row V s tk pk (Some data) s')) \<and>
     (\<forall>i s s'. db_remove api i s = (Inr (), s') \<longrightarrow>
        (\<exists>tk pk. 0 \<le> i \<and> refs V s i = Some (tk, pk) \<and> fst tk = receiver V \<and> rows V s tk pk \<noteq> None \<and>
           set_row V s tk pk None s'))"

text \<open>Reading does not throw on the iterator of a row that is there.  An end iterator is below
  -1 and belongs to one table; -1 is the answer for a table without rows.\<close>

definition reads_ok :: "'s view \<Rightarrow> 's chain_api \<Rightarrow> bool" where
  "reads_ok V api \<longleftrightarrow>
     (\<forall>c sc t pk s. \<exists>i s'. db_find api c sc t pk s = (Inr i, s') \<and> quiet V s s' \<and>
        found V (c, sc, t) (least_key (rows V s (c, sc, t)) (\<lambda>j. j = pk)) i s') \<and>
     (\<forall>c sc t pk s. \<exists>i s'. db_lowerbound api c sc t pk s = (Inr i, s') \<and> quiet V s s' \<and>
        found V (c, sc, t) (least_key (rows V s (c, sc, t)) (\<lambda>j. pk \<le> j)) i s') \<and>
     (\<forall>c sc t pk s. \<exists>i s'. db_upperbound api c sc t pk s = (Inr i, s') \<and> quiet V s s' \<and>
        found V (c, sc, t) (least_key (rows V s (c, sc, t)) (\<lambda>j. pk < j)) i s') \<and>
     (\<forall>c sc t s. \<exists>i s'. db_end api c sc t s = (Inr i, s') \<and> quiet V s s' \<and>
        (if rows V s (c, sc, t) = Map.empty then i = - 1 else i < -1 \<and> ends V s' i = Some (c, sc, t)))"

definition moves_ok :: "'s view \<Rightarrow> 's chain_api \<Rightarrow> bool" where
  "moves_ok V api \<longleftrightarrow>
     (\<forall>i tk pk s. refs V s i = Some (tk, pk) \<longrightarrow> 0 \<le> i \<longrightarrow> rows V s tk pk \<noteq> None \<longrightarrow>
        (\<exists>j s'. db_next api i s = (Inr (j, least_key (rows V s tk) (\<lambda>k. pk < k)), s') \<and> quiet V s s' \<and>
           found V tk (least_key (rows V s tk) (\<lambda>k. pk < k)) j s') \<and>
        (\<exists>j s'. db_previous api i s = (Inr (j, greatest_key (rows V s tk) (\<lambda>k. k < pk)), s') \<and> quiet V s s' \<and>
           found V tk (greatest_key (rows V s tk) (\<lambda>k. k < pk)) j s') \<and>
        (\<exists>s'. keyval_primary api i s = (Inr pk, s') \<and> quiet V s s') \<and>
        (\<forall>n. \<exists>s'. db_get api i n s =
             (Inr (length (the (rows V s tk pk)), take n (the (rows V s tk pk))), s') \<and> quiet V s s')) \<and>
     (\<forall>i tk s. ends V s i = Some tk \<longrightarrow> i < -1 \<longrightarrow>
        (\<exists>j s'. db_previous api i s = (Inr (j, greatest_key (rows V s tk) (\<lambda>k. True)), s') \<and> quiet V s s' \<and>
           found V tk (greatest_key (rows V s tk) (\<lambda>k. True)) j s'))"

text \<open>A move that succeeds started from a row that is there, or from an end, behind which there
  is nothing.\<close>

definition moves_from :: "'s view \<Rightarrow> 's chain_api \<Rightarrow> bool" where
  "moves_from V api \<longleftrightarrow>
     (\<forall>i j r s s'. db_next api i s = (Inr (j, r), s') \<longrightarrow>
        (if 0 \<le> i then (\<exists>tk pk. refs V s i = Some (tk, pk) \<and> rows V s tk pk \<noteq> None) else j < 0 \<and> quiet V s s')) \<and>
     (\<forall>i j r s s'. db_previous api i s = (Inr (j, r), s') \<longrightarrow> 0 \<le> i \<longrightarrow>
        (\<exists>tk pk. refs V s i = Some (tk, pk) \<and> rows V s tk pk \<noteq> None))"

text \<open>\<open>ws\<close> reads a key of the family as the 64-bit words it is made of, the lowest first.\<close>

definition sec_ok :: "'s view \<Rightarrow> skind \<Rightarrow> ('k \<Rightarrow> 64 word list) \<Rightarrow> ('k, 's) sec_api \<Rightarrow> bool" where
  "sec_ok V k ws sapi \<longleftrightarrow>
     (\<forall>scope tab pyr pk key s i s'. sec_store sapi scope tab pyr pk key s = (Inr i, s') \<longrightarrow>
        secs V s k (receiver V, scope, tab) pk = None \<and> set_sec V s k (receiver V, scope, tab) pk (Some (ws key)) s') \<and>
     (\<forall>i pyr key s s'. sec_update sapi i pyr key s = (Inr (), s') \<longrightarrow>
        (\<exists>tk pk. srefs V s k i = Some (tk, pk) \<and> fst tk = receiver V \<and> secs V s k tk pk \<noteq> None \<and>
           set_sec V s k tk pk (Some (ws key)) s')) \<and>
     (\<forall>i s s'. sec_remove sapi i s = (Inr (), s') \<longrightarrow>
        (\<exists>tk pk. srefs V s k i = Some (tk, pk) \<and> fst tk = receiver V \<and> secs V s k tk pk \<noteq> None \<and>
           set_sec V s k tk pk None s')) \<and>
     (\<forall>c sc t pk s. \<exists>i r s'. sec_find_primary sapi c sc t pk s = (Inr (i, r), s') \<and> quiet V s s' \<and>
        map_option ws r = secs V s k (c, sc, t) pk \<and>
        (if r = None then srefs V s' k i = None else srefs V s' k i = Some ((c, sc, t), pk))) \<and>
     (\<forall>c sc t key s. \<exists>i s'. sec_find_secondary sapi c sc t key s =
           (Inr (i, least_key (secs V s k (c, sc, t)) (\<lambda>j. secs V s k (c, sc, t) j = Some (ws key))), s') \<and> quiet V s s' \<and>
        (least_key (secs V s k (c, sc, t)) (\<lambda>j. secs V s k (c, sc, t) j = Some (ws key)) = None \<longleftrightarrow> i < 0)) \<and>
     (\<forall>c sc t key s x s'. (sec_lowerbound sapi c sc t key s = (Inr x, s') \<longrightarrow> quiet V s s') \<and>
        (sec_upperbound sapi c sc t key s = (Inr x, s') \<longrightarrow> quiet V s s')) \<and>
     (\<forall>i s x s'. (sec_next sapi i s = (Inr x, s') \<longrightarrow> quiet V s s') \<and>
        (sec_previous sapi i s = (Inr x, s') \<longrightarrow> quiet V s s'))"

text \<open>Two words of a key in memory read as one 128-bit integer.\<close>

definition u128 :: "64 word \<Rightarrow> 64 word \<Rightarrow> 128 word" where
  "u128 lo hi = word_cat hi lo"

lemma u128_halves [simp]: "ucast (u128 lo hi) = lo" "ucast (drop_bit 64 (u128 lo hi)) = hi"
  by (rule bit_word_eqI, simp add: u128_def bit_ucast_iff bit_drop_bit_eq bit_word_cat_iff)+

lemma u128_inject [simp]: "u128 a b = u128 c d \<longleftrightarrow> a = c \<and> b = d"
  by (metis u128_halves)

definition words128 :: "128 word \<Rightarrow> 64 word list" where
  "words128 x = [ucast x, ucast (drop_bit 64 x)]"

definition words256 :: "128 word \<times> 128 word \<Rightarrow> 64 word list" where
  "words256 x = words128 (fst x) @ words128 (snd x)"

lemma words_u128 [simp]: "words128 (u128 a b) = [a, b]" "words256 (x, y) = words128 x @ words128 y"
  by (simp_all add: words128_def words256_def)

lemma words128_inject: "words128 x = words128 y \<longleftrightarrow> x = y"
proof
  assume eq: "words128 x = words128 y"
  have "x = u128 (ucast x) (ucast (drop_bit 64 x))" for x
    by (rule bit_word_eqI) (auto simp: u128_def bit_word_cat_iff bit_ucast_iff bit_drop_bit_eq)
  then show "x = y" using eq by (metis words128_def list.inject)
qed simp

definition chain_ok :: "'s view \<Rightarrow> 's chain_api \<Rightarrow> bool" where
  "chain_ok V api \<longleftrightarrow> writes_ok V api \<and> reads_ok V api \<and> moves_ok V api \<and> moves_from V api \<and>
     sec_ok V S64 (\<lambda>k. [k]) (idx64 api) \<and> sec_ok V S128 words128 (idx128 api) \<and> sec_ok V S256 words256 (idx256 api)"

section \<open>Composing effects\<close>

lemma grows_refl [simp]: "grows V s s"
  by (simp add: grows_def)

lemma grows_trans: "grows V s s' \<Longrightarrow> grows V s' s'' \<Longrightarrow> grows V s s''"
  unfolding grows_def by (meson map_le_trans)

lemma quiet_refl [simp]: "quiet V s s"
  by (simp add: quiet_def)

lemma quiet_trans: "quiet V s s' \<Longrightarrow> quiet V s' s'' \<Longrightarrow> quiet V s s''"
  by (auto simp: quiet_def intro: grows_trans)

lemma quiet_set_row: "quiet V s s' \<Longrightarrow> set_row V s' tk pk r s'' \<Longrightarrow> set_row V s tk pk r s''"
  by (auto simp: quiet_def set_row_def intro: grows_trans)

lemma quiet_set_sec: "quiet V s s' \<Longrightarrow> set_sec V s' k tk pk r s'' \<Longrightarrow> set_sec V s k tk pk r s''"
  by (auto simp: quiet_def set_sec_def intro: grows_trans)

lemma set_sec_same: "quiet V s s' \<Longrightarrow> secs V s k tk pk = r \<Longrightarrow> set_sec V s k tk pk r s'"
  by (auto simp: quiet_def set_sec_def)

end
