(* ===== verification/Js_Index.thy ===== *)
theory Js_Index
  imports Chain_Db
begin

text \<open>
  The secondary indexes of a contract's tables: \<^verbatim>\<open>src/js_contract/src/Index.cpp\<close>,
  \<^verbatim>\<open>src/js_contract/include/Index.h\<close> and \<open>Table::get_index\<close> of \<^verbatim>\<open>Table.cpp\<close>.

  A key is four words; a class of indexes reads the first one, two or four of them (\<open>key_t\<close>).
  The virtual methods of the three classes are definitions \<open>Index64_store\<close> and so on,
  \<open>index_store\<close> and so on dispatch on the class.  The locale \<open>index_family\<close> is the contract of
  the methods over a chain that keeps its own; the three classes interpret it.

  What a JavaScript function gives for a value is \<open>call_function\<close>; it is taken to depend on
  nothing else and to change nothing.
\<close>

unbundle bit_operations_syntax

section \<open>Keys\<close>

record host = js_env +
  call_function :: "nat \<Rightarrow> jsv \<Rightarrow> string + jsv"
  err_message :: "js_error \<Rightarrow> string"

fun trunc_dbl :: "dbl \<Rightarrow> int option" where
  "trunc_dbl (DFin m e) = Some (if 0 \<le> e then m * 2 ^ nat e else m sdiv 2 ^ nat (- e))"
| "trunc_dbl _ = None"

definition double_to_u64 :: "'e js_env_scheme \<Rightarrow> dbl \<Rightarrow> 64 word" where
  "double_to_u64 env d = (case trunc_dbl d of
      Some i \<Rightarrow> if 0 \<le> i \<and> i < 2 ^ 64 then word_of_int i else conv_out_of_range env d
    | None \<Rightarrow> conv_out_of_range env d)"

fun get_index :: "'e js_env_scheme \<Rightarrow> jsv \<Rightarrow> js_error + 64 word" where
  "get_index env JUndefined = Inl (Set_error ''missing primary key.'')"
| "get_index env (JNumber d) = Inr (double_to_u64 env d)"
| "get_index env (JNumberObj d) = Inr (double_to_u64 env d)"
| "get_index env (JBigInt i) = Inr (word_of_int i)"
| "get_index env (JBigIntObj i) = Inr (word_of_int i)"
| "get_index env v = value_to_name env v"

datatype index_class = Class64 | Class128 | Class192 | Class256

record index =
  i_code :: "64 word"
  i_scope :: "64 word"
  i_def_name :: "64 word"
  i_idx :: int
  i_sz :: nat
  i_class :: index_class
  i_func :: nat

definition index_name :: "index \<Rightarrow> 64 word" where
  "index_name ix = i_def_name ix OR word_of_int (i_idx ix)"

text \<open>The last argument of the loop is the key filled so far.\<close>

fun build_key_loop :: "'e host_scheme \<Rightarrow> jsv list \<Rightarrow> nat \<Rightarrow> 64 word list \<Rightarrow> js_error + 64 word list" where
  "build_key_loop h [] i ks = Inr ks"
| "build_key_loop h (v # vs) i ks =
     (case get_index h v of
        Inl hr \<Rightarrow> Inl (Thrown (Chain_exception (err_message h hr) []))
      | Inr w \<Rightarrow> build_key_loop h vs (Suc i) (ks[i := w]))"

definition build_key :: "'e host_scheme \<Rightarrow> index \<Rightarrow> jsv \<Rightarrow> js_error + 64 word list" where
  "build_key h ix val =
     (case call_function h (i_func ix) val of
        Inl msg \<Rightarrow> Inl (Thrown (Chain_exception msg []))
      | Inr v \<Rightarrow>
          (case v of
             JArray k \<Rightarrow>
               if length k \<noteq> i_sz ix
               then Inl (Thrown (Chain_exception ''the index key size must be ${sz}.'' [(''sz'', 54 * int (i_sz ix))]))
               else build_key_loop h k 0 (replicate 4 0)
           | _ \<Rightarrow> Inl (Thrown (Chain_exception ''the index key must be an array.'' []))))"

section \<open>The classes\<close>

text \<open>An index asks for a row's entry before it changes it; \<open>k1\<close> stays zero when there is none.\<close>

definition Index64_store :: "'s chain_api \<Rightarrow> index \<Rightarrow> 64 word \<Rightarrow> 64 word \<Rightarrow> 64 word list \<Rightarrow> ('s, unit) act" where
  "Index64_store api ix pyr pk k =
     bind_act (sec_store (idx64 api) (i_scope ix) (index_name ix) pyr pk (k ! 0)) (\<lambda>_. ret ())"

definition Index64_update :: "'s chain_api \<Rightarrow> index \<Rightarrow> 64 word \<Rightarrow> 64 word \<Rightarrow> 64 word list \<Rightarrow> ('s, unit) act" where
  "Index64_update api ix pyr pk k =
     bind_act (sec_find_primary (idx64 api) (i_code ix) (i_scope ix) (index_name ix) pk) (\<lambda>(itr, r).
       let k1 = (case r of None \<Rightarrow> 0 | Some x \<Rightarrow> x)
       in if k ! 0 \<noteq> k1 then sec_update (idx64 api) itr pyr (k ! 0) else ret ())"

definition Index64_find :: "'s chain_api \<Rightarrow> index \<Rightarrow> 64 word list \<Rightarrow> ('s, int \<times> 64 word option) act" where
  "Index64_find api ix k = sec_find_secondary (idx64 api) (i_code ix) (i_scope ix) (index_name ix) (k ! 0)"

definition Index64_remove :: "'s chain_api \<Rightarrow> index \<Rightarrow> 64 word \<Rightarrow> ('s, unit) act" where
  "Index64_remove api ix pk =
     bind_act (sec_find_primary (idx64 api) (i_code ix) (i_scope ix) (index_name ix) pk) (\<lambda>(itr, r).
       sec_remove (idx64 api) itr)"

definition Index64_previous :: "'s chain_api \<Rightarrow> int \<Rightarrow> ('s, int \<times> 64 word option) act" where
  "Index64_previous api itr = sec_previous (idx64 api) itr"

definition Index64_next :: "'s chain_api \<Rightarrow> int \<Rightarrow> ('s, int \<times> 64 word option) act" where
  "Index64_next api itr = sec_next (idx64 api) itr"

definition Index64_lowerbound :: "'s chain_api \<Rightarrow> index \<Rightarrow> 64 word list \<Rightarrow> ('s, int \<times> 64 word option) act" where
  "Index64_lowerbound api ix k = sec_lowerbound (idx64 api) (i_code ix) (i_scope ix) (index_name ix) (k ! 0)"

definition Index64_upperbound :: "'s chain_api \<Rightarrow> index \<Rightarrow> 64 word list \<Rightarrow> ('s, int \<times> 64 word option) act" where
  "Index64_upperbound api ix k = sec_upperbound (idx64 api) (i_code ix) (i_scope ix) (index_name ix) (k ! 0)"

definition Index128_store :: "'s chain_api \<Rightarrow> index \<Rightarrow> 64 word \<Rightarrow> 64 word \<Rightarrow> 64 word list \<Rightarrow> ('s, unit) act" where
  "Index128_store api ix pyr pk k =
     bind_act (sec_store (idx128 api) (i_scope ix) (index_name ix) pyr pk (u128 (k ! 0) (k ! 1))) (\<lambda>_. ret ())"

definition Index128_update :: "'s chain_api \<Rightarrow> index \<Rightarrow> 64 word \<Rightarrow> 64 word \<Rightarrow> 64 word list \<Rightarrow> ('s, unit) act" where
  "Index128_update api ix pyr pk k =
     bind_act (sec_find_primary (idx128 api) (i_code ix) (i_scope ix) (index_name ix) pk) (\<lambda>(itr, r).
       let k1 = (case r of None \<Rightarrow> 0 | Some x \<Rightarrow> x)
       in if u128 (k ! 0) (k ! 1) \<noteq> k1 then sec_update (idx128 api) itr pyr (u128 (k ! 0) (k ! 1)) else ret ())"

definition Index128_find :: "'s chain_api \<Rightarrow> index \<Rightarrow> 64 word list \<Rightarrow> ('s, int \<times> 64 word option) act" where
  "Index128_find api ix k = sec_find_secondary (idx128 api) (i_code ix) (i_scope ix) (index_name ix) (u128 (k ! 0) (k ! 1))"

definition Index128_remove :: "'s chain_api \<Rightarrow> index \<Rightarrow> 64 word \<Rightarrow> ('s, unit) act" where
  "Index128_remove api ix pk =
     bind_act (sec_find_primary (idx128 api) (i_code ix) (i_scope ix) (index_name ix) pk) (\<lambda>(itr, r).
       sec_remove (idx128 api) itr)"

definition Index128_previous :: "'s chain_api \<Rightarrow> int \<Rightarrow> ('s, int \<times> 64 word option) act" where
  "Index128_previous api itr = sec_previous (idx128 api) itr"

definition Index128_next :: "'s chain_api \<Rightarrow> int \<Rightarrow> ('s, int \<times> 64 word option) act" where
  "Index128_next api itr = sec_next (idx128 api) itr"

definition Index128_lowerbound :: "'s chain_api \<Rightarrow> index \<Rightarrow> 64 word list \<Rightarrow> ('s, int \<times> 64 word option) act" where
  "Index128_lowerbound api ix k = sec_lowerbound (idx128 api) (i_code ix) (i_scope ix) (index_name ix) (u128 (k ! 0) (k ! 1))"

definition Index128_upperbound :: "'s chain_api \<Rightarrow> index \<Rightarrow> 64 word list \<Rightarrow> ('s, int \<times> 64 word option) act" where
  "Index128_upperbound api ix k = sec_upperbound (idx128 api) (i_code ix) (i_scope ix) (index_name ix) (u128 (k ! 0) (k ! 1))"

definition Index256_store :: "'s chain_api \<Rightarrow> index \<Rightarrow> 64 word \<Rightarrow> 64 word \<Rightarrow> 64 word list \<Rightarrow> ('s, unit) act" where
  "Index256_store api ix pyr pk k =
     bind_act (sec_store (idx256 api) (i_scope ix) (index_name ix) pyr pk (u128 (k ! 0) (k ! 1), u128 (k ! 2) (k ! 3))) (\<lambda>_. ret ())"

definition Index256_update :: "'s chain_api \<Rightarrow> index \<Rightarrow> 64 word \<Rightarrow> 64 word \<Rightarrow> 64 word list \<Rightarrow> ('s, unit) act" where
  "Index256_update api ix pyr pk k =
     bind_act (sec_find_primary (idx256 api) (i_code ix) (i_scope ix) (index_name ix) pk) (\<lambda>(itr, r).
       let k1 = (case r of None \<Rightarrow> (0, 0) | Some x \<Rightarrow> x)
       in if (u128 (k ! 0) (k ! 1), u128 (k ! 2) (k ! 3)) \<noteq> k1 then sec_update (idx256 api) itr pyr (u128 (k ! 0) (k ! 1), u128 (k ! 2) (k ! 3)) else ret ())"

definition Index256_find :: "'s chain_api \<Rightarrow> index \<Rightarrow> 64 word list \<Rightarrow> ('s, int \<times> 64 word option) act" where
  "Index256_find api ix k = sec_find_secondary (idx256 api) (i_code ix) (i_scope ix) (index_name ix) (u128 (k ! 0) (k ! 1), u128 (k ! 2) (k ! 3))"

definition Index256_remove :: "'s chain_api \<Rightarrow> index \<Rightarrow> 64 word \<Rightarrow> ('s, unit) act" where
  "Index256_remove api ix pk =
     bind_act (sec_find_primary (idx256 api) (i_code ix) (i_scope ix) (index_name ix) pk) (\<lambda>(itr, r).
       sec_remove (idx256 api) itr)"

definition Index256_previous :: "'s chain_api \<Rightarrow> int \<Rightarrow> ('s, int \<times> 64 word option) act" where
  "Index256_previous api itr = sec_previous (idx256 api) itr"

definition Index256_next :: "'s chain_api \<Rightarrow> int \<Rightarrow> ('s, int \<times> 64 word option) act" where
  "Index256_next api itr = sec_next (idx256 api) itr"

definition Index256_lowerbound :: "'s chain_api \<Rightarrow> index \<Rightarrow> 64 word list \<Rightarrow> ('s, int \<times> 64 word option) act" where
  "Index256_lowerbound api ix k = sec_lowerbound (idx256 api) (i_code ix) (i_scope ix) (index_name ix) (u128 (k ! 0) (k ! 1), u128 (k ! 2) (k ! 3))"

definition Index256_upperbound :: "'s chain_api \<Rightarrow> index \<Rightarrow> 64 word list \<Rightarrow> ('s, int \<times> 64 word option) act" where
  "Index256_upperbound api ix k = sec_upperbound (idx256 api) (i_code ix) (i_scope ix) (index_name ix) (u128 (k ! 0) (k ! 1), u128 (k ! 2) (k ! 3))"

section \<open>Dispatch\<close>

definition index_store :: "'s chain_api \<Rightarrow> index \<Rightarrow> 64 word \<Rightarrow> 64 word \<Rightarrow> 64 word list \<Rightarrow> ('s, unit) act" where
  "index_store api ix = (case i_class ix of Class64 \<Rightarrow> Index64_store api ix | Class128 \<Rightarrow> Index128_store api ix
     | Class192 \<Rightarrow> Index256_store api ix | Class256 \<Rightarrow> Index256_store api ix)"

definition index_update :: "'s chain_api \<Rightarrow> index \<Rightarrow> 64 word \<Rightarrow> 64 word \<Rightarrow> 64 word list \<Rightarrow> ('s, unit) act" where
  "index_update api ix = (case i_class ix of Class64 \<Rightarrow> Index64_update api ix | Class128 \<Rightarrow> Index128_update api ix
     | Class192 \<Rightarrow> Index256_update api ix | Class256 \<Rightarrow> Index256_update api ix)"

definition index_find :: "'s chain_api \<Rightarrow> index \<Rightarrow> 64 word list \<Rightarrow> ('s, int \<times> 64 word option) act" where
  "index_find api ix = (case i_class ix of Class64 \<Rightarrow> Index64_find api ix | Class128 \<Rightarrow> Index128_find api ix
     | Class192 \<Rightarrow> Index256_find api ix | Class256 \<Rightarrow> Index256_find api ix)"

definition index_remove :: "'s chain_api \<Rightarrow> index \<Rightarrow> 64 word \<Rightarrow> ('s, unit) act" where
  "index_remove api ix = (case i_class ix of Class64 \<Rightarrow> Index64_remove api ix | Class128 \<Rightarrow> Index128_remove api ix
     | Class192 \<Rightarrow> Index256_remove api ix | Class256 \<Rightarrow> Index256_remove api ix)"

definition index_previous :: "'s chain_api \<Rightarrow> index \<Rightarrow> int \<Rightarrow> ('s, int \<times> 64 word option) act" where
  "index_previous api ix = (case i_class ix of Class64 \<Rightarrow> Index64_previous api | Class128 \<Rightarrow> Index128_previous api
     | Class192 \<Rightarrow> Index256_previous api | Class256 \<Rightarrow> Index256_previous api)"

definition index_next :: "'s chain_api \<Rightarrow> index \<Rightarrow> int \<Rightarrow> ('s, int \<times> 64 word option) act" where
  "index_next api ix = (case i_class ix of Class64 \<Rightarrow> Index64_next api | Class128 \<Rightarrow> Index128_next api
     | Class192 \<Rightarrow> Index256_next api | Class256 \<Rightarrow> Index256_next api)"

definition index_lowerbound :: "'s chain_api \<Rightarrow> index \<Rightarrow> 64 word list \<Rightarrow> ('s, int \<times> 64 word option) act" where
  "index_lowerbound api ix = (case i_class ix of Class64 \<Rightarrow> Index64_lowerbound api ix | Class128 \<Rightarrow> Index128_lowerbound api ix
     | Class192 \<Rightarrow> Index256_lowerbound api ix | Class256 \<Rightarrow> Index256_lowerbound api ix)"

definition index_upperbound :: "'s chain_api \<Rightarrow> index \<Rightarrow> 64 word list \<Rightarrow> ('s, int \<times> 64 word option) act" where
  "index_upperbound api ix = (case i_class ix of Class64 \<Rightarrow> Index64_upperbound api ix | Class128 \<Rightarrow> Index128_upperbound api ix
     | Class192 \<Rightarrow> Index256_upperbound api ix | Class256 \<Rightarrow> Index256_upperbound api ix)"

text \<open>\<open>Index::store\<close> and \<open>Index::update\<close> of a value.\<close>

definition store_value :: "'e host_scheme \<Rightarrow> 's chain_api \<Rightarrow> index \<Rightarrow> 64 word \<Rightarrow> 64 word \<Rightarrow> jsv \<Rightarrow> ('s, unit) act" where
  "store_value h api ix pyr pk val = bind_act (lift_sum (build_key h ix val)) (\<lambda>ks. index_store api ix pyr pk ks)"

definition update_value :: "'e host_scheme \<Rightarrow> 's chain_api \<Rightarrow> index \<Rightarrow> 64 word \<Rightarrow> 64 word \<Rightarrow> jsv \<Rightarrow> ('s, unit) act" where
  "update_value h api ix pyr pk val = bind_act (lift_sum (build_key h ix val)) (\<lambda>ks. index_update api ix pyr pk ks)"

section \<open>Keys of a value\<close>

lemma build_key_loop_Inr:
  "build_key_loop h vs i ks = Inr ks' \<Longrightarrow> i + length vs \<le> length ks \<Longrightarrow>
     length ks' = length ks \<and> (\<forall>j < length vs. get_index h (vs ! j) = Inr (ks' ! (i + j))) \<and>
     (\<forall>j < length ks. j < i \<or> i + length vs \<le> j \<longrightarrow> ks' ! j = ks ! j)"
proof (induction vs arbitrary: i ks)
  case (Cons v vs)
  then obtain w where w: "get_index h v = Inr w" "build_key_loop h vs (Suc i) (ks[i := w]) = Inr ks'"
    by (auto split: sum.splits)
  note IH = Cons.IH [OF w(2)]
  have len: "length ks' = length ks" using IH Cons.prems by simp
  have at: "ks' ! i = w" using IH Cons.prems by simp
  have "get_index h ((v # vs) ! j) = Inr (ks' ! (i + j))" if "j < length (v # vs)" for j
    using that w(1) at IH Cons.prems by (cases j) auto
  moreover have "ks' ! j = ks ! j" if "j < length ks" "j < i \<or> i + length (v # vs) \<le> j" for j
    using that IH Cons.prems by auto
  ultimately show ?case using len by simp
qed simp

lemma build_key_loop_Inl:
  "build_key_loop h vs i ks = Inl e \<Longrightarrow>
     \<exists>j hr. j < length vs \<and> get_index h (vs ! j) = Inl hr \<and> e = Thrown (Chain_exception (err_message h hr) [])"
proof (induction vs arbitrary: i ks)
  case (Cons v vs)
  show ?case
  proof (cases "get_index h v")
    case (Inl hr)
    then show ?thesis using Cons.prems by (intro exI [of _ 0] exI [of _ hr]) simp
  next
    case (Inr w)
    then show ?thesis using Cons.IH Cons.prems by (metis Suc_less_eq build_key_loop.simps(2) length_Cons nth_Cons_Suc sum.case(2))
  qed
qed simp

lemma build_key_Inr:
  assumes "build_key h ix val = Inr ks" "i_sz ix \<le> 4"
  obtains k where "call_function h (i_func ix) val = Inr (JArray k)" "length k = i_sz ix" "length ks = 4"
    "\<forall>j < i_sz ix. get_index h (k ! j) = Inr (ks ! j)" "\<forall>j < 4. i_sz ix \<le> j \<longrightarrow> ks ! j = 0"
proof -
  obtain k where k: "call_function h (i_func ix) val = Inr (JArray k)" "length k = i_sz ix"
      "build_key_loop h k 0 (replicate 4 0) = Inr ks"
    using assms(1) by (auto simp: build_key_def split: sum.splits jsv.splits if_splits)
  show ?thesis using that [OF k(1,2)] build_key_loop_Inr [OF k(3)] k(2) assms(2) by simp
qed

section \<open>The contract of a class\<close>

definition index_table :: "'s view \<Rightarrow> index \<Rightarrow> tkey" where
  "index_table V ix = (receiver V, i_scope ix, index_name ix)"

text \<open>\<open>words\<close> are the words of a key the class reads.  Updating a row without an entry succeeds
  only for the zero key, and then does nothing.\<close>

locale index_family =
  fixes kind :: skind
    and words :: "64 word list \<Rightarrow> 64 word list"
    and store :: "'s chain_api \<Rightarrow> index \<Rightarrow> 64 word \<Rightarrow> 64 word \<Rightarrow> 64 word list \<Rightarrow> ('s, unit) act"
    and update :: "'s chain_api \<Rightarrow> index \<Rightarrow> 64 word \<Rightarrow> 64 word \<Rightarrow> 64 word list \<Rightarrow> ('s, unit) act"
    and remove :: "'s chain_api \<Rightarrow> index \<Rightarrow> 64 word \<Rightarrow> ('s, unit) act"
    and find :: "'s chain_api \<Rightarrow> index \<Rightarrow> 64 word list \<Rightarrow> ('s, int \<times> 64 word option) act"
  assumes store_law: "chain_ok V api \<Longrightarrow> length k = 4 \<Longrightarrow> store api ix pyr pk k s = (Inr u, s') \<Longrightarrow>
      secs V s kind (index_table V ix) pk = None \<and> set_sec V s kind (index_table V ix) pk (Some (words k)) s'"
    and update_law: "chain_ok V api \<Longrightarrow> length k = 4 \<Longrightarrow> i_code ix = receiver V \<Longrightarrow>
      update api ix pyr pk k s = (Inr u, s') \<Longrightarrow>
      (if secs V s kind (index_table V ix) pk = None then set (words k) \<subseteq> {0} \<and> quiet V s s'
       else set_sec V s kind (index_table V ix) pk (Some (words k)) s')"
    and remove_law: "chain_ok V api \<Longrightarrow> i_code ix = receiver V \<Longrightarrow> remove api ix pk s = (Inr u, s') \<Longrightarrow>
      secs V s kind (index_table V ix) pk \<noteq> None \<and> set_sec V s kind (index_table V ix) pk None s'"
    and find_law: "chain_ok V api \<Longrightarrow> length k = 4 \<Longrightarrow>
      r = least_key (secs V s kind (i_code ix, i_scope ix, index_name ix))
            (\<lambda>j. secs V s kind (i_code ix, i_scope ix, index_name ix) j = Some (words k)) \<Longrightarrow>
      \<exists>i s'. find api ix k s = (Inr (i, r), s') \<and> quiet V s s' \<and> (r = None \<longleftrightarrow> i < 0)"
begin

text \<open>An entry that is there ends up with the new key, whether the class wrote it or not.\<close>

lemma update_entry:
  assumes "chain_ok V api" "length k = 4" "i_code ix = receiver V" "update api ix pyr pk k s = (Inr u, s')"
    "secs V s kind (index_table V ix) pk \<noteq> None"
  shows "secs V s' kind (index_table V ix) pk = Some (words k)"
  using update_law [OF assms(1-4)] assms(5) by (simp add: set_sec_def)

text \<open>What was removed is not found any more, and can be stored again.\<close>

lemma remove_then_find:
  assumes "chain_ok V api" "length k = 4" "i_code ix = receiver V" "remove api ix pk s = (Inr u, s')"
    "find api ix k s' = (Inr (i, Some pk'), s'')"
  shows "pk' \<noteq> pk"
proof
  assume "pk' = pk"
  let ?m = "secs V s' kind (index_table V ix)"
  have "least_key ?m (\<lambda>j. ?m j = Some (words k)) = Some pk"
    using find_law [OF assms(1,2) refl, of ix s'] assms(3,5) \<open>pk' = pk\<close> by (auto simp: index_table_def)
  then have "pk \<in> {j \<in> dom ?m. ?m j = Some (words k)}"
    using Min_in [of "{j \<in> dom ?m. ?m j = Some (words k)}"] by (auto simp: least_key_def split: if_splits)
  then show False using remove_law [OF assms(1,3,4)] by (simp add: set_sec_def)
qed

end

lemma key4_cases: "length (k :: 'a list) = 4 \<Longrightarrow> \<exists>a b c d. k = [a, b, c, d]"
  by (auto simp: length_Suc_conv numeral_eq_Suc)

text \<open>The laws of one family of the chain, in the form the classes use them.\<close>

lemma sec_laws:
  assumes "sec_ok V kd ws sapi"
  shows sec_store_law: "sec_store sapi scope tab pyr pk key s = (Inr i, s') \<Longrightarrow>
      secs V s kd (receiver V, scope, tab) pk = None \<and> set_sec V s kd (receiver V, scope, tab) pk (Some (ws key)) s'"
    and sec_remove_law: "bind_act (sec_find_primary sapi c sc t pk) (\<lambda>(itr, r). sec_remove sapi itr) s = (Inr (), s') \<Longrightarrow>
      secs V s kd (c, sc, t) pk \<noteq> None \<and> set_sec V s kd (c, sc, t) pk None s'"
    and sec_update_law: "bind_act (sec_find_primary sapi c sc t pk) (\<lambda>(itr, r).
        let k1 = (case r of None \<Rightarrow> z | Some x \<Rightarrow> x) in if key \<noteq> k1 then sec_update sapi itr pyr key else ret ()) s = (Inr (), s') \<Longrightarrow>
      (if secs V s kd (c, sc, t) pk = None then key = z \<and> quiet V s s' else set_sec V s kd (c, sc, t) pk (Some (ws key)) s')"
    and sec_find_law: "\<exists>i s'. sec_find_secondary sapi c sc t key s =
           (Inr (i, least_key (secs V s kd (c, sc, t)) (\<lambda>j. secs V s kd (c, sc, t) j = Some (ws key))), s') \<and> quiet V s s' \<and>
        (least_key (secs V s kd (c, sc, t)) (\<lambda>j. secs V s kd (c, sc, t) j = Some (ws key)) = None \<longleftrightarrow> i < 0)"
proof -
  note st = assms [unfolded sec_ok_def, THEN conjunct1, rule_format]
  note up = assms [unfolded sec_ok_def, THEN conjunct2, THEN conjunct1, rule_format]
  note re = assms [unfolded sec_ok_def, THEN conjunct2, THEN conjunct2, THEN conjunct1, rule_format]
  note pr = assms [unfolded sec_ok_def, THEN conjunct2, THEN conjunct2, THEN conjunct2, THEN conjunct1, rule_format]
  note fi = assms [unfolded sec_ok_def, THEN conjunct2, THEN conjunct2, THEN conjunct2, THEN conjunct2, THEN conjunct1, rule_format]
  obtain it r s1 where fp: "sec_find_primary sapi c sc t pk s = (Inr (it, r), s1)" "quiet V s s1"
      "map_option ws r = secs V s kd (c, sc, t) pk"
      "if r = None then srefs V s1 kd it = None else srefs V s1 kd it = Some ((c, sc, t), pk)"
    using pr [of c sc t pk s] by blast
  have same: "secs V s1 = secs V s" using fp(2) by (simp add: quiet_def)
  show "sec_store sapi scope tab pyr pk key s = (Inr i, s') \<Longrightarrow>
      secs V s kd (receiver V, scope, tab) pk = None \<and> set_sec V s kd (receiver V, scope, tab) pk (Some (ws key)) s'"
    by (rule st)
  show "secs V s kd (c, sc, t) pk \<noteq> None \<and> set_sec V s kd (c, sc, t) pk None s'"
    if a: "bind_act (sec_find_primary sapi c sc t pk) (\<lambda>(itr, r). sec_remove sapi itr) s = (Inr (), s')"
  proof -
    have rm: "sec_remove sapi it s1 = (Inr (), s')" using a fp(1) by (simp add: bind_act_def)
    have "\<exists>tk pk'. srefs V s1 kd it = Some (tk, pk') \<and> secs V s1 kd tk pk' \<noteq> None \<and> set_sec V s1 kd tk pk' None s'"
      using re [OF rm] by blast
    then have "srefs V s1 kd it = Some ((c, sc, t), pk)" "secs V s1 kd (c, sc, t) pk \<noteq> None" "set_sec V s1 kd (c, sc, t) pk None s'"
      using fp(4) by (auto split: if_splits)
    then show ?thesis using quiet_set_sec [OF fp(2)] same by simp
  qed
  show "if secs V s kd (c, sc, t) pk = None then key = z \<and> quiet V s s' else set_sec V s kd (c, sc, t) pk (Some (ws key)) s'"
    if a: "bind_act (sec_find_primary sapi c sc t pk) (\<lambda>(itr, r).
        let k1 = (case r of None \<Rightarrow> z | Some x \<Rightarrow> x) in if key \<noteq> k1 then sec_update sapi itr pyr key else ret ()) s = (Inr (), s')"
  proof (cases "key = (case r of None \<Rightarrow> z | Some x \<Rightarrow> x)")
    case True
    then have "s' = s1" using a fp(1) by (simp add: bind_act_def)
    then show ?thesis using True fp(2,3) by (auto split: option.splits intro: set_sec_same)
  next
    case False
    then have "sec_update sapi it pyr key s1 = (Inr (), s')" using a fp(1) by (simp add: bind_act_def Let_def)
    then have "\<exists>tk pk'. srefs V s1 kd it = Some (tk, pk') \<and> secs V s1 kd tk pk' \<noteq> None \<and> set_sec V s1 kd tk pk' (Some (ws key)) s'"
      using up by blast
    then have "srefs V s1 kd it = Some ((c, sc, t), pk)" "secs V s1 kd (c, sc, t) pk \<noteq> None"
        "set_sec V s1 kd (c, sc, t) pk (Some (ws key)) s'"
      using fp(4) by (auto split: if_splits)
    then show ?thesis using quiet_set_sec [OF fp(2)] same by auto
  qed
  show "\<exists>i s'. sec_find_secondary sapi c sc t key s =
           (Inr (i, least_key (secs V s kd (c, sc, t)) (\<lambda>j. secs V s kd (c, sc, t) j = Some (ws key))), s') \<and> quiet V s s' \<and>
        (least_key (secs V s kd (c, sc, t)) (\<lambda>j. secs V s kd (c, sc, t) j = Some (ws key)) = None \<longleftrightarrow> i < 0)"
    by (rule fi)
qed

lemma chain_sec_ok:
  assumes "chain_ok V api"
  shows "sec_ok V S64 (\<lambda>k. [k]) (idx64 api)" "sec_ok V S128 words128 (idx128 api)" "sec_ok V S256 words256 (idx256 api)"
  using assms by (auto simp: chain_ok_def)

lemma done_unit [simp]: "bind_act m (\<lambda>_. ret ()) s = (Inr u, s') \<longleftrightarrow> (\<exists>a. m s = (Inr a, s'))"
  by (auto simp: act_Inr)

interpretation i64: index_family S64 "take 1" Index64_store Index64_update Index64_remove Index64_find
proof unfold_locales
  fix V :: "'s view" and api ix k pyr pk s s' r and u :: unit
  assume ok: "chain_ok V api"
  note laws = sec_laws [OF chain_sec_ok(1) [OF ok]]
  show "Index64_remove api ix pk s = (Inr u, s') \<Longrightarrow> i_code ix = receiver V \<Longrightarrow>
      secs V s S64 (index_table V ix) pk \<noteq> None \<and> set_sec V s S64 (index_table V ix) pk None s'"
    using laws(2) [of "i_code ix" "i_scope ix" "index_name ix" pk s s'] by (simp add: Index64_remove_def index_table_def)
  assume len: "length (k :: 64 word list) = 4"
  then have k: "take (Suc 0) k = [k ! 0]" using key4_cases by fastforce
  show "Index64_store api ix pyr pk k s = (Inr u, s') \<Longrightarrow>
      secs V s S64 (index_table V ix) pk = None \<and> set_sec V s S64 (index_table V ix) pk (Some (take 1 k)) s'"
    by (auto simp: Index64_store_def index_table_def k dest!: laws(1))
  show "Index64_update api ix pyr pk k s = (Inr u, s') \<Longrightarrow> i_code ix = receiver V \<Longrightarrow>
      (if secs V s S64 (index_table V ix) pk = None then set (take 1 k) \<subseteq> {0} \<and> quiet V s s'
       else set_sec V s S64 (index_table V ix) pk (Some (take 1 k)) s')"
    using laws(3) [of "i_code ix" "i_scope ix" "index_name ix" pk 0 "k ! 0" pyr s s']
    by (auto simp: Index64_update_def index_table_def k split: if_splits)
  show "r = least_key (secs V s S64 (i_code ix, i_scope ix, index_name ix))
            (\<lambda>j. secs V s S64 (i_code ix, i_scope ix, index_name ix) j = Some (take 1 k)) \<Longrightarrow>
      \<exists>i s'. Index64_find api ix k s = (Inr (i, r), s') \<and> quiet V s s' \<and> (r = None \<longleftrightarrow> i < 0)"
    using laws(4) by (simp add: Index64_find_def k)
qed

interpretation i128: index_family S128 "take 2" Index128_store Index128_update Index128_remove Index128_find
proof unfold_locales
  fix V :: "'s view" and api ix k pyr pk s s' r and u :: unit
  assume ok: "chain_ok V api"
  note laws = sec_laws [OF chain_sec_ok(2) [OF ok]]
  show "Index128_remove api ix pk s = (Inr u, s') \<Longrightarrow> i_code ix = receiver V \<Longrightarrow>
      secs V s S128 (index_table V ix) pk \<noteq> None \<and> set_sec V s S128 (index_table V ix) pk None s'"
    using laws(2) [of "i_code ix" "i_scope ix" "index_name ix" pk s s'] by (simp add: Index128_remove_def index_table_def)
  assume len: "length (k :: 64 word list) = 4"
  then have k: "take 2 k = [k ! 0, k ! 1]" using key4_cases by fastforce
  have z: "u128 a b = 0 \<longleftrightarrow> a = 0 \<and> b = 0" for a b using u128_inject [of a b 0 0] by (simp add: u128_def word_cat_eq)
  show "Index128_store api ix pyr pk k s = (Inr u, s') \<Longrightarrow>
      secs V s S128 (index_table V ix) pk = None \<and> set_sec V s S128 (index_table V ix) pk (Some (take 2 k)) s'"
    by (auto simp: Index128_store_def index_table_def k dest!: laws(1))
  show "Index128_update api ix pyr pk k s = (Inr u, s') \<Longrightarrow> i_code ix = receiver V \<Longrightarrow>
      (if secs V s S128 (index_table V ix) pk = None then set (take 2 k) \<subseteq> {0} \<and> quiet V s s'
       else set_sec V s S128 (index_table V ix) pk (Some (take 2 k)) s')"
    using laws(3) [of "i_code ix" "i_scope ix" "index_name ix" pk 0 "u128 (k ! 0) (k ! 1)" pyr s s']
    by (auto simp: Index128_update_def index_table_def k z split: if_splits)
  show "r = least_key (secs V s S128 (i_code ix, i_scope ix, index_name ix))
            (\<lambda>j. secs V s S128 (i_code ix, i_scope ix, index_name ix) j = Some (take 2 k)) \<Longrightarrow>
      \<exists>i s'. Index128_find api ix k s = (Inr (i, r), s') \<and> quiet V s s' \<and> (r = None \<longleftrightarrow> i < 0)"
    using laws(4) [of "i_code ix" "i_scope ix" "index_name ix" "u128 (k ! 0) (k ! 1)" s] by (simp add: Index128_find_def k)
qed

interpretation i256: index_family S256 "\<lambda>k. k" Index256_store Index256_update Index256_remove Index256_find
proof unfold_locales
  fix V :: "'s view" and api ix k pyr pk s s' r and u :: unit
  assume ok: "chain_ok V api"
  note laws = sec_laws [OF chain_sec_ok(3) [OF ok]]
  show "Index256_remove api ix pk s = (Inr u, s') \<Longrightarrow> i_code ix = receiver V \<Longrightarrow>
      secs V s S256 (index_table V ix) pk \<noteq> None \<and> set_sec V s S256 (index_table V ix) pk None s'"
    using laws(2) [of "i_code ix" "i_scope ix" "index_name ix" pk s s'] by (simp add: Index256_remove_def index_table_def)
  assume len: "length (k :: 64 word list) = 4"
  then have k: "k = [k ! 0, k ! 1, k ! 2, k ! 3]" using key4_cases by fastforce
  have w: "words256 (u128 (k ! 0) (k ! Suc 0), u128 (k ! 2) (k ! 3)) = k" by (subst (5) k) (simp flip: One_nat_def)
  have z: "u128 a b = 0 \<longleftrightarrow> a = 0 \<and> b = 0" for a b using u128_inject [of a b 0 0] by (simp add: u128_def word_cat_eq)
  show "Index256_store api ix pyr pk k s = (Inr u, s') \<Longrightarrow>
      secs V s S256 (index_table V ix) pk = None \<and> set_sec V s S256 (index_table V ix) pk (Some k) s'"
    by (auto simp: Index256_store_def index_table_def w simp del: words_u128 dest!: laws(1))
  have "u128 (k ! 0) (k ! 1) = 0 \<Longrightarrow> u128 (k ! 2) (k ! 3) = 0 \<Longrightarrow> set k \<subseteq> {0}" by (subst k) (simp add: z)
  then show "Index256_update api ix pyr pk k s = (Inr u, s') \<Longrightarrow> i_code ix = receiver V \<Longrightarrow>
      (if secs V s S256 (index_table V ix) pk = None then set k \<subseteq> {0} \<and> quiet V s s'
       else set_sec V s S256 (index_table V ix) pk (Some k) s')"
    using laws(3) [of "i_code ix" "i_scope ix" "index_name ix" pk "(0, 0)" "(u128 (k ! 0) (k ! 1), u128 (k ! 2) (k ! 3))" pyr s s']
    by (auto simp: Index256_update_def index_table_def w simp del: words_u128 split: if_splits)
  show "r = least_key (secs V s S256 (i_code ix, i_scope ix, index_name ix))
            (\<lambda>j. secs V s S256 (i_code ix, i_scope ix, index_name ix) j = Some k) \<Longrightarrow>
      \<exists>i s'. Index256_find api ix k s = (Inr (i, r), s') \<and> quiet V s s' \<and> (r = None \<longleftrightarrow> i < 0)"
    using laws(4) [of "i_code ix" "i_scope ix" "index_name ix" "(u128 (k ! 0) (k ! 1), u128 (k ! 2) (k ! 3))" s]
    by (simp add: Index256_find_def w del: words_u128)
qed

section \<open>An index of any class\<close>

fun class_kind :: "index_class \<Rightarrow> skind" where
  "class_kind Class64 = S64"
| "class_kind Class128 = S128"
| "class_kind Class192 = S256"
| "class_kind Class256 = S256"

fun class_words :: "index_class \<Rightarrow> 64 word list \<Rightarrow> 64 word list" where
  "class_words Class64 k = take 1 k"
| "class_words Class128 k = take 2 k"
| "class_words Class192 k = k"
| "class_words Class256 k = k"

text \<open>The entries of an index, and what they are to be for a value.\<close>

definition entries_of :: "'s view \<Rightarrow> 's \<Rightarrow> index \<Rightarrow> 64 word \<rightharpoonup> 64 word list" where
  "entries_of V s ix = secs V s (class_kind (i_class ix)) (i_code ix, i_scope ix, index_name ix)"

definition value_entry :: "'e host_scheme \<Rightarrow> index \<Rightarrow> jsv \<Rightarrow> 64 word list option" where
  "value_entry h ix val = (case build_key h ix val of Inl e \<Rightarrow> None | Inr ks \<Rightarrow> Some (class_words (i_class ix) ks))"

definition class_size :: "index_class \<Rightarrow> nat" where
  "class_size c = (case c of Class64 \<Rightarrow> 1 | Class128 \<Rightarrow> 2 | Class192 \<Rightarrow> 3 | Class256 \<Rightarrow> 4)"

definition index_wf :: "index \<Rightarrow> bool" where
  "index_wf ix \<longleftrightarrow> i_sz ix = class_size (i_class ix)"

lemma index_wf_sz: "index_wf ix \<Longrightarrow> i_sz ix \<le> 4"
  by (simp add: index_wf_def class_size_def split: index_class.splits)

lemma build_key_length: "build_key h ix val = Inr ks \<Longrightarrow> index_wf ix \<Longrightarrow> length ks = 4"
  by (rule build_key_Inr) (auto dest: index_wf_sz)

text \<open>\<open>set_entry\<close> is \<open>set_sec\<close> for the entry of an index.\<close>

definition set_entry :: "'s view \<Rightarrow> 's \<Rightarrow> index \<Rightarrow> 64 word \<Rightarrow> 64 word list option \<Rightarrow> 's \<Rightarrow> bool" where
  "set_entry V s ix pk r s' = set_sec V s (class_kind (i_class ix)) (i_code ix, i_scope ix, index_name ix) pk r s'"

lemma store_value_entry:
  assumes "chain_ok V api" "index_wf ix" "i_code ix = receiver V" "store_value h api ix pyr pk val s = (Inr u, s')"
  shows "entries_of V s ix pk = None \<and> value_entry h ix val \<noteq> None \<and> set_entry V s ix pk (value_entry h ix val) s'"
proof -
  obtain ks where ks: "build_key h ix val = Inr ks" "index_store api ix pyr pk ks s = (Inr u, s')"
    using assms(4) by (auto simp: store_value_def act_Inr)
  note len = build_key_length [OF ks(1) assms(2)]
  show ?thesis
    using ks assms(3) i64.store_law [OF assms(1) len, of ix pyr pk s u s'] i128.store_law [OF assms(1) len, of ix pyr pk s u s']
      i256.store_law [OF assms(1) len, of ix pyr pk s u s']
    by (auto simp: index_store_def value_entry_def entries_of_def set_entry_def index_table_def split: index_class.splits)
qed

lemma update_value_entry:
  assumes "chain_ok V api" "index_wf ix" "i_code ix = receiver V" "update_value h api ix pyr pk val s = (Inr u, s')"
    "entries_of V s ix pk \<noteq> None"
  shows "value_entry h ix val \<noteq> None \<and> set_entry V s ix pk (value_entry h ix val) s'"
proof -
  obtain ks where ks: "build_key h ix val = Inr ks" "index_update api ix pyr pk ks s = (Inr u, s')"
    using assms(4) by (auto simp: update_value_def act_Inr)
  note len = build_key_length [OF ks(1) assms(2)]
  show ?thesis
    using ks assms(3,5) i64.update_law [OF assms(1) len assms(3), of pyr pk s u s'] i128.update_law [OF assms(1) len assms(3), of pyr pk s u s']
      i256.update_law [OF assms(1) len assms(3), of pyr pk s u s']
    by (auto simp: index_update_def value_entry_def entries_of_def set_entry_def index_table_def split: index_class.splits)
qed

lemma remove_entry:
  assumes "chain_ok V api" "i_code ix = receiver V" "index_remove api ix pk s = (Inr u, s')"
  shows "entries_of V s ix pk \<noteq> None \<and> set_entry V s ix pk None s'"
  using assms(2,3) i64.remove_law [OF assms(1,2), of pk s u s'] i128.remove_law [OF assms(1,2), of pk s u s']
    i256.remove_law [OF assms(1,2), of pk s u s']
  by (auto simp: index_remove_def entries_of_def set_entry_def index_table_def split: index_class.splits)

lemma index_find_entry:
  assumes "chain_ok V api" "length k = 4"
  shows "\<exists>i s'. index_find api ix k s =
      (Inr (i, least_key (entries_of V s ix) (\<lambda>j. entries_of V s ix j = Some (class_words (i_class ix) k))), s') \<and> quiet V s s' \<and>
      (least_key (entries_of V s ix) (\<lambda>j. entries_of V s ix j = Some (class_words (i_class ix) k)) = None \<longleftrightarrow> i < 0)"
  using i64.find_law [OF assms refl, of ix s] i128.find_law [OF assms refl, of ix s] i256.find_law [OF assms refl, of ix s]
  by (cases "i_class ix") (simp_all add: index_find_def entries_of_def)

lemma sec_quiet:
  assumes "sec_ok V k ws sapi"
  shows "sec_next sapi i s = (Inr x, s') \<Longrightarrow> quiet V s s'" "sec_previous sapi i s = (Inr x, s') \<Longrightarrow> quiet V s s'"
    "sec_lowerbound sapi c sc t key s = (Inr x, s') \<Longrightarrow> quiet V s s'"
    "sec_upperbound sapi c sc t key s = (Inr x, s') \<Longrightarrow> quiet V s s'"
  using assms unfolding sec_ok_def by blast+

lemma index_moves_quiet:
  assumes "chain_ok V api"
  shows "index_next api ix i s = (Inr x, s') \<Longrightarrow> quiet V s s'" "index_previous api ix i s = (Inr x, s') \<Longrightarrow> quiet V s s'"
    "index_lowerbound api ix k s = (Inr x, s') \<Longrightarrow> quiet V s s'" "index_upperbound api ix k s = (Inr x, s') \<Longrightarrow> quiet V s s'"
  using sec_quiet [OF chain_sec_ok(1) [OF assms]] sec_quiet [OF chain_sec_ok(2) [OF assms]] sec_quiet [OF chain_sec_ok(3) [OF assms]]
  by (auto simp: index_next_def index_previous_def index_lowerbound_def index_upperbound_def
      Index64_next_def Index128_next_def Index256_next_def Index64_previous_def Index128_previous_def Index256_previous_def
      Index64_lowerbound_def Index128_lowerbound_def Index256_lowerbound_def
      Index64_upperbound_def Index128_upperbound_def Index256_upperbound_def split: index_class.splits)

end
