(* ===== verification/Js_Table.thy ===== *)
theory Js_Table
  imports Js_Index
begin

text \<open>
  Tables of a contract: \<^verbatim>\<open>src/js_contract/src/Table.cpp\<close>, the search methods of
  \<^verbatim>\<open>Index.cpp\<close>, and \<open>DBIterator::load\<close> of \<^verbatim>\<open>DBIterator.cpp\<close>, which they end in.

  A table object is its code and scope, the definition in the contract's ABI, and the list of
  its secondary indexes; an iterator object is the table, the chain's iterator and the row's
  number, the same for the index it came from, and the row as a JavaScript value.  \<open>None\<close> as a
  result is JavaScript's null, the answer outside an action.
\<close>

unbundle bit_operations_syntax

section \<open>Objects\<close>

record table_def =
  def_name :: "64 word"
  def_type :: string
  key_names :: "string list"
  key_types :: "string list"

record table =
  t_code :: "64 word"
  t_scope :: "64 word"
  t_def :: table_def
  indexes_array :: "index list"
  indexes :: "(string \<times> index) list"

record db_iter =
  it_table :: table
  it_id :: "64 word"
  it_itr :: int
  it_idx_itr :: int
  it_index :: "index option"
  it_data :: jsv

text \<open>\<open>arg_array\<close>, \<open>arg_int32\<close> and \<open>arg_function\<close> are the strict GetArgumentValue to these
  types, \<open>uninit\<close> is what stands in a variable nothing was written to.\<close>

record contract = host +
  variant_to_binary :: "string \<Rightarrow> fcv \<Rightarrow> js_error + 8 word list"
  binary_to_variant :: "string \<Rightarrow> 8 word list \<Rightarrow> js_error + fcv"
  arg_array :: "jsv \<Rightarrow> js_error + jsv list"
  arg_int32 :: "jsv \<Rightarrow> js_error + int"
  arg_function :: "jsv \<Rightarrow> js_error + nat"
  now_context :: bool
  uninit :: "64 word"

fun get_prop :: "jsv \<Rightarrow> string \<Rightarrow> jsv" where
  "get_prop (JObject kvs) k = (case map_of kvs k of None \<Rightarrow> JUndefined | Some v \<Rightarrow> v)"
| "get_prop v k = JUndefined"

fun is_object :: "jsv \<Rightarrow> bool" where
  "is_object (JObject kvs) \<longleftrightarrow> True"
| "is_object (JArray vs) \<longleftrightarrow> True"
| "is_object (JBuffer bs) \<longleftrightarrow> True"
| "is_object (JFunction f) \<longleftrightarrow> True"
| "is_object (JBooleanObj b) \<longleftrightarrow> True"
| "is_object (JNumberObj d) \<longleftrightarrow> True"
| "is_object (JBigIntObj i) \<longleftrightarrow> True"
| "is_object (JStringObj s) \<longleftrightarrow> True"
| "is_object v \<longleftrightarrow> False"

text \<open>The enumerable properties; an array's names are its positions.\<close>

fun properties :: "jsv \<Rightarrow> (jsv \<times> jsv) list" where
  "properties (JObject kvs) = map (map_prod JString id) kvs"
| "properties (JArray vs) = zip (map (\<lambda>i. JNumber (DFin (int i) 0)) [0..<length vs]) vs"
| "properties v = []"

section \<open>Declaring a table's indexes\<close>

definition new_index :: "table \<Rightarrow> int \<Rightarrow> index_class \<Rightarrow> nat \<Rightarrow> index" where
  "new_index t len cls func =
     \<lparr>i_code = t_code t, i_scope = t_scope t, i_def_name = def_name (t_def t), i_idx = len,
      i_sz = class_size cls, i_class = cls, i_func = func\<rparr>"

definition sz_class :: "int \<Rightarrow> index_class" where
  "sz_class sz = (if sz = 64 then Class64 else if sz = 128 then Class128 else if sz = 192 then Class192 else Class256)"

definition set_index :: "'e contract_scheme \<Rightarrow> jsv \<Rightarrow> jsv \<Rightarrow> table \<Rightarrow> js_error + table" where
  "set_index c iname opt t =
     (case value_to_name c iname of Inl hr \<Rightarrow> Inl hr | Inr idx_name \<Rightarrow>
      if idx_name AND 0xF \<noteq> 0
      then Inl (Set_error ''multi_index does not support table names with a length greater than 12.'') else
      case arg_array c opt of Inl hr \<Rightarrow> Inl hr | Inr a \<Rightarrow>
      if length a \<noteq> 2 then Inl (Set_error ''multi_index requires two parameters.'') else
      case arg_int32 c (a ! 0) of Inl hr \<Rightarrow> Inl hr | Inr sz \<Rightarrow>
      if sz \<le> 0 \<or> sz > 256 then Inl (Set_error ''the size of the index key is out of range.'') else
      if sz mod 64 \<noteq> 0 then Inl (Set_error ''the size of the index key must be a multiple of 64.'') else
      case arg_function c (a ! 1) of Inl hr \<Rightarrow> Inl hr | Inr func \<Rightarrow>
      let idx = new_index t (int (length (indexes_array t))) (sz_class sz) func
      in Inr (t\<lparr>indexes_array := indexes_array t @ [idx],
                indexes := AList.update (name_text c idx_name) idx (indexes t)\<rparr>))"

fun set_indexes :: "'e contract_scheme \<Rightarrow> (jsv \<times> jsv) list \<Rightarrow> table \<Rightarrow> js_error + table" where
  "set_indexes c [] t = Inr t"
| "set_indexes c ((k, v) # kvs) t = (case set_index c k v t of Inl hr \<Rightarrow> Inl hr | Inr t' \<Rightarrow> set_indexes c kvs t')"

text \<open>\<open>TableFactory::get_table\<close>: the call \<open>db.tab(code, scope, indexes)\<close>.\<close>

definition get_table :: "'e contract_scheme \<Rightarrow> table_def \<Rightarrow> jsv list \<Rightarrow> js_error + table" where
  "get_table c d args =
     (if length args < 2 then Inl Param_not_optional else
      case value_to_name c (args ! 0) of Inl hr \<Rightarrow> Inl hr | Inr code \<Rightarrow>
      case value_to_name c (args ! 1) of Inl hr \<Rightarrow> Inl hr | Inr scope \<Rightarrow>
      let t = \<lparr>t_code = code, t_scope = scope, t_def = d, indexes_array = [], indexes = []\<rparr> in
      if key_types d = [] \<or> key_names d = [] then Inl (Set_error ''key types or key names should not be empty.'') else
      if length args > 2
      then if \<not> is_object (args ! 2) then Inl Wrong_type
           else if length (properties (args ! 2)) > 16
           then Inl (Set_error ''multi_index only supports a maximum of 16 secondary indices.'')
           else set_indexes c (properties (args ! 2)) t
      else Inr t)"

section \<open>The object db\<close>

text \<open>The interceptors of the object \<open>db\<close>: a name is the contract's state, a table of its ABI
  or nothing of db's own; writing anything but the two classes is swallowed.\<close>

datatype db_answer = Db_state | Db_table table_def | Not_intercepted

definition db_get_property :: "'e contract_scheme \<Rightarrow> table_def list option \<Rightarrow> string \<Rightarrow> db_answer" where
  "db_get_property c module str =
     (case module of None \<Rightarrow> Not_intercepted
      | Some tables \<Rightarrow>
          if str = ''state'' then Db_state
          else (case find (\<lambda>d. name_text c (def_name d) = str) tables of None \<Rightarrow> Not_intercepted | Some d \<Rightarrow> Db_table d))"

definition db_set_property :: "string \<Rightarrow> jsv \<Rightarrow> jsv \<Rightarrow> bool \<times> jsv" where
  "db_set_property str val state =
     (if str = ''state'' then (True, if is_object val then val else state)
      else (str \<noteq> ''Table'' \<and> str \<noteq> ''DBIterator'', state))"

definition db_enumerate :: "'e contract_scheme \<Rightarrow> table_def list option \<Rightarrow> string list" where
  "db_enumerate c module = (case module of None \<Rightarrow> [] | Some tables \<Rightarrow> map (\<lambda>d. name_text c (def_name d)) tables)"

section \<open>Loading an iterator\<close>

definition read_row :: "'s chain_api \<Rightarrow> int \<Rightarrow> ('s, 8 word list) act" where
  "read_row api itr =
     bind_act (db_get api itr 0) (\<lambda>(sz, _). bind_act (db_get api itr sz) (\<lambda>(_, bs). ret (bs @ replicate (sz - length bs) 0)))"

definition iter_load ::
    "'e contract_scheme \<Rightarrow> 's chain_api \<Rightarrow> table \<Rightarrow> int \<Rightarrow> 64 word \<Rightarrow> int \<Rightarrow> index option \<Rightarrow> ('s, db_iter) act" where
  "iter_load c api t itr pk idx_itr idx =
     (let it = \<lparr>it_table = t, it_id = pk, it_itr = itr, it_idx_itr = idx_itr, it_index = idx, it_data = JUndefined\<rparr>
      in if itr > - 1 \<and> now_context c
         then bind_act (try_chain (read_row api itr)) (\<lambda>data.
              bind_act (lift_sum (binary_to_variant c (def_type (t_def t)) data)) (\<lambda>v.
                ret (it\<lparr>it_data := js_value (new_string c) v\<rparr>)))
         else ret it)"

definition table_get_at ::
    "'e contract_scheme \<Rightarrow> 's chain_api \<Rightarrow> table \<Rightarrow> int \<Rightarrow> 64 word \<Rightarrow> int \<Rightarrow> index option \<Rightarrow> ('s, db_iter) act" where
  "table_get_at c api t itr pk idx_itr idx =
     try_fc (bind_act (if itr > - 1 then keyval_primary api itr else ret pk) (\<lambda>pk'. iter_load c api t itr pk' idx_itr idx))"

definition table_get ::
    "'e contract_scheme \<Rightarrow> 's chain_api \<Rightarrow> table \<Rightarrow> 64 word \<Rightarrow> int \<Rightarrow> index option \<Rightarrow> ('s, db_iter) act" where
  "table_get c api t pk idx_itr idx =
     bind_act (try_chain (db_find api (t_code t) (t_scope t) (def_name (t_def t)) pk)) (\<lambda>itr.
       table_get_at c api t itr pk idx_itr idx)"

section \<open>Searching\<close>

text \<open>\<open>when_acting\<close> is the test of \<open>g_now_context\<close>.\<close>

definition when_acting :: "'e contract_scheme \<Rightarrow> ('s, 'a) act \<Rightarrow> ('s, 'a option) act" where
  "when_acting c m = (if now_context c then bind_act m (\<lambda>a. ret (Some a)) else ret None)"

definition clamp_end :: "int \<Rightarrow> int" where
  "clamp_end itr = (if itr < 0 then - 2 else itr)"

definition table_begin :: "'e contract_scheme \<Rightarrow> 's chain_api \<Rightarrow> table \<Rightarrow> ('s, db_iter option) act" where
  "table_begin c api t = when_acting c
     (bind_act (lift_sum (string_to_name c (hd (key_names (t_def t))))) (\<lambda>pk.
      bind_act (try_chain (db_lowerbound api (t_code t) (t_scope t) (def_name (t_def t)) 0)) (\<lambda>itr.
        table_get_at c api t (clamp_end itr) pk (- 1) None)))"

definition table_end :: "'e contract_scheme \<Rightarrow> 's chain_api \<Rightarrow> table \<Rightarrow> ('s, db_iter option) act" where
  "table_end c api t = when_acting c
     (bind_act (lift_sum (string_to_name c (hd (key_names (t_def t))))) (\<lambda>pk.
      bind_act (try_chain (db_end api (t_code t) (t_scope t) (def_name (t_def t)))) (\<lambda>itr.
        table_get_at c api t (clamp_end itr) pk (- 1) None)))"

definition table_find :: "'e contract_scheme \<Rightarrow> 's chain_api \<Rightarrow> table \<Rightarrow> jsv \<Rightarrow> ('s, db_iter option) act" where
  "table_find c api t v = when_acting c
     (bind_act (lift_sum (get_index c v)) (\<lambda>pk. table_get c api t pk (- 1) None))"

definition table_lowerbound :: "'e contract_scheme \<Rightarrow> 's chain_api \<Rightarrow> table \<Rightarrow> jsv \<Rightarrow> ('s, db_iter option) act" where
  "table_lowerbound c api t v = when_acting c
     (bind_act (lift_sum (get_index c v)) (\<lambda>pk.
      bind_act (try_chain (db_lowerbound api (t_code t) (t_scope t) (def_name (t_def t)) pk)) (\<lambda>itr.
        table_get_at c api t (clamp_end itr) pk (- 1) None)))"

definition table_upperbound :: "'e contract_scheme \<Rightarrow> 's chain_api \<Rightarrow> table \<Rightarrow> jsv \<Rightarrow> ('s, db_iter option) act" where
  "table_upperbound c api t v = when_acting c
     (bind_act (lift_sum (get_index c v)) (\<lambda>pk.
      bind_act (try_chain (db_upperbound api (t_code t) (t_scope t) (def_name (t_def t)) pk)) (\<lambda>itr.
        table_get_at c api t (clamp_end itr) pk (- 1) None)))"

text \<open>The next free number; it does not ask whether an action runs.\<close>

definition get_primary_key :: "'e contract_scheme \<Rightarrow> 's chain_api \<Rightarrow> table \<Rightarrow> ('s, 64 word) act" where
  "get_primary_key c api t = try_chain
     (bind_act (db_end api (t_code t) (t_scope t) (def_name (t_def t))) (\<lambda>enditr.
      if enditr = - 1 then ret 0
      else bind_act (db_previous api enditr) (\<lambda>(hr, endpk).
             ret (if hr = - 1 then 0 else (case endpk of None \<Rightarrow> uninit c | Some p \<Rightarrow> p) + 1))))"

text \<open>The searches through an index: a miss looks for the row with the highest number.\<close>

definition index_search ::
    "(('s chain_api \<Rightarrow> index \<Rightarrow> 64 word list \<Rightarrow> ('s, int \<times> 64 word option) act)) \<Rightarrow>
     'e contract_scheme \<Rightarrow> 's chain_api \<Rightarrow> table \<Rightarrow> index \<Rightarrow> jsv \<Rightarrow> ('s, db_iter) act" where
  "index_search search c api t ix v = try_chain
     (bind_act (lift_sum (build_key c ix v)) (\<lambda>ks.
      bind_act (search api ix ks) (\<lambda>(itr, pid).
        table_get c api t (if itr < 0 then - 1 else case pid of None \<Rightarrow> uninit c | Some p \<Rightarrow> p) itr (Some ix))))"

definition Index_find :: "'e contract_scheme \<Rightarrow> 's chain_api \<Rightarrow> table \<Rightarrow> index \<Rightarrow> jsv \<Rightarrow> ('s, db_iter) act" where
  "Index_find = index_search index_find"

definition Index_lowerbound :: "'e contract_scheme \<Rightarrow> 's chain_api \<Rightarrow> table \<Rightarrow> index \<Rightarrow> jsv \<Rightarrow> ('s, db_iter) act" where
  "Index_lowerbound = index_search index_lowerbound"

definition Index_upperbound :: "'e contract_scheme \<Rightarrow> 's chain_api \<Rightarrow> table \<Rightarrow> index \<Rightarrow> jsv \<Rightarrow> ('s, db_iter) act" where
  "Index_upperbound = index_search index_upperbound"

section \<open>Writing\<close>

text \<open>One loop over the indexes for each of \<open>store_index\<close>, \<open>update_index\<close>, \<open>remove_index\<close>.\<close>

fun each :: "('a \<Rightarrow> ('s, unit) act) \<Rightarrow> 'a list \<Rightarrow> ('s, unit) act" where
  "each f [] = ret ()"
| "each f (x # xs) = bind_act (f x) (\<lambda>_. each f xs)"

definition store_index :: "'e contract_scheme \<Rightarrow> 's chain_api \<Rightarrow> table \<Rightarrow> 64 word \<Rightarrow> 64 word \<Rightarrow> jsv \<Rightarrow> ('s, unit) act" where
  "store_index c api t pyr pk val = each (\<lambda>ix. store_value c api ix pyr pk val) (indexes_array t)"

definition update_index :: "'e contract_scheme \<Rightarrow> 's chain_api \<Rightarrow> table \<Rightarrow> 64 word \<Rightarrow> 64 word \<Rightarrow> jsv \<Rightarrow> ('s, unit) act" where
  "update_index c api t pyr pk val = each (\<lambda>ix. update_value c api ix pyr pk val) (indexes_array t)"

definition remove_index :: "'s chain_api \<Rightarrow> table \<Rightarrow> 64 word \<Rightarrow> ('s, unit) act" where
  "remove_index api t pk = each (\<lambda>ix. index_remove api ix pk) (indexes_array t)"

definition emplace :: "'e contract_scheme \<Rightarrow> 's chain_api \<Rightarrow> table \<Rightarrow> string \<Rightarrow> jsv \<Rightarrow> ('s, unit) act" where
  "emplace c api t payer val =
     (if now_context c
      then bind_act (lift_sum (string_to_name c payer)) (\<lambda>pyr.
           bind_act (lift_sum (get_index c (get_prop val (hd (key_names (t_def t)))))) (\<lambda>pk.
             try_fc (bind_act (lift_sum (variant_to_binary c (def_type (t_def t)) (fc_value val))) (\<lambda>data.
               bind_act (db_store api (t_scope t) (def_name (t_def t)) pyr pk data) (\<lambda>_.
                 store_index c api t pyr pk val)))))
      else ret ())"

section \<open>What the objects say about themselves\<close>

definition get_name :: "'e contract_scheme \<Rightarrow> table \<Rightarrow> string" where
  "get_name c t = name_text c (def_name (t_def t))"

definition get_code :: "'e contract_scheme \<Rightarrow> table \<Rightarrow> string" where
  "get_code c t = name_text c (t_code t)"

definition get_scope :: "'e contract_scheme \<Rightarrow> table \<Rightarrow> string" where
  "get_scope c t = name_text c (t_scope t)"

definition get_indexes :: "table \<Rightarrow> (string \<times> index) list" where
  "get_indexes t = indexes t"

definition Index_get_name :: "'e contract_scheme \<Rightarrow> index \<Rightarrow> string" where
  "Index_get_name c ix = name_text c (i_def_name ix)"

definition Index_get_code :: "'e contract_scheme \<Rightarrow> index \<Rightarrow> string" where
  "Index_get_code c ix = name_text c (i_code ix)"

definition Index_get_scope :: "'e contract_scheme \<Rightarrow> index \<Rightarrow> string" where
  "Index_get_scope c ix = name_text c (i_scope ix)"

text \<open>An index object has the methods of a table but refuses those that write or walk:
  \<open>emplace\<close>, \<open>get_primary_key\<close>, \<open>begin\<close>, \<open>end\<close>, \<open>remove\<close>, \<open>update\<close> and \<open>get_indexes\<close>.\<close>

definition Index_refuses :: "('s, 'a) act" where
  "Index_refuses = fail Invalid_call"

section \<open>The indexes of a table\<close>

text \<open>A table as \<open>get_table\<close> builds it.\<close>

definition table_wf :: "table \<Rightarrow> bool" where
  "table_wf t \<longleftrightarrow> length (indexes_array t) \<le> 16 \<and> (\<forall>i < length (indexes_array t).
     index_wf (indexes_array t ! i) \<and> i_code (indexes_array t ! i) = t_code t \<and> i_scope (indexes_array t ! i) = t_scope t \<and>
     i_def_name (indexes_array t ! i) = def_name (t_def t) \<and> i_idx (indexes_array t ! i) = int i)"

lemma set_index_Inr:
  "set_index c k v t = Inr t' \<Longrightarrow>
     \<exists>cls f. indexes_array t' = indexes_array t @ [new_index t (int (length (indexes_array t))) cls f] \<and>
       t_code t' = t_code t \<and> t_scope t' = t_scope t \<and> t_def t' = t_def t"
  by (auto simp: set_index_def Let_def split: sum.splits if_splits) blast

lemma set_index_wf:
  assumes "set_index c k v t = Inr t'" "table_wf t" "length (indexes_array t) < 16"
  shows "table_wf t' \<and> length (indexes_array t') = Suc (length (indexes_array t))"
  using set_index_Inr [OF assms(1)] assms(2,3)
  by (auto simp: table_wf_def new_index_def index_wf_def nth_append less_Suc_eq)

lemma set_indexes_wf:
  "set_indexes c kvs t = Inr t' \<Longrightarrow> table_wf t \<Longrightarrow> length (indexes_array t) + length kvs \<le> 16 \<Longrightarrow>
     table_wf t' \<and> length (indexes_array t') = length (indexes_array t) + length kvs \<and>
     t_code t' = t_code t \<and> t_scope t' = t_scope t \<and> t_def t' = t_def t"
proof (induction kvs arbitrary: t)
  case (Cons kv kvs)
  obtain k v where kv: "kv = (k, v)" by fastforce
  obtain t1 where t1: "set_index c k v t = Inr t1" "set_indexes c kvs t1 = Inr t'"
    using Cons.prems(1) kv by (auto split: sum.splits)
  show ?case
    using Cons.IH [OF t1(2)] set_index_wf [OF t1(1)] set_index_Inr [OF t1(1)] Cons.prems by auto
qed simp

lemma get_table_Inr:
  assumes "get_table c d args = Inr t"
  shows "table_wf t \<and> t_def t = d \<and> key_names d \<noteq> [] \<and>
     value_to_name c (args ! 0) = Inr (t_code t) \<and> value_to_name c (args ! 1) = Inr (t_scope t) \<and>
     length (indexes_array t) = (if length args > 2 then length (properties (args ! 2)) else 0)"
proof -
  obtain code scope where cs: "value_to_name c (args ! 0) = Inr code" "value_to_name c (args ! 1) = Inr scope"
    using assms by (auto simp: get_table_def split: if_splits sum.splits)
  let ?t = "\<lparr>t_code = code, t_scope = scope, t_def = d, indexes_array = [], indexes = []\<rparr>"
  have wf: "table_wf ?t" by (simp add: table_wf_def)
  show ?thesis
  proof (cases "length args > 2")
    case True
    then have "set_indexes c (properties (args ! 2)) ?t = Inr t" "length (properties (args ! 2)) \<le> 16" "key_names d \<noteq> []"
      using assms cs by (auto simp: get_table_def Let_def split: if_splits)
    then show ?thesis using set_indexes_wf [OF _ wf] cs True by fastforce
  next
    case False
    then show ?thesis using assms cs wf by (auto simp: get_table_def Let_def split: if_splits)
  qed
qed

text \<open>The tables of a table's indexes are told apart by the last four bits of their names, which
  only a table name of at most twelve characters leaves free.\<close>

lemma index_name_at:
  "table_wf t \<Longrightarrow> i < length (indexes_array t) \<Longrightarrow>
     index_name (indexes_array t ! i) = def_name (t_def t) OR word_of_nat i"
  by (simp add: table_wf_def index_name_def)

lemma low_nibble:
  assumes "(n :: 64 word) AND 0xF = 0" "i < 16"
  shows "(n OR word_of_nat i) AND 0xF = word_of_nat i"
proof -
  have "(word_of_nat i :: 64 word) AND 0xF = word_of_nat i AND mask 4" by (simp add: mask_eq_exp_minus_1)
  also have "\<dots> = take_bit 4 (word_of_nat i)" by (simp add: take_bit_eq_mask)
  also have "\<dots> = word_of_nat i"
    using assms(2) by (simp add: take_bit_nat_eq_self flip: of_nat_take_bit)
  finally show ?thesis using assms(1) by (simp add: bit.conj_disj_distrib2)
qed

lemma index_names_distinct:
  assumes "table_wf t" "def_name (t_def t) AND 0xF = 0"
  shows "distinct (map index_name (indexes_array t))"
proof (unfold distinct_conv_nth, intro allI impI)
  fix i j assume ij: "i < length (map index_name (indexes_array t))" "j < length (map index_name (indexes_array t))" "i \<noteq> j"
  have b: "i < 16" "j < 16" using ij assms(1) by (auto simp: table_wf_def)
  then have "(word_of_nat i :: 64 word) \<noteq> word_of_nat j"
    using ij(3) by (simp add: word_unat_eq_iff unat_of_nat take_bit_nat_eq_self)
  then show "map index_name (indexes_array t) ! i \<noteq> map index_name (indexes_array t) ! j"
    using low_nibble [OF assms(2) b(1)] low_nibble [OF assms(2) b(2)] ij index_name_at [OF assms(1)] by auto
qed

section \<open>A small contract\<close>

text \<open>What the witnesses run: names are runs of the letter a, a row is the two bytes of its
  properties \<open>aa\<close>, its number, and \<open>k\<close>, which every index function returns as the key.\<close>

definition demo_encode :: "string \<Rightarrow> fcv \<Rightarrow> js_error + 8 word list" where
  "demo_encode ty v =
     (case v of FObject [(p, FInt64 a), (q, FInt64 b)] \<Rightarrow>
        if p = ''aa'' \<and> q = ''k'' \<and> a < 256 \<and> b < 256 then Inr [ucast a, ucast b] else Inl (Thrown (Fc_exception ''abi''))
      | _ \<Rightarrow> Inl (Thrown (Fc_exception ''abi'')))"

definition demo_decode :: "string \<Rightarrow> 8 word list \<Rightarrow> js_error + fcv" where
  "demo_decode ty bs =
     (case bs of [a, b] \<Rightarrow> Inr (FObject [(''aa'', FInt64 (ucast a)), (''k'', FInt64 (ucast b))])
      | _ \<Rightarrow> Inl (Thrown (Fc_exception ''abi'')))"

definition demo :: contract where
  "demo =
     \<lparr>new_string = id, arg_string = \<lambda>v. (case v of JString s \<Rightarrow> Inr s | _ \<Rightarrow> Inl Wrong_type),
      name_value = \<lambda>s. word_of_nat (16 * length s), name_text = \<lambda>n. replicate (unat n div 16) (CHR ''a''),
      conv_out_of_range = \<lambda>d. 0, call_function = \<lambda>f v. Inr (JArray [get_prop v ''k'']), err_message = \<lambda>e. ''error'',
      variant_to_binary = demo_encode, binary_to_variant = demo_decode,
      arg_array = \<lambda>v. (case v of JArray a \<Rightarrow> Inr a | _ \<Rightarrow> Inl Wrong_type),
      arg_int32 = \<lambda>v. (case v of JNumber (DFin m e) \<Rightarrow> Inr m | _ \<Rightarrow> Inl Wrong_type),
      arg_function = \<lambda>v. (case v of JFunction f \<Rightarrow> Inr f | _ \<Rightarrow> Inl Wrong_type), now_context = True, uninit = 0\<rparr>"

lemma demo_sel [simp]:
  "new_string demo = id" "arg_string demo (JString s) = Inr s" "name_value demo s = word_of_nat (16 * length s)"
  "name_text demo n = replicate (unat n div 16) (CHR ''a'')" "call_function demo f v = Inr (JArray [get_prop v ''k''])"
  "variant_to_binary demo = demo_encode" "binary_to_variant demo = demo_decode"
  "arg_array demo (JArray a) = Inr a" "arg_int32 demo (JNumber (DFin m e)) = Inr m" "arg_function demo (JFunction f) = Inr f"
  "now_context demo"
  by (simp_all add: demo_def)

definition demo_def_of :: "64 word \<Rightarrow> table_def" where
  "demo_def_of n = \<lparr>def_name = n, def_type = ''row'', key_names = [''aa''], key_types = [''uint64'']\<rparr>"

definition demo_args :: "jsv list" where
  "demo_args = [JString ''a'', JString ''aa'',
     JObject [(''a'', JArray [JNumber (DFin 64 0), JFunction 0]), (''aaa'', JArray [JNumber (DFin 64 0), JFunction 1])]]"

definition demo_table :: "64 word \<Rightarrow> table" where
  "demo_table n =
     (let ix = (\<lambda>i. \<lparr>i_code = 16, i_scope = 32, i_def_name = n, i_idx = int i, i_sz = 1, i_class = Class64, i_func = i\<rparr>)
      in \<lparr>t_code = 16, t_scope = 32, t_def = demo_def_of n, indexes_array = [ix 0, ix 1], indexes = [(''a'', ix 0), (''aaa'', ix 1)]\<rparr>)"

lemma replicate_few: "replicate 2 x = [x, x]" "replicate 3 x = [x, x, x]"
  by (simp_all add: numeral_eq_Suc)

lemma demo_name: "value_to_name demo (JString ''a'') = Inr 16" "value_to_name demo (JString ''aa'') = Inr 32"
    "value_to_name demo (JString ''aaa'') = Inr 48" "string_to_name demo ''a'' = Inr 16" "string_to_name demo ''aa'' = Inr 32"
  by (simp_all add: value_to_name_def string_to_name_def Let_def replicate_few)

lemma demo_get_table: "get_table demo (demo_def_of n) demo_args = Inr (demo_table n)"
proof -
  have a: "(48 :: 64 word) AND 15 = 0" "(16 :: 64 word) AND 15 = 0" by simp_all
  have t: "name_text demo 16 = ''a''" "name_text demo 48 = ''aaa''" by (simp_all add: replicate_few)
  show ?thesis
    by (simp add: get_table_def demo_args_def demo_name set_index_def Let_def a t demo_def_of_def new_index_def sz_class_def
        class_size_def demo_table_def del: demo_sel(4))
qed



end
