(* ===== verification/Chain_Ref.thy ===== *)
theory Chain_Ref
  imports Chain_Db
begin

text \<open>
  A small database with the laws of \<open>chain_ok\<close>, used only to show that they can hold: rows and
  index entries are maps, an iterator is a position in the list of the objects handed out, the
  end iterator of the n-th table that was looked at is \<open>- 2 - n\<close>.
\<close>

section \<open>Positions of first occurrence\<close>

definition slot :: "'a list \<Rightarrow> int \<Rightarrow> 'a option" where
  "slot xs n = (if 0 \<le> n \<and> nat n < length xs \<and> xs ! nat n \<notin> set (take (nat n) xs) then Some (xs ! nat n) else None)"

definition enter :: "'a \<Rightarrow> 'a list \<Rightarrow> 'a list" where
  "enter x xs = (if x \<in> set xs then xs else xs @ [x])"

definition place :: "'a \<Rightarrow> 'a list \<Rightarrow> int" where
  "place x xs = int (length (takeWhile (\<lambda>y. y \<noteq> x) xs))"

lemma slot_place: "x \<in> set xs \<Longrightarrow> slot xs (place x xs) = Some x"
proof (induction xs)
  case (Cons y ys)
  then show ?case
    by (cases "x = y") (auto simp: slot_def place_def nth_Cons' nat_add_distrib split: if_splits)
qed simp

lemma slot_enter_place [simp]: "slot (enter x xs) (place x (enter x xs)) = Some x"
  by (rule slot_place) (simp add: enter_def)

lemma place_nonneg [simp]: "0 \<le> place x xs" "- 1 < place x xs" "\<not> place x xs < 0"
  by (simp_all add: place_def)

lemma slot_enter: "slot xs n = Some y \<Longrightarrow> slot (enter x xs) n = Some y"
  by (auto simp: slot_def enter_def nth_append split: if_splits)

lemma slot_enter_le: "slot xs \<subseteq>\<^sub>m slot (enter x xs)"
  by (auto simp: map_le_def slot_enter)

lemma slot_nonneg: "slot xs n = Some y \<Longrightarrow> 0 \<le> n"
  by (simp add: slot_def split: if_splits)

section \<open>The database\<close>

text \<open>A key of any family is kept as four words, of which the family has the first ones.\<close>

type_synonym quad = "64 word \<times> 64 word \<times> 64 word \<times> 64 word"

fun shape :: "skind \<Rightarrow> quad \<Rightarrow> 64 word list" where
  "shape S64 (a, b, c, d) = [a]"
| "shape S128 (a, b, c, d) = [a, b]"
| "shape S256 (a, b, c, d) = [a, b, c, d]"

fun key64 :: "quad \<Rightarrow> 64 word" where "key64 (a, b, c, d) = a"
fun key128 :: "quad \<Rightarrow> 128 word" where "key128 (a, b, c, d) = u128 a b"
fun key256 :: "quad \<Rightarrow> 128 word \<times> 128 word" where "key256 (a, b, c, d) = (u128 a b, u128 c d)"

definition quad64 :: "64 word \<Rightarrow> quad" where "quad64 k = (k, 0, 0, 0)"
definition quad128 :: "128 word \<Rightarrow> quad" where "quad128 k = (ucast k, ucast (drop_bit 64 k), 0, 0)"
definition quad256 :: "128 word \<times> 128 word \<Rightarrow> quad" where
  "quad256 k = (ucast (fst k), ucast (drop_bit 64 (fst k)), ucast (snd k), ucast (drop_bit 64 (snd k)))"

record ref_st =
  r_rows :: "tkey \<Rightarrow> 64 word \<rightharpoonup> 8 word list"
  r_secs :: "skind \<Rightarrow> tkey \<Rightarrow> 64 word \<rightharpoonup> quad"
  r_refs :: "(tkey \<times> 64 word) list"
  r_ends :: "tkey list"
  r_srefs :: "skind \<Rightarrow> (tkey \<times> 64 word) list"

definition ref_empty :: ref_st where
  "ref_empty = \<lparr>r_rows = \<lambda>_. Map.empty, r_secs = \<lambda>_ _. Map.empty, r_refs = [], r_ends = [], r_srefs = \<lambda>_. []\<rparr>"

definition entries :: "ref_st \<Rightarrow> skind \<Rightarrow> tkey \<Rightarrow> 64 word \<rightharpoonup> 64 word list" where
  "entries s k tk = map_option (shape k) \<circ> r_secs s k tk"

definition ref_view :: "64 word \<Rightarrow> ref_st view" where
  "ref_view me =
     \<lparr>receiver = me, rows = r_rows, refs = \<lambda>s. slot (r_refs s), ends = \<lambda>s i. slot (r_ends s) (- 2 - i),
      secs = entries, srefs = \<lambda>s k. slot (r_srefs s k)\<rparr>"

definition put_row :: "tkey \<Rightarrow> 64 word \<Rightarrow> 8 word list option \<Rightarrow> ref_st \<Rightarrow> ref_st" where
  "put_row tk pk r s = s\<lparr>r_rows := (r_rows s)(tk := (r_rows s tk)(pk := r))\<rparr>"

definition put_sec :: "skind \<Rightarrow> tkey \<Rightarrow> 64 word \<Rightarrow> quad option \<Rightarrow> ref_st \<Rightarrow> ref_st" where
  "put_sec k tk pk r s = s\<lparr>r_secs := (r_secs s)(k := (r_secs s k)(tk := (r_secs s k tk)(pk := r)))\<rparr>"

definition hand_out :: "tkey \<Rightarrow> 64 word \<Rightarrow> ref_st \<Rightarrow> int \<times> ref_st" where
  "hand_out tk pk s = (place (tk, pk) (enter (tk, pk) (r_refs s)), s\<lparr>r_refs := enter (tk, pk) (r_refs s)\<rparr>)"

definition hand_out_sec :: "skind \<Rightarrow> tkey \<Rightarrow> 64 word \<Rightarrow> ref_st \<Rightarrow> int \<times> ref_st" where
  "hand_out_sec k tk pk s =
     (place (tk, pk) (enter (tk, pk) (r_srefs s k)), s\<lparr>r_srefs := (r_srefs s)(k := enter (tk, pk) (r_srefs s k))\<rparr>)"

definition end_of :: "tkey \<Rightarrow> ref_st \<Rightarrow> int \<times> ref_st" where
  "end_of tk s = (if r_rows s tk = Map.empty then (- 1, s)
     else (- 2 - place tk (enter tk (r_ends s)), s\<lparr>r_ends := enter tk (r_ends s)\<rparr>))"

definition point :: "tkey \<Rightarrow> 64 word option \<Rightarrow> ref_st \<Rightarrow> int \<times> ref_st" where
  "point tk r s = (case r of None \<Rightarrow> end_of tk s | Some pk \<Rightarrow> hand_out tk pk s)"

definition no_iterator :: js_error where
  "no_iterator = Thrown (Chain_exception ''invalid iterator'' [])"

text \<open>\<open>on_row\<close> runs an operation on the row an iterator was given for.\<close>

definition on_row :: "int \<Rightarrow> (tkey \<Rightarrow> 64 word \<Rightarrow> 8 word list \<Rightarrow> (ref_st, 'a) act) \<Rightarrow> (ref_st, 'a) act" where
  "on_row i f s =
     (case slot (r_refs s) i of None \<Rightarrow> (Inl no_iterator, s)
      | Some (tk, pk) \<Rightarrow> (case r_rows s tk pk of None \<Rightarrow> (Inl no_iterator, s) | Some data \<Rightarrow> f tk pk data s))"

definition on_sec :: "skind \<Rightarrow> int \<Rightarrow> (tkey \<Rightarrow> 64 word \<Rightarrow> quad \<Rightarrow> (ref_st, 'a) act) \<Rightarrow> (ref_st, 'a) act" where
  "on_sec k i f s =
     (case slot (r_srefs s k) i of None \<Rightarrow> (Inl no_iterator, s)
      | Some (tk, pk) \<Rightarrow> (case r_secs s k tk pk of None \<Rightarrow> (Inl no_iterator, s) | Some w \<Rightarrow> f tk pk w s))"

definition mine :: "64 word \<Rightarrow> tkey \<Rightarrow> ref_st \<Rightarrow> (ref_st, unit) act" where
  "mine me tk s' s = (if fst tk = me then (Inr (), s') else (Inl no_iterator, s))"

definition ref_sec :: "64 word \<Rightarrow> skind \<Rightarrow> ('k \<Rightarrow> quad) \<Rightarrow> (quad \<Rightarrow> 'k) \<Rightarrow> ('k, ref_st) sec_api" where
  "ref_sec me k q uq =
     \<lparr>sec_store = \<lambda>scope tab pyr pk key s.
        (if r_secs s k (me, scope, tab) pk = None
         then map_prod Inr (put_sec k (me, scope, tab) pk (Some (q key))) (hand_out_sec k (me, scope, tab) pk s)
         else (Inl no_iterator, s)),
      sec_update = \<lambda>i pyr key s. on_sec k i (\<lambda>tk pk w. mine me tk (put_sec k tk pk (Some (q key)) s)) s,
      sec_remove = \<lambda>i s. on_sec k i (\<lambda>tk pk w. mine me tk (put_sec k tk pk None s)) s,
      sec_find_primary = \<lambda>c sc t pk s. (case r_secs s k (c, sc, t) pk of None \<Rightarrow> (Inr (- 1, None), s)
         | Some w \<Rightarrow> map_prod (\<lambda>i. Inr (i, Some (uq w))) id (hand_out_sec k (c, sc, t) pk s)),
      sec_find_secondary = \<lambda>c sc t key s.
         (case least_key (entries s k (c, sc, t)) (\<lambda>j. entries s k (c, sc, t) j = Some (shape k (q key))) of
            None \<Rightarrow> (Inr (- 1, None), s)
          | Some pk \<Rightarrow> map_prod (\<lambda>i. Inr (i, Some pk)) id (hand_out_sec k (c, sc, t) pk s)),
      sec_lowerbound = \<lambda>c sc t key. fail no_iterator, sec_upperbound = \<lambda>c sc t key. fail no_iterator,
      sec_next = \<lambda>i. fail no_iterator, sec_previous = \<lambda>i. fail no_iterator\<rparr>"

definition ref_api :: "64 word \<Rightarrow> ref_st chain_api" where
  "ref_api me =
     \<lparr>db_store = \<lambda>scope tab pyr pk data s.
        (if r_rows s (me, scope, tab) pk = None
         then map_prod Inr (put_row (me, scope, tab) pk (Some data)) (hand_out (me, scope, tab) pk s)
         else (Inl no_iterator, s)),
      db_update = \<lambda>i pyr data s. on_row i (\<lambda>tk pk old. mine me tk (put_row tk pk (Some data) s)) s,
      db_remove = \<lambda>i s. on_row i (\<lambda>tk pk old. mine me tk (put_row tk pk None s)) s,
      db_get = \<lambda>i n. on_row i (\<lambda>tk pk data. ret (length data, take n data)),
      db_find = \<lambda>c sc t pk s. map_prod Inr id (point (c, sc, t) (least_key (r_rows s (c, sc, t)) (\<lambda>j. j = pk)) s),
      db_lowerbound = \<lambda>c sc t pk s. map_prod Inr id (point (c, sc, t) (least_key (r_rows s (c, sc, t)) (\<lambda>j. pk \<le> j)) s),
      db_upperbound = \<lambda>c sc t pk s. map_prod Inr id (point (c, sc, t) (least_key (r_rows s (c, sc, t)) (\<lambda>j. pk < j)) s),
      db_end = \<lambda>c sc t s. map_prod Inr id (end_of (c, sc, t) s),
      db_next = \<lambda>i. on_row i (\<lambda>tk pk data s. map_prod (\<lambda>j. Inr (j, least_key (r_rows s tk) (\<lambda>k. pk < k))) id
         (point tk (least_key (r_rows s tk) (\<lambda>k. pk < k)) s)),
      db_previous = \<lambda>i. if i < 0
         then (\<lambda>s. case slot (r_ends s) (- 2 - i) of None \<Rightarrow> (Inl no_iterator, s)
            | Some tk \<Rightarrow> map_prod (\<lambda>j. Inr (j, greatest_key (r_rows s tk) (\<lambda>k. True))) id
               (point tk (greatest_key (r_rows s tk) (\<lambda>k. True)) s))
         else on_row i (\<lambda>tk pk data s. map_prod (\<lambda>j. Inr (j, greatest_key (r_rows s tk) (\<lambda>k. k < pk))) id
           (case greatest_key (r_rows s tk) (\<lambda>k. k < pk) of None \<Rightarrow> (- 1, s) | Some k \<Rightarrow> hand_out tk k s)),
      keyval_primary = \<lambda>i. on_row i (\<lambda>tk pk data. ret pk),
      idx64 = ref_sec me S64 quad64 key64, idx128 = ref_sec me S128 quad128 key128, idx256 = ref_sec me S256 quad256 key256\<rparr>"

section \<open>It has the laws\<close>

lemma ref_view_sel [simp]:
  "receiver (ref_view me) = me" "rows (ref_view me) = r_rows" "refs (ref_view me) s = slot (r_refs s)"
  "ends (ref_view me) s = (\<lambda>i. slot (r_ends s) (- 2 - i))" "secs (ref_view me) = entries"
  "srefs (ref_view me) s k = slot (r_srefs s k)"
  by (simp_all add: ref_view_def)

lemma entries_put [simp]:
  "entries (put_sec k tk pk r s) = (entries s)(k := (entries s k)(tk := (entries s k tk)(pk := map_option (shape k) r)))"
  "entries (put_row tk pk d s) = entries s"
  by (auto simp: fun_eq_iff entries_def put_sec_def put_row_def)

lemma map_le_slot: "(\<lambda>i. slot xs (f i)) \<subseteq>\<^sub>m (\<lambda>i. slot (enter x xs) (f i))"
  by (auto simp: map_le_def slot_enter)

lemma handed [simp]:
  "hand_out tk pk s = (i, s') \<Longrightarrow> 0 \<le> i \<and> slot (r_refs s') i = Some (tk, pk) \<and> quiet (ref_view me) s s'"
  "hand_out_sec k tk pk s = (i, s') \<Longrightarrow> 0 \<le> i \<and> slot (r_srefs s' k) i = Some (tk, pk) \<and> quiet (ref_view me) s s'"
  by (auto simp: hand_out_def hand_out_sec_def quiet_def grows_def slot_enter_le entries_def fun_eq_iff map_le_slot)

lemma ended:
  assumes "end_of tk s = (i, s')"
  shows "quiet (ref_view me) s s'" "if r_rows s tk = Map.empty then i = - 1 else i < - 1 \<and> slot (r_ends s') (- 2 - i) = Some tk"
  using assms
  by (auto simp: end_of_def quiet_def grows_def map_le_slot entries_def fun_eq_iff split: if_splits)

lemma pointed: "point tk r s = (i, s') \<Longrightarrow> quiet (ref_view me) s s' \<and> found (ref_view me) tk r i s'"
  using ended(1) [of tk s i s' me] ended(2) [of tk s i s'] handed(1) [of tk "the r" s i s' me]
  by (cases r) (auto simp: point_def found_def split: if_splits)

lemma ref_reads: "reads_ok (ref_view me) (ref_api me)"
proof -
  have p: "\<exists>i s'. map_prod Inr id (point tk r s) = (Inr i, s') \<and> quiet (ref_view me) s s' \<and> found (ref_view me) tk r i s'"
    for tk r s using pointed [of tk r s "fst (point tk r s)" "snd (point tk r s)" me] by (auto simp: map_prod_def split: prod.splits)
  have e: "\<exists>i s'. map_prod Inr id (end_of tk s) = (Inr i, s') \<and> quiet (ref_view me) s s' \<and>
      (if r_rows s tk = Map.empty then i = - 1 else i < - 1 \<and> slot (r_ends s') (- 2 - i) = Some tk)" for tk s
  proof -
    obtain i s' where "end_of tk s = (i, s')" by fastforce
    with ended [OF this] show ?thesis by (intro exI [of _ i] exI [of _ s']) simp
  qed
  have "\<exists>i s'. db_end (ref_api me) c sc t s = (Inr i, s') \<and> quiet (ref_view me) s s' \<and>
      (if rows (ref_view me) s (c, sc, t) = Map.empty then i = - 1 else i < - 1 \<and> ends (ref_view me) s' i = Some (c, sc, t))" for c sc t s
    using e [of "(c, sc, t)" s] unfolding ref_view_sel by (simp only: ref_api_def chain_api.simps)
  then show ?thesis unfolding reads_ok_def using p by (auto simp: ref_api_def)
qed

lemma ref_moves: "moves_ok (ref_view me) (ref_api me)"
proof -
  have p: "\<exists>i s'. map_prod (\<lambda>j. Inr (j, x)) id (point tk r s) = (Inr (i, x), s') \<and> quiet (ref_view me) s s' \<and> found (ref_view me) tk r i s'"
    for tk r s x using pointed [of tk r s "fst (point tk r s)" "snd (point tk r s)" me] by (auto simp: map_prod_def split: prod.splits)
  have h: "\<exists>i s'. map_prod (\<lambda>j. Inr (j, x)) id (case r of None \<Rightarrow> (- 1, s) | Some k \<Rightarrow> hand_out tk k s) = (Inr (i, x), s') \<and>
      quiet (ref_view me) s s' \<and> found (ref_view me) tk r i s'" for tk r s x
    using handed(1) [of tk "the r" s "fst (hand_out tk (the r) s)" "snd (hand_out tk (the r) s)" me]
    by (auto simp: found_def map_prod_def split: option.splits prod.splits)
  show ?thesis unfolding moves_ok_def ref_api_def using p h by (auto simp: on_row_def ret_def)
qed

lemma ref_moves_from: "moves_from (ref_view me) (ref_api me)"
  unfolding moves_from_def ref_api_def by (auto simp: on_row_def dest: slot_nonneg split: option.splits if_splits)

lemma put_row_set: "quiet (ref_view me) s s1 \<Longrightarrow> set_row (ref_view me) s tk pk r (put_row tk pk r s1)"
  by (rule quiet_set_row, assumption) (simp add: set_row_def, simp add: grows_def put_row_def)

lemma on_row_Inr: "on_row i f s = (Inr x, s') \<Longrightarrow>
    \<exists>tk pk data. 0 \<le> i \<and> slot (r_refs s) i = Some (tk, pk) \<and> r_rows s tk pk = Some data \<and> f tk pk data s = (Inr x, s')"
  by (auto simp: on_row_def dest: slot_nonneg split: option.splits)

lemma mine_Inr [simp]: "mine me tk s1 s = (Inr (), s') \<longleftrightarrow> fst tk = me \<and> s' = s1"
  by (auto simp: mine_def)

lemma ref_writes: "writes_ok (ref_view me) (ref_api me)"
  unfolding writes_ok_def ref_view_sel
proof (intro conjI allI impI)
  fix scope tab pyr pk data s i s'
  assume a: "db_store (ref_api me) scope tab pyr pk data s = (Inr i, s')"
  obtain s1 where s1: "hand_out (me, scope, tab) pk s = (i, s1)" "s' = put_row (me, scope, tab) pk (Some data) s1"
      "r_rows s (me, scope, tab) pk = None"
    using a by (cases "hand_out (me, scope, tab) pk s") (auto simp: ref_api_def split: if_splits)
  note h = handed(1) [OF s1(1), of me]
  show "r_rows s (me, scope, tab) pk = None" "set_row (ref_view me) s (me, scope, tab) pk (Some data) s'" "0 \<le> i"
    "slot (r_refs s') i = Some ((me, scope, tab), pk)"
    using s1(3) h put_row_set [of me s s1] unfolding s1(2) by (simp_all add: put_row_def [of _ _ _ s1] del: ref_view_sel)
next
  fix i pyr data s s' assume "db_update (ref_api me) i pyr data s = (Inr (), s')"
  then have "on_row i (\<lambda>tk pk old. mine me tk (put_row tk pk (Some data) s)) s = (Inr (), s')" by (simp add: ref_api_def)
  from on_row_Inr [OF this] show "\<exists>tk pk. 0 \<le> i \<and> slot (r_refs s) i = Some (tk, pk) \<and> fst tk = me \<and> r_rows s tk pk \<noteq> None \<and>
      set_row (ref_view me) s tk pk (Some data) s'"
    using put_row_set [OF quiet_refl, of me s] by fastforce
next
  fix i s s' assume "db_remove (ref_api me) i s = (Inr (), s')"
  then have "on_row i (\<lambda>tk pk old. mine me tk (put_row tk pk None s)) s = (Inr (), s')" by (simp add: ref_api_def)
  from on_row_Inr [OF this] show "\<exists>tk pk. 0 \<le> i \<and> slot (r_refs s) i = Some (tk, pk) \<and> fst tk = me \<and> r_rows s tk pk \<noteq> None \<and>
      set_row (ref_view me) s tk pk None s'"
    using put_row_set [OF quiet_refl, of me s] by fastforce
qed

lemma ref_sec_writes:
  assumes "\<And>key. shape k (q key) = ws key"
  shows "sec_store (ref_sec me k q uq) scope tab pyr pk key s = (Inr i, s') \<Longrightarrow>
      entries s k (me, scope, tab) pk = None \<and> set_sec (ref_view me) s k (me, scope, tab) pk (Some (ws key)) s'"
    and "sec_update (ref_sec me k q uq) i pyr key s = (Inr (), s') \<Longrightarrow>
      (\<exists>tk pk. slot (r_srefs s k) i = Some (tk, pk) \<and> fst tk = me \<and> entries s k tk pk \<noteq> None \<and>
         set_sec (ref_view me) s k tk pk (Some (ws key)) s')"
    and "sec_remove (ref_sec me k q uq) i s = (Inr (), s') \<Longrightarrow>
      (\<exists>tk pk. slot (r_srefs s k) i = Some (tk, pk) \<and> fst tk = me \<and> entries s k tk pk \<noteq> None \<and>
         set_sec (ref_view me) s k tk pk None s')"
proof -
  have g: "grows (ref_view me) s (put_sec k tk pk r s)" "r_rows (put_sec k tk pk r s) = r_rows s" for tk pk r s
    by (simp_all add: grows_def put_sec_def)
  show "sec_store (ref_sec me k q uq) scope tab pyr pk key s = (Inr i, s') \<Longrightarrow>
      entries s k (me, scope, tab) pk = None \<and> set_sec (ref_view me) s k (me, scope, tab) pk (Some (ws key)) s'"
    by (auto simp: ref_sec_def hand_out_sec_def put_sec_def set_sec_def grows_def entries_def fun_eq_iff slot_enter_le assms
      split: if_splits) (metis assms prod_cases4)
  show "sec_update (ref_sec me k q uq) i pyr key s = (Inr (), s') \<Longrightarrow>
      (\<exists>tk pk. slot (r_srefs s k) i = Some (tk, pk) \<and> fst tk = me \<and> entries s k tk pk \<noteq> None \<and>
         set_sec (ref_view me) s k tk pk (Some (ws key)) s')"
    by (simp add: ref_sec_def on_sec_def mine_def set_sec_def g assms split: option.splits prod.splits if_splits)
      (auto simp: entries_def g assms)
  show "sec_remove (ref_sec me k q uq) i s = (Inr (), s') \<Longrightarrow>
      (\<exists>tk pk. slot (r_srefs s k) i = Some (tk, pk) \<and> fst tk = me \<and> entries s k tk pk \<noteq> None \<and>
         set_sec (ref_view me) s k tk pk None s')"
    by (simp add: ref_sec_def on_sec_def mine_def set_sec_def g split: option.splits prod.splits if_splits)
      (auto simp: entries_def g assms)
qed

lemma slot_neg [simp]: "n < 0 \<Longrightarrow> slot xs n = None"
  by (simp add: slot_def)

lemma ref_sec_reads:
  assumes "\<And>x. ws (uq x) = shape k x" "\<And>key. shape k (q key) = ws key"
  shows "\<exists>i r s'. sec_find_primary (ref_sec me k q uq) c sc t pk s = (Inr (i, r), s') \<and> quiet (ref_view me) s s' \<and>
        map_option ws r = entries s k (c, sc, t) pk \<and>
        (if r = None then slot (r_srefs s' k) i = None else slot (r_srefs s' k) i = Some ((c, sc, t), pk))"
    and "\<exists>i s'. sec_find_secondary (ref_sec me k q uq) c sc t key s =
           (Inr (i, least_key (entries s k (c, sc, t)) (\<lambda>j. entries s k (c, sc, t) j = Some (ws key))), s') \<and> quiet (ref_view me) s s' \<and>
        (least_key (entries s k (c, sc, t)) (\<lambda>j. entries s k (c, sc, t) j = Some (ws key)) = None \<longleftrightarrow> i < 0)"
proof -
  have h: "\<exists>i s'. map_prod (\<lambda>i. Inr (i, x) :: js_error + _) id (hand_out_sec k tk pk s) = (Inr (i, x), s') \<and> 0 \<le> i \<and> slot (r_srefs s' k) i = Some (tk, pk) \<and>
     quiet (ref_view me) s s'" for tk pk x
    using handed(2) [of k tk pk s "fst (hand_out_sec k tk pk s)" "snd (hand_out_sec k tk pk s)" me]
    by (auto simp: map_prod_def split: prod.splits)
  show "\<exists>i r s'. sec_find_primary (ref_sec me k q uq) c sc t pk s = (Inr (i, r), s') \<and> quiet (ref_view me) s s' \<and>
        map_option ws r = entries s k (c, sc, t) pk \<and>
        (if r = None then slot (r_srefs s' k) i = None else slot (r_srefs s' k) i = Some ((c, sc, t), pk))"
  proof (cases "r_secs s k (c, sc, t) pk")
    case None
    then show ?thesis by (intro exI [of _ "- 1"] exI [of _ None] exI [of _ s]) (simp add: ref_sec_def entries_def)
  next
    case (Some w)
    show ?thesis
    proof -
      obtain i s' where i: "map_prod (\<lambda>i. Inr (i, Some (uq w)) :: js_error + _) id (hand_out_sec k (c, sc, t) pk s) = (Inr (i, Some (uq w)), s')"
          "slot (r_srefs s' k) i = Some ((c, sc, t), pk)" "quiet (ref_view me) s s'"
        using h [of "Some (uq w)" "(c, sc, t)" pk] by blast
      then show ?thesis
        using Some by (intro exI [of _ i] exI [of _ "Some (uq w)"] exI [of _ s']) (simp add: ref_sec_def entries_def assms)
    qed
  qed
  show "\<exists>i s'. sec_find_secondary (ref_sec me k q uq) c sc t key s =
           (Inr (i, least_key (entries s k (c, sc, t)) (\<lambda>j. entries s k (c, sc, t) j = Some (ws key))), s') \<and> quiet (ref_view me) s s' \<and>
        (least_key (entries s k (c, sc, t)) (\<lambda>j. entries s k (c, sc, t) j = Some (ws key)) = None \<longleftrightarrow> i < 0)"
  proof (cases "least_key (entries s k (c, sc, t)) (\<lambda>j. entries s k (c, sc, t) j = Some (ws key))")
    case None
    then show ?thesis by (intro exI [of _ "- 1"] exI [of _ s]) (simp add: ref_sec_def assms)
  next
    case (Some pk)
    then show ?thesis using h [of "Some pk" "(c, sc, t)" pk] by (simp add: ref_sec_def assms) (metis linorder_not_less)
  qed
qed

lemma ref_sec_ok:
  assumes "\<And>x. ws (uq x) = shape k x" "\<And>key. shape k (q key) = ws key"
  shows "sec_ok (ref_view me) k ws (ref_sec me k q uq)"
  unfolding sec_ok_def ref_view_sel using ref_sec_writes [of k q ws, OF assms(2)] ref_sec_reads [of ws uq k q, OF assms]
  by (intro conjI allI impI; (blast | simp add: ref_sec_def))

lemma ref_ok: "chain_ok (ref_view me) (ref_api me)"
proof -
  have "sec_ok (ref_view me) S64 (\<lambda>k. [k]) (ref_sec me S64 quad64 key64)"
    by (rule ref_sec_ok) (auto simp: quad64_def)
  moreover have "sec_ok (ref_view me) S128 words128 (ref_sec me S128 quad128 key128)"
    by (rule ref_sec_ok) (auto simp: quad128_def words128_def)
  moreover have "sec_ok (ref_view me) S256 words256 (ref_sec me S256 quad256 key256)"
    by (rule ref_sec_ok) (auto simp: quad256_def words256_def words128_def)
  ultimately show ?thesis
    by (simp add: chain_ok_def ref_writes ref_reads ref_moves ref_moves_from) (simp add: ref_api_def)
qed

end
