(* ===== verification/Js_Iterator.thy ===== *)
theory Js_Iterator
  imports Js_Table Chain_Ref
begin

text \<open>
  Iterators over a table and its indexes: \<^verbatim>\<open>src/js_contract/src/DBIterator.cpp\<close> (\<open>load\<close> is
  \<open>iter_load\<close> of Js_Table).  An iterator whose index iterator is -1 walks the rows by number.

  The properties walk a table: from \<open>begin\<close> the rows come in the order of their numbers, each
  once, and then the end; the way back from the end starts in another table when the table was
  not the first one the action looked at.
\<close>

section \<open>Operations\<close>

definition is_begin :: "'e contract_scheme \<Rightarrow> 's chain_api \<Rightarrow> db_iter \<Rightarrow> ('s, bool) act" where
  "is_begin c api it =
     (if now_context c
      then (let t = it_table it in
        if it_idx_itr it = - 1
        then bind_act (db_lowerbound api (t_code t) (t_scope t) (def_name (t_def t)) 0) (\<lambda>itr. ret (it_itr it = itr))
        else (case it_index it of
                None \<Rightarrow> fail (Thrown Other_exception)
              | Some ix \<Rightarrow> bind_act (index_lowerbound api ix (replicate 4 0)) (\<lambda>(itr, _). ret (it_idx_itr it = itr))))
      else ret False)"

definition is_end :: "db_iter \<Rightarrow> bool" where
  "is_end it = (if it_idx_itr it = - 1 then it_itr it < 0 else it_idx_itr it < 0)"

text \<open>The number is -1 when the chain did not write one.\<close>

definition written :: "64 word option \<Rightarrow> 64 word" where
  "written r = (case r of None \<Rightarrow> - 1 | Some pk \<Rightarrow> pk)"

definition iter_next :: "'e contract_scheme \<Rightarrow> 's chain_api \<Rightarrow> db_iter \<Rightarrow> ('s, db_iter option) act" where
  "iter_next c api it = when_acting c (try_chain
     (if it_idx_itr it = - 1
      then bind_act (db_next api (it_itr it)) (\<lambda>(itr, r).
             table_get_at c api (it_table it) itr (if itr < 0 then - 1 else written r) (- 1) None)
      else (case it_index it of
              None \<Rightarrow> fail (Thrown Other_exception)
            | Some ix \<Rightarrow> bind_act (index_next api ix (it_idx_itr it)) (\<lambda>(itr, r).
                table_get c api (it_table it) (written r) itr (Some ix)))))"

definition iter_previous :: "'e contract_scheme \<Rightarrow> 's chain_api \<Rightarrow> db_iter \<Rightarrow> ('s, db_iter option) act" where
  "iter_previous c api it = when_acting c (try_chain
     (if it_idx_itr it = - 1
      then bind_act (db_previous api (it_itr it)) (\<lambda>(itr, r).
             table_get_at c api (it_table it) itr (written r) (- 1) None)
      else (case it_index it of
              None \<Rightarrow> fail (Thrown Other_exception)
            | Some ix \<Rightarrow> bind_act (index_previous api ix (it_idx_itr it)) (\<lambda>(itr, r).
                table_get c api (it_table it) (written r) itr (Some ix)))))"

definition iter_remove :: "'e contract_scheme \<Rightarrow> 's chain_api \<Rightarrow> db_iter \<Rightarrow> ('s, unit) act" where
  "iter_remove c api it =
     (if now_context c
      then try_chain (bind_act (db_remove api (it_itr it)) (\<lambda>_. remove_index api (it_table it) (it_id it)))
      else ret ())"

definition iter_update :: "'e contract_scheme \<Rightarrow> 's chain_api \<Rightarrow> db_iter \<Rightarrow> string \<Rightarrow> ('s, unit) act" where
  "iter_update c api it payer =
     (if now_context c
      then bind_act (lift_sum (string_to_name c payer)) (\<lambda>pyr.
           try_fc (bind_act (lift_sum (variant_to_binary c (def_type (t_def (it_table it))) (fc_value (it_data it)))) (\<lambda>data.
             bind_act (db_update api (it_itr it) pyr data) (\<lambda>_.
               update_index c api (it_table it) pyr (it_id it) (it_data it)))))
      else ret ())"

text \<open>\<open>get_data\<close> hands out the row's object, \<open>set_data\<close> sets the properties of another one in
  it; a row is an object.\<close>

definition get_data :: "db_iter \<Rightarrow> jsv" where
  "get_data it = it_data it"

definition set_data :: "jsv \<Rightarrow> db_iter \<Rightarrow> js_error + db_iter" where
  "set_data newVal it =
     (case it_data it of
        JUndefined \<Rightarrow> Inl (Set_error ''data is undefined'')
      | JObject kvs \<Rightarrow>
          Inr (it\<lparr>it_data := JObject (foldl (\<lambda>obj k. AList.update k (get_prop newVal k) obj) kvs
             (case newVal of JObject new \<Rightarrow> map fst new | _ \<Rightarrow> []))\<rparr>)
      | _ \<Rightarrow> Inr it)"

section \<open>Where a search ends\<close>

definition table_key :: "table \<Rightarrow> tkey" where
  "table_key t = (t_code t, t_scope t, def_name (t_def t))"

definition row_value :: "'e contract_scheme \<Rightarrow> table \<Rightarrow> 8 word list \<Rightarrow> js_error + jsv" where
  "row_value c t data = map_sum id (js_value (new_string c)) (binary_to_variant c (def_type (t_def t)) data)"

lemma grows_refs: "grows V s s' \<Longrightarrow> refs V s i = Some x \<Longrightarrow> refs V s' i = Some x"
  unfolding grows_def map_le_def by (metis domI)

lemma quiet_keeps:
  "quiet V s s' \<Longrightarrow> rows V s' = rows V s" "quiet V s s' \<Longrightarrow> secs V s' = secs V s"
  "quiet V s s' \<Longrightarrow> refs V s i = Some x \<Longrightarrow> refs V s' i = Some x"
  by (auto simp: quiet_def dest: grows_refs)

lemma chain_reads:
  assumes "chain_ok V api"
  shows "\<exists>i s'. db_find api cd sc tn pk s = (Inr i, s') \<and> quiet V s s' \<and>
        found V (cd, sc, tn) (least_key (rows V s (cd, sc, tn)) (\<lambda>j. j = pk)) i s'"
    and "\<exists>i s'. db_lowerbound api cd sc tn pk s = (Inr i, s') \<and> quiet V s s' \<and>
        found V (cd, sc, tn) (least_key (rows V s (cd, sc, tn)) (\<lambda>j. pk \<le> j)) i s'"
    and "\<exists>i s'. db_upperbound api cd sc tn pk s = (Inr i, s') \<and> quiet V s s' \<and>
        found V (cd, sc, tn) (least_key (rows V s (cd, sc, tn)) (\<lambda>j. pk < j)) i s'"
    and "\<exists>i s'. db_end api cd sc tn s = (Inr i, s') \<and> quiet V s s' \<and>
        (if rows V s (cd, sc, tn) = Map.empty then i = - 1 else i < - 1 \<and> ends V s' i = Some (cd, sc, tn))"
  using assms unfolding chain_ok_def reads_ok_def by blast+

lemma chain_moves:
  assumes "chain_ok V api" "refs V s i = Some (tk, pk)" "0 \<le> i" "rows V s tk pk = Some data"
  shows "\<exists>j s'. db_next api i s = (Inr (j, least_key (rows V s tk) (\<lambda>k. pk < k)), s') \<and> quiet V s s' \<and>
      found V tk (least_key (rows V s tk) (\<lambda>k. pk < k)) j s'"
    and "\<exists>j s'. db_previous api i s = (Inr (j, greatest_key (rows V s tk) (\<lambda>k. k < pk)), s') \<and> quiet V s s' \<and>
      found V tk (greatest_key (rows V s tk) (\<lambda>k. k < pk)) j s'"
    and "\<exists>s'. keyval_primary api i s = (Inr pk, s') \<and> quiet V s s'"
    and "\<exists>s'. db_get api i n s = (Inr (length data, take n data), s') \<and> quiet V s s'"
proof -
  have ne: "rows V s tk pk \<noteq> None" "the (rows V s tk pk) = data" using assms(4) by simp_all
  note m = assms(1) [unfolded chain_ok_def moves_ok_def, THEN conjunct2, THEN conjunct2, THEN conjunct1, THEN conjunct1,
      rule_format, OF assms(2,3) ne(1)]
  show "\<exists>j s'. db_next api i s = (Inr (j, least_key (rows V s tk) (\<lambda>k. pk < k)), s') \<and> quiet V s s' \<and>
      found V tk (least_key (rows V s tk) (\<lambda>k. pk < k)) j s'" using m by blast
  show "\<exists>j s'. db_previous api i s = (Inr (j, greatest_key (rows V s tk) (\<lambda>k. k < pk)), s') \<and> quiet V s s' \<and>
      found V tk (greatest_key (rows V s tk) (\<lambda>k. k < pk)) j s'" using m by blast
  show "\<exists>s'. keyval_primary api i s = (Inr pk, s') \<and> quiet V s s'" using m by blast
  show "\<exists>s'. db_get api i n s = (Inr (length data, take n data), s') \<and> quiet V s s'" using m ne(2) by metis
qed

lemma chain_previous_end:
  assumes "chain_ok V api" "ends V s i = Some tk" "i < - 1"
  shows "\<exists>j s'. db_previous api i s = (Inr (j, greatest_key (rows V s tk) (\<lambda>k. True)), s') \<and> quiet V s s' \<and>
      found V tk (greatest_key (rows V s tk) (\<lambda>k. True)) j s'"
  using assms(1) [unfolded chain_ok_def moves_ok_def, THEN conjunct2, THEN conjunct2, THEN conjunct1, THEN conjunct2,
      rule_format, OF assms(2,3)] .

lemma least_key_Some: "least_key m P = Some (pk :: 64 word) \<Longrightarrow> P pk \<and> (\<exists>x. m pk = Some x) \<and> (\<forall>j. P j \<longrightarrow> m j \<noteq> None \<longrightarrow> pk \<le> j)"
  using Min_in [of "{j \<in> dom m. P j}"] by (auto simp: least_key_def intro: Min_le split: if_splits)

lemma greatest_key_Some:
  "greatest_key m P = Some (pk :: 64 word) \<Longrightarrow> P pk \<and> (\<exists>x. m pk = Some x) \<and> (\<forall>j. P j \<longrightarrow> m j \<noteq> None \<longrightarrow> j \<le> pk)"
  using Max_in [of "{j \<in> dom m. P j}"] by (auto simp: greatest_key_def intro: Max_ge split: if_splits)

lemma least_key_None: "least_key m P = None \<longleftrightarrow> (\<forall>j. P j \<longrightarrow> m j = None)"
  by (auto simp: least_key_def)

text \<open>The iterator stands on row \<open>pk\<close> of its table, which reads as \<open>v\<close>.\<close>

definition stands_on :: "'s view \<Rightarrow> 's \<Rightarrow> db_iter \<Rightarrow> 64 word \<Rightarrow> jsv \<Rightarrow> bool" where
  "stands_on V s it pk v \<longleftrightarrow> it_idx_itr it = - 1 \<and> 0 \<le> it_itr it \<and> refs V s (it_itr it) = Some (table_key (it_table it), pk) \<and>
     it_id it = pk \<and> it_data it = v"

lemma read_row_ok:
  assumes "chain_ok V api" "refs V s i = Some (tk, pk)" "0 \<le> i" "rows V s tk pk = Some data"
  shows "\<exists>s'. read_row api i s = (Inr data, s') \<and> quiet V s s'"
proof -
  obtain s1 where s1: "db_get api i 0 s = (Inr (length data, take 0 data), s1)" "quiet V s s1"
    using chain_moves(4) [OF assms] by blast
  have "refs V s1 i = Some (tk, pk)" "rows V s1 tk pk = Some data"
    using s1(2) assms(2,4) by (simp_all add: quiet_keeps)
  then obtain s2 where s2: "db_get api i (length data) s1 = (Inr (length data, take (length data) data), s2)" "quiet V s1 s2"
    using chain_moves(4) [OF assms(1) _ assms(3)] by blast
  show ?thesis using s1 s2 quiet_trans [OF s1(2) s2(2)] by (simp add: read_row_def bind_act_def ret_def)
qed

text \<open>An iterator object for a row of any table: the row is read with the type of \<open>t\<close>.\<close>

lemma table_get_at_row:
  assumes "chain_ok V api" "now_context c" "refs V s i = Some (tk, pk')" "0 \<le> i" "rows V s tk pk' = Some data"
    "row_value c t data = Inr v"
  shows "\<exists>s'. table_get_at c api t i pk idx_itr idx s = (Inr \<lparr>it_table = t, it_id = pk', it_itr = i, it_idx_itr = idx_itr,
      it_index = idx, it_data = v\<rparr>, s') \<and> quiet V s s'"
proof -
  obtain s1 where s1: "keyval_primary api i s = (Inr pk', s1)" "quiet V s s1"
    using chain_moves(3) [OF assms(1,3-5)] by blast
  have "refs V s1 i = Some (tk, pk')" "rows V s1 tk pk' = Some data"
    using s1(2) assms(3,5) by (simp_all add: quiet_keeps)
  then obtain s2 where s2: "read_row api i s1 = (Inr data, s2)" "quiet V s1 s2"
    using read_row_ok [OF assms(1) _ assms(4)] by blast
  obtain x where x: "binary_to_variant c (def_type (t_def t)) data = Inr x" "js_value (new_string c) x = v"
    using assms(6) by (auto simp: row_value_def map_sum_def split: sum.splits)
  show ?thesis
    using s1 s2 x assms(2,4) quiet_trans [OF s1(2) s2(2)]
    by (simp add: table_get_at_def iter_load_def bind_act_def try_fc_def try_chain_def ret_def lift_sum_def)
qed

lemma table_get_at_none:
  "i < 0 \<Longrightarrow> table_get_at c api t i pk idx_itr idx s =
     (Inr \<lparr>it_table = t, it_id = pk, it_itr = i, it_idx_itr = idx_itr, it_index = idx, it_data = JUndefined\<rparr>, s)"
  by (simp add: table_get_at_def iter_load_def bind_act_def try_fc_def ret_def)

section \<open>Cursors\<close>

text \<open>The rows of a table as JavaScript sees them; a state is readable for a table when each row
  has the table's type.\<close>

definition table_rows :: "'s view \<Rightarrow> 'e contract_scheme \<Rightarrow> table \<Rightarrow> 's \<Rightarrow> 64 word \<rightharpoonup> jsv" where
  "table_rows V c t s pk = (case rows V s (table_key t) pk of None \<Rightarrow> None
     | Some data \<Rightarrow> (case row_value c t data of Inl e \<Rightarrow> None | Inr v \<Rightarrow> Some v))"

definition readable :: "'s view \<Rightarrow> 'e contract_scheme \<Rightarrow> table \<Rightarrow> 's \<Rightarrow> bool" where
  "readable V c t s \<longleftrightarrow> dom (table_rows V c t s) = dom (rows V s (table_key t))"

text \<open>\<open>cursor V c t s r it\<close>: the iterator stands on row \<open>r\<close> of \<open>t\<close>, or past the end.\<close>

definition cursor :: "'s view \<Rightarrow> 'e contract_scheme \<Rightarrow> table \<Rightarrow> 's \<Rightarrow> 64 word option \<Rightarrow> db_iter \<Rightarrow> bool" where
  "cursor V c t s r it \<longleftrightarrow> it_table it = t \<and> it_idx_itr it = - 1 \<and>
     (case r of None \<Rightarrow> it_itr it < 0
      | Some pk \<Rightarrow> 0 \<le> it_itr it \<and> refs V s (it_itr it) = Some (table_key t, pk) \<and> it_id it = pk \<and>
          table_rows V c t s pk = Some (it_data it))"

lemma readableD: "readable V c t s \<Longrightarrow> rows V s (table_key t) pk = Some data \<Longrightarrow> \<exists>v. row_value c t data = Inr v"
  unfolding readable_def by (cases "row_value c t data") (auto simp: table_rows_def dom_def set_eq_iff split: option.splits dest!: spec [of _ pk])

lemma quiet_rows: "quiet V s s' \<Longrightarrow> table_rows V c t s' = table_rows V c t s"
  "quiet V s s' \<Longrightarrow> readable V c t s' = readable V c t s"
  by (simp_all add: quiet_def table_rows_def [abs_def] readable_def)

lemma least_key_dom: "dom m = dom m' \<Longrightarrow> least_key m P = least_key m' P" "dom m = dom m' \<Longrightarrow> greatest_key m P = greatest_key m' P"
  by (simp_all add: least_key_def greatest_key_def)

lemma cursor_is_end: "cursor V c t s r it \<Longrightarrow> is_end it \<longleftrightarrow> r = None"
  by (auto simp: cursor_def is_end_def split: option.splits)

lemma get_at_cursor:
  assumes "chain_ok V api" "now_context c" "readable V c t s" "found V (table_key t) r i s"
    "\<And>pk'. r = Some pk' \<Longrightarrow> rows V s (table_key t) pk' \<noteq> None" "j = i \<or> i < 0 \<and> j < 0"
  shows "\<exists>it s'. table_get_at c api t j pk (- 1) None s = (Inr it, s') \<and> quiet V s s' \<and> cursor V c t s' r it"
proof (cases r)
  case None
  then show ?thesis using assms(4,6) by (auto simp: found_def table_get_at_none cursor_def)
next
  case (Some pk')
  then obtain data where d: "rows V s (table_key t) pk' = Some data" using assms(5) by blast
  then obtain v where v: "row_value c t data = Inr v" using readableD [OF assms(3)] by blast
  have i: "refs V s i = Some (table_key t, pk')" "0 \<le> i" "j = i" using assms(4,6) Some by (auto simp: found_def)
  obtain s' where s': "table_get_at c api t i pk (- 1) None s = (Inr \<lparr>it_table = t, it_id = pk', it_itr = i, it_idx_itr = - 1,
      it_index = None, it_data = v\<rparr>, s')" "quiet V s s'"
    using table_get_at_row [OF assms(1,2) i(1,2) d v] by blast
  have "table_rows V c t s' pk' = Some v" using quiet_keeps(1) [OF s'(2)] d v by (simp add: table_rows_def)
  then show ?thesis using s' i Some quiet_keeps(3) [OF s'(2) i(1)] by (simp add: cursor_def)
qed

lemma least_there: "least_key m P = Some (pk :: 64 word) \<Longrightarrow> m pk \<noteq> None" "greatest_key m P = Some pk \<Longrightarrow> m pk \<noteq> None"
  using least_key_Some greatest_key_Some by fastforce+

lemma clamp_end_neg: "clamp_end i = i \<or> i < 0 \<and> clamp_end i < 0"
  by (simp add: clamp_end_def)

lemma least_rows: "least_key (rows V s tk) P = Some pk \<Longrightarrow> rows V s tk pk \<noteq> None"
  by (rule least_there(1))

text \<open>A step of the code that asks the chain for an iterator and loads it.\<close>

lemma ask_cursor:
  assumes "chain_ok V api" "now_context c" "readable V c t s" "ask s = (Inr i, s1)" "quiet V s s1"
    "found V (table_key t) r i s1" "\<And>pk'. r = Some pk' \<Longrightarrow> rows V s (table_key t) pk' \<noteq> None"
  shows "\<exists>it s'. bind_act (try_chain ask) (\<lambda>i. table_get_at c api t (clamp_end i) pk (- 1) None) s = (Inr it, s') \<and>
      quiet V s s' \<and> cursor V c t s' r it"
proof -
  have "readable V c t s1" "\<And>pk'. r = Some pk' \<Longrightarrow> rows V s1 (table_key t) pk' \<noteq> None"
    using quiet_rows(2) [OF assms(5)] quiet_keeps(1) [OF assms(5)] assms(3,7) by auto
  then obtain it s' where "table_get_at c api t (clamp_end i) pk (- 1) None s1 = (Inr it, s')" "quiet V s1 s'" "cursor V c t s' r it"
    using get_at_cursor [OF assms(1,2) _ assms(6), of "clamp_end i" pk] clamp_end_neg [of i] by blast
  then show ?thesis using assms(4) quiet_trans [OF assms(5)] by (auto simp: bind_act_def try_chain_def)
qed

lemma acting [simp]: "now_context c \<Longrightarrow> when_acting c m s = (Inr (Some it), s') \<longleftrightarrow> m s = (Inr it, s')"
  by (auto simp: when_acting_def act_Inr)

lemma lift_Inr [simp]: "r = Inr a \<Longrightarrow> bind_act (lift_sum r) f s = f a s"
  by (simp add: bind_act_def lift_sum_def)

section \<open>What the searches and moves do\<close>

lemma search_cursor:
  assumes "chain_ok V api" "now_context c" "readable V c t s"
  shows find_cursor: "get_index c v = Inr pk \<Longrightarrow> \<exists>it s'. table_find c api t v s = (Inr (Some it), s') \<and> quiet V s s' \<and>
      cursor V c t s' (least_key (table_rows V c t s) (\<lambda>j. j = pk)) it"
    and lowerbound_cursor: "get_index c v = Inr pk \<Longrightarrow> \<exists>it s'. table_lowerbound c api t v s = (Inr (Some it), s') \<and> quiet V s s' \<and>
      cursor V c t s' (least_key (table_rows V c t s) (\<lambda>j. pk \<le> j)) it"
    and upperbound_cursor: "get_index c v = Inr pk \<Longrightarrow> \<exists>it s'. table_upperbound c api t v s = (Inr (Some it), s') \<and> quiet V s s' \<and>
      cursor V c t s' (least_key (table_rows V c t s) (\<lambda>j. pk < j)) it"
    and begin_cursor: "string_to_name c (hd (key_names (t_def t))) = Inr nm \<Longrightarrow>
      \<exists>it s'. table_begin c api t s = (Inr (Some it), s') \<and> quiet V s s' \<and>
      cursor V c t s' (least_key (table_rows V c t s) (\<lambda>j. True)) it"
proof -
  have d: "least_key (table_rows V c t s) P = least_key (rows V s (table_key t)) P" for P
    using assms(3) unfolding readable_def by (rule least_key_dom)
  note r = chain_reads [OF assms(1), where cd = "t_code t" and sc = "t_scope t" and tn = "def_name (t_def t)", folded table_key_def]
  show "\<exists>it s'. table_find c api t v s = (Inr (Some it), s') \<and> quiet V s s' \<and>
      cursor V c t s' (least_key (table_rows V c t s) (\<lambda>j. j = pk)) it" if v: "get_index c v = Inr pk"
  proof -
    obtain i s1 where i: "db_find api (t_code t) (t_scope t) (def_name (t_def t)) pk s = (Inr i, s1)" "quiet V s s1"
        "found V (table_key t) (least_key (rows V s (table_key t)) (\<lambda>j. j = pk)) i s1"
      using r(1) by blast
    have "readable V c t s1" using assms(3) quiet_rows(2) [OF i(2)] by auto
    moreover have "\<And>pk'. least_key (rows V s (table_key t)) (\<lambda>j. j = pk) = Some pk' \<Longrightarrow> rows V s1 (table_key t) pk' \<noteq> None"
      using least_there(1) quiet_keeps(1) [OF i(2)] by metis
    ultimately obtain it s' where "table_get_at c api t i pk (- 1) None s1 = (Inr it, s')" "quiet V s1 s'"
        "cursor V c t s' (least_key (rows V s (table_key t)) (\<lambda>j. j = pk)) it"
      using get_at_cursor [OF assms(1,2) _ i(3), of i pk] by blast
    then show ?thesis
      using i(1) v quiet_trans [OF i(2)] assms(2)
      by (auto simp: table_find_def table_get_def bind_act_def try_chain_def d lift_sum_def)
  qed
  show "\<exists>it s'. table_lowerbound c api t v s = (Inr (Some it), s') \<and> quiet V s s' \<and>
      cursor V c t s' (least_key (table_rows V c t s) (\<lambda>j. pk \<le> j)) it" if v: "get_index c v = Inr pk"
  proof -
    obtain i s1 where i: "db_lowerbound api (t_code t) (t_scope t) (def_name (t_def t)) pk s = (Inr i, s1)" "quiet V s s1"
        "found V (table_key t) (least_key (rows V s (table_key t)) (\<lambda>j. pk \<le> j)) i s1"
      using r(2) by blast
    show ?thesis
      using ask_cursor [where ask = "db_lowerbound api (t_code t) (t_scope t) (def_name (t_def t)) pk" and pk = pk,
          OF assms i(1,2,3) least_rows] v assms(2)
      by (auto simp: table_lowerbound_def d)
  qed
  show "\<exists>it s'. table_upperbound c api t v s = (Inr (Some it), s') \<and> quiet V s s' \<and>
      cursor V c t s' (least_key (table_rows V c t s) (\<lambda>j. pk < j)) it" if v: "get_index c v = Inr pk"
  proof -
    obtain i s1 where i: "db_upperbound api (t_code t) (t_scope t) (def_name (t_def t)) pk s = (Inr i, s1)" "quiet V s s1"
        "found V (table_key t) (least_key (rows V s (table_key t)) (\<lambda>j. pk < j)) i s1"
      using r(3) by blast
    show ?thesis
      using ask_cursor [where ask = "db_upperbound api (t_code t) (t_scope t) (def_name (t_def t)) pk" and pk = pk,
          OF assms i(1,2,3) least_rows] v assms(2)
      by (auto simp: table_upperbound_def d)
  qed
  show "\<exists>it s'. table_begin c api t s = (Inr (Some it), s') \<and> quiet V s s' \<and>
      cursor V c t s' (least_key (table_rows V c t s) (\<lambda>j. True)) it" if v: "string_to_name c (hd (key_names (t_def t))) = Inr nm"
  proof -
    obtain i s1 where i: "db_lowerbound api (t_code t) (t_scope t) (def_name (t_def t)) 0 s = (Inr i, s1)" "quiet V s s1"
        "found V (table_key t) (least_key (rows V s (table_key t)) (\<lambda>j. True)) i s1"
      using r(2) [where s = s and pk = 0] by auto
    show ?thesis
      using ask_cursor [where ask = "db_lowerbound api (t_code t) (t_scope t) (def_name (t_def t)) 0" and pk = nm,
          OF assms i(1,2,3) least_rows] v assms(2)
      by (auto simp: table_begin_def d)
  qed
qed

lemma next_cursor:
  assumes "chain_ok V api" "now_context c" "readable V c t s" "cursor V c t s (Some pk) it"
  shows "\<exists>it' s'. iter_next c api it s = (Inr (Some it'), s') \<and> quiet V s s' \<and>
      cursor V c t s' (least_key (table_rows V c t s) (\<lambda>j. pk < j)) it'"
    and "\<exists>it' s'. iter_previous c api it s = (Inr (Some it'), s') \<and> quiet V s s' \<and>
      cursor V c t s' (greatest_key (table_rows V c t s) (\<lambda>j. j < pk)) it'"
proof -
  have d: "least_key (table_rows V c t s) P = least_key (rows V s (table_key t)) P"
      "greatest_key (table_rows V c t s) P = greatest_key (rows V s (table_key t)) P" for P
    using assms(3) unfolding readable_def by (rule least_key_dom)+
  have it: "it_table it = t" "it_idx_itr it = - 1" "0 \<le> it_itr it" "refs V s (it_itr it) = Some (table_key t, pk)"
    using assms(4) by (auto simp: cursor_def)
  obtain data where data: "rows V s (table_key t) pk = Some data"
    using assms(4) by (auto simp: cursor_def table_rows_def split: option.splits)
  note m = chain_moves [OF assms(1) it(4,3) data]
  obtain i s1 where i: "db_next api (it_itr it) s = (Inr (i, least_key (rows V s (table_key t)) (\<lambda>k. pk < k)), s1)" "quiet V s s1"
      "found V (table_key t) (least_key (rows V s (table_key t)) (\<lambda>k. pk < k)) i s1"
    using m(1) by blast
  have r: "readable V c t s1" using assms(3) quiet_rows(2) [OF i(2)] by auto
  have p: "\<And>pk'. least_key (rows V s (table_key t)) (\<lambda>k. pk < k) = Some pk' \<Longrightarrow> rows V s1 (table_key t) pk' \<noteq> None"
    using least_there(1) quiet_keeps(1) [OF i(2)] by metis
  obtain it' s' where "table_get_at c api t i (if i < 0 then - 1 else written (least_key (rows V s (table_key t)) (\<lambda>k. pk < k))) (- 1) None s1 =
      (Inr it', s')" "quiet V s1 s'" "cursor V c t s' (least_key (rows V s (table_key t)) (\<lambda>k. pk < k)) it'"
    using get_at_cursor [OF assms(1,2) r i(3) p, of i] by blast
  then show "\<exists>it' s'. iter_next c api it s = (Inr (Some it'), s') \<and> quiet V s s' \<and>
      cursor V c t s' (least_key (table_rows V c t s) (\<lambda>j. pk < j)) it'"
    using i(1) it quiet_trans [OF i(2)] assms(2) by (auto simp: iter_next_def bind_act_def d)
  obtain i s1 where i: "db_previous api (it_itr it) s = (Inr (i, greatest_key (rows V s (table_key t)) (\<lambda>k. k < pk)), s1)" "quiet V s s1"
      "found V (table_key t) (greatest_key (rows V s (table_key t)) (\<lambda>k. k < pk)) i s1"
    using m(2) by blast
  have r: "readable V c t s1" using assms(3) quiet_rows(2) [OF i(2)] by auto
  have p: "\<And>pk'. greatest_key (rows V s (table_key t)) (\<lambda>k. k < pk) = Some pk' \<Longrightarrow> rows V s1 (table_key t) pk' \<noteq> None"
    using least_there(2) quiet_keeps(1) [OF i(2)] by metis
  obtain it' s' where "table_get_at c api t i (written (greatest_key (rows V s (table_key t)) (\<lambda>k. k < pk))) (- 1) None s1 =
      (Inr it', s')" "quiet V s1 s'" "cursor V c t s' (greatest_key (rows V s (table_key t)) (\<lambda>k. k < pk)) it'"
    using get_at_cursor [OF assms(1,2) r i(3) p, of i] by blast
  then show "\<exists>it' s'. iter_previous c api it s = (Inr (Some it'), s') \<and> quiet V s s' \<and>
      cursor V c t s' (greatest_key (table_rows V c t s) (\<lambda>j. j < pk)) it'"
    using i(1) it quiet_trans [OF i(2)] assms(2) by (auto simp: iter_previous_def bind_act_def d)
qed

section \<open>Walking a table\<close>

text \<open>What a contract's loop over a table sees, \<open>for (it = tab.begin(); !it.is_end(); it = it.next())\<close>,
  within \<open>n\<close> tests of its condition.\<close>

fun walk :: "'e contract_scheme \<Rightarrow> 's chain_api \<Rightarrow> nat \<Rightarrow> db_iter \<Rightarrow> 's \<Rightarrow> (64 word \<times> jsv) list option" where
  "walk c api 0 it s = None"
| "walk c api (Suc n) it s =
     (if is_end it then Some []
      else (case iter_next c api it s of
              (Inr (Some it'), s') \<Rightarrow> map_option (Cons (it_id it, get_data it)) (walk c api n it' s')
            | _ \<Rightarrow> None))"

definition listing :: "(64 word \<rightharpoonup> jsv) \<Rightarrow> 64 word set \<Rightarrow> (64 word \<times> jsv) list" where
  "listing m A = map (\<lambda>pk. (pk, the (m pk))) (sorted_list_of_set A)"

lemma least_key_split:
  assumes "least_key m P = Some pk" "\<And>j. P j \<Longrightarrow> m j \<noteq> None \<Longrightarrow> (pk :: 64 word) \<le> j"
    "\<And>j. pk \<le> j \<Longrightarrow> m j \<noteq> None \<Longrightarrow> P j"
  shows "{j \<in> dom m. P j} = insert pk {j \<in> dom m. pk < j}"
  using assms least_key_Some [OF assms(1)] by (auto simp: order_less_le intro: ccontr)

lemma walk_listing:
  assumes "chain_ok V api" "now_context c" "readable V c t s" "cursor V c t s r it"
    "case r of None \<Rightarrow> A = {} | Some pk \<Rightarrow> A = insert pk {j \<in> dom (table_rows V c t s). pk < j}" "card A < n"
  shows "walk c api n it s = Some (listing (table_rows V c t s) A)"
  using assms(3-6)
proof (induction n arbitrary: s r it A)
  case (Suc n)
  show ?case
  proof (cases r)
    case None
    then show ?thesis using Suc.prems cursor_is_end [OF Suc.prems(2)] by (simp add: listing_def)
  next
    case (Some pk)
    let ?m = "table_rows V c t s"
    let ?B = "{j \<in> dom ?m. pk < j}"
    have A: "A = insert pk ?B" "pk \<notin> ?B" "finite ?B" using Suc.prems(3) Some by auto
    obtain it' s' where n: "iter_next c api it s = (Inr (Some it'), s')" "quiet V s s'"
        "cursor V c t s' (least_key ?m (\<lambda>j. pk < j)) it'"
      using next_cursor(1) [OF assms(1,2) Suc.prems(1)] Suc.prems(2) Some by blast
    have m: "table_rows V c t s' = ?m" and r': "readable V c t s'" using quiet_rows [OF n(2)] Suc.prems(1) by auto
    have B: "case least_key ?m (\<lambda>j. pk < j) of None \<Rightarrow> ?B = {} | Some pk' \<Rightarrow> ?B = insert pk' {j \<in> dom (table_rows V c t s'). pk' < j}"
    proof (cases "least_key ?m (\<lambda>j. pk < j)")
      case None
      then show ?thesis using least_key_None [of ?m "\<lambda>j. pk < j"] by auto
    next
      case (Some pk')
      note l = least_key_Some [OF Some]
      have "?B = insert pk' {j \<in> dom ?m. pk' < j}"
        by (rule least_key_split [OF Some]) (use l in auto)
      then show ?thesis using Some m by simp
    qed
    have "card ?B < n" using Suc.prems(4) A by simp
    then have w: "walk c api n it' s' = Some (listing ?m ?B)" using Suc.IH [OF r' n(3) B] m by simp
    have "sorted_list_of_set A = pk # sorted_list_of_set ?B"
      using A(2,3) unfolding A(1) by (subst sorted_list_of_set_insert_remove) (auto intro!: insort_is_Cons)
    moreover have "it_id it = pk" "it_data it = the (?m pk)" using Suc.prems(2) Some by (auto simp: cursor_def)
    moreover have "\<not> is_end it" using cursor_is_end [OF Suc.prems(2)] Some by simp
    ultimately show ?thesis using n(1) w by (simp add: listing_def get_data_def)
  qed
qed simp

section \<open>Witness state\<close>

text \<open>Table 48 has the rows 2 and 5, table 64 has row 9 and was looked at first.\<close>

definition demo_state :: ref_st where
  "demo_state = ref_empty\<lparr>
     r_rows := (\<lambda>_. Map.empty)((16, 32, 48) := [2 \<mapsto> [2, 7], 5 \<mapsto> [5, 9]], (16, 32, 64) := [9 \<mapsto> [9, 1]]),
     r_ends := [(16, 32, 64), (16, 32, 48)]\<rparr>"

definition demo_row :: "int \<Rightarrow> int \<Rightarrow> jsv" where
  "demo_row a k = JObject [(''aa'', JBigInt a), (''k'', JBigInt k)]"

lemma demo_table_rows:
  "table_rows (ref_view 16) demo (demo_table 48) demo_state = [2 \<mapsto> demo_row 2 7, 5 \<mapsto> demo_row 5 9]"
  by (auto simp: fun_eq_iff table_rows_def demo_state_def table_key_def demo_table_def demo_def_of_def row_value_def demo_decode_def
      demo_row_def set_all_def split: option.splits)

lemma demo_readable: "readable (ref_view 16) demo (demo_table 48) demo_state"
  unfolding readable_def demo_table_rows by (auto simp: demo_state_def table_key_def demo_table_def demo_def_of_def)

text \<open>
  C18: A loop over a table from \<open>begin\<close> by \<open>next\<close> to the end sees each row once, in the order of
  the numbers, with its value, and stops after as many tests as there are rows and one more.
\<close>

theorem table_walk:
  assumes "chain_ok V api" "now_context c" "readable V c t s"
    "string_to_name c (hd (key_names (t_def t))) = Inr nm" "card (dom (table_rows V c t s)) < n"
  shows "\<exists>it s'. table_begin c api t s = (Inr (Some it), s') \<and>
    walk c api n it s' = Some (listing (table_rows V c t s) (dom (table_rows V c t s)))"
proof -
  let ?m = "table_rows V c t s"
  obtain it s' where b: "table_begin c api t s = (Inr (Some it), s')" "quiet V s s'" "cursor V c t s' (least_key ?m (\<lambda>j. True)) it"
    using begin_cursor [OF assms(1-4)] by blast
  have m: "table_rows V c t s' = ?m" and r: "readable V c t s'" using quiet_rows [OF b(2)] assms(3) by auto
  have "case least_key ?m (\<lambda>j. True) of None \<Rightarrow> dom ?m = {} | Some pk \<Rightarrow> dom ?m = insert pk {j \<in> dom ?m. pk < j}"
  proof (cases "least_key ?m (\<lambda>j. True)")
    case None
    then show ?thesis using least_key_None [of ?m "\<lambda>j. True"] by auto
  next
    case (Some pk)
    have "{j \<in> dom ?m. True} = insert pk {j \<in> dom ?m. pk < j}"
      by (rule least_key_split [OF Some]) (use least_key_Some [OF Some] in auto)
    then show ?thesis using Some by simp
  qed
  then have "walk c api n it s' = Some (listing ?m (dom ?m))"
    using walk_listing [OF assms(1,2) r b(3), of "dom ?m" n, unfolded m] assms(5) by blast
  then show ?thesis using b(1) by blast
qed

lemma table_walk_witness:
  "\<exists>it s'. table_begin demo (ref_api 16) (demo_table 48) demo_state = (Inr (Some it), s') \<and>
     walk demo (ref_api 16) 3 it s' = Some [(2, demo_row 2 7), (5, demo_row 5 9)]"
proof -
  have "string_to_name demo (hd (key_names (t_def (demo_table 48)))) = Inr 32"
    by (simp add: demo_table_def demo_def_of_def demo_name)
  moreover have "card (dom (table_rows (ref_view 16) demo (demo_table 48) demo_state)) < 3"
    by (simp add: demo_table_rows)
  moreover have "listing (table_rows (ref_view 16) demo (demo_table 48) demo_state)
      (dom (table_rows (ref_view 16) demo (demo_table 48) demo_state)) = [(2, demo_row 2 7), (5, demo_row 5 9)]"
    by (simp add: demo_table_rows listing_def insert_commute)
  ultimately show ?thesis
    using table_walk [OF ref_ok [of 16] _ demo_readable, of 32 3] by simp
qed

text \<open>
  C26: \<open>end\<close> gives the iterator -2 for every table, and going back from it reaches the last row of
  the table whose end the chain numbered -2, the first one the action looked at, whatever table
  it was asked of: the row is shown as a row of this table.  When the key's name in the ABI is not
  an account name (a user_id, say), \<open>begin\<close> and \<open>end\<close> fail.
\<close>

theorem end_previous:
  assumes "chain_ok V api" "now_context c" "ends V s (- 2) = Some tk"
    "greatest_key (rows V s tk) (\<lambda>k. True) = Some pk" "rows V s tk pk = Some data" "row_value c t data = Inr v"
  shows "(case string_to_name c (hd (key_names (t_def t))) of
      Inl e \<Rightarrow> table_begin c api t s = (Inl e, s) \<and> table_end c api t s = (Inl e, s)
    | Inr nm \<Rightarrow> (\<exists>it s' it' s''. table_end c api t s = (Inr (Some it), s') \<and> is_end it \<and> it_itr it = - 2 \<and>
        iter_previous c api it s' = (Inr (Some it'), s'') \<and> it_table it' = t \<and> it_id it' = pk \<and> it_data it' = v \<and>
        refs V s'' (it_itr it') = Some (tk, pk)))"
proof (cases "string_to_name c (hd (key_names (t_def t)))")
  case (Inl e)
  then show ?thesis using assms(2) by (simp add: table_begin_def table_end_def when_acting_def bind_act_def lift_sum_def)
next
  case (Inr nm)
  obtain i s1 where e: "db_end api (t_code t) (t_scope t) (def_name (t_def t)) s = (Inr i, s1)" "quiet V s s1" "i < 0"
    using chain_reads(4) [OF assms(1), of "t_code t" "t_scope t" "def_name (t_def t)" s] by (auto split: if_splits)
  let ?it = "\<lparr>it_table = t, it_id = nm, it_itr = - 2, it_idx_itr = - 1, it_index = None, it_data = JUndefined\<rparr>"
  have end_it: "table_end c api t s = (Inr (Some ?it), s1)"
    using e Inr assms(2) by (simp add: table_end_def bind_act_def lift_sum_def try_chain_def clamp_end_def table_get_at_none)
  have ends: "ends V s1 (- 2) = Some tk" and rows: "rows V s1 = rows V s"
    using e(2) assms(3) unfolding quiet_def grows_def map_le_def by (metis domI, simp)
  obtain j s2 where p: "db_previous api (- 2) s1 = (Inr (j, Some pk), s2)" "quiet V s1 s2" "0 \<le> j" "refs V s2 j = Some (tk, pk)"
    using chain_previous_end [OF assms(1) ends] assms(4) rows by (auto simp: found_def)
  have "rows V s2 tk pk = Some data" using quiet_keeps(1) [OF p(2)] rows assms(5) by simp
  then obtain s3 where g: "table_get_at c api t j pk (- 1) None s2 = (Inr \<lparr>it_table = t, it_id = pk, it_itr = j, it_idx_itr = - 1,
      it_index = None, it_data = v\<rparr>, s3)" "quiet V s2 s3"
    using table_get_at_row [OF assms(1,2) p(4,3) _ assms(6)] by blast
  have "refs V s3 j = Some (tk, pk)" using quiet_keeps(3) [OF g(2) p(4)] .
  then show ?thesis
    using end_it p(1) g(1) Inr assms(2) by (auto simp: iter_previous_def bind_act_def written_def is_end_def)
qed

lemma end_previous_witness:
  "\<exists>it s' it' s''. table_end demo (ref_api 16) (demo_table 48) demo_state = (Inr (Some it), s') \<and>
     iter_previous demo (ref_api 16) it s' = (Inr (Some it'), s'') \<and> it_data it' = demo_row 9 1"
proof -
  have "ends (ref_view 16) demo_state (- 2) = Some (16, 32, 64)" by (simp add: demo_state_def slot_def)
  moreover have "greatest_key (rows (ref_view 16) demo_state (16, 32, 64)) (\<lambda>k. True) = Some 9"
    "rows (ref_view 16) demo_state (16, 32, 64) 9 = Some [9, 1]" by (simp_all add: demo_state_def greatest_key_def)
  moreover have "row_value demo (demo_table 48) [9, 1] = Inr (demo_row 9 1)"
    by (simp add: row_value_def demo_decode_def demo_row_def set_all_def)
  moreover have "string_to_name demo (hd (key_names (t_def (demo_table 48)))) = Inr 32"
    by (simp add: demo_table_def demo_def_of_def demo_name)
  ultimately show ?thesis
    using end_previous [OF ref_ok [of 16], of demo demo_state "(16, 32, 64)" 9 "[9, 1]" "demo_table 48" "demo_row 9 1"] by auto
qed

end
