(* ===== verification/Js_Consistent.thy ===== *)
theory Js_Consistent
  imports Js_Iterator
begin

text \<open>
  A table and its secondary indexes stay in step: whatever a contract does through the objects
  of \<^verbatim>\<open>src/js_contract\<close>, as long as each call returns, every row has in every index the entry its
  index function gives, and no index has another.  The steps are those of \<open>db_step\<close>; walking back
  from an end is left out, for that is the step that leaves the table (Js_Iterator).  The last
  part shows what a caught failure in the middle of a call leaves behind.
\<close>

section \<open>Rows and entries\<close>

text \<open>The entry of a stored row.\<close>

definition row_entry :: "'e contract_scheme \<Rightarrow> table \<Rightarrow> index \<Rightarrow> 8 word list \<Rightarrow> 64 word list option" where
  "row_entry c t ix data = (case row_value c t data of Inl e \<Rightarrow> None | Inr v \<Rightarrow> value_entry c ix v)"

definition in_step :: "'s view \<Rightarrow> 'e contract_scheme \<Rightarrow> table \<Rightarrow> 's \<Rightarrow> bool" where
  "in_step V c t s \<longleftrightarrow> (\<forall>ix \<in> set (indexes_array t). \<forall>pk.
     (rows V s (table_key t) pk = None \<longrightarrow> entries_of V s ix pk = None) \<and>
     (\<forall>data. rows V s (table_key t) pk = Some data \<longrightarrow>
        row_entry c t ix data \<noteq> None \<and> entries_of V s ix pk = row_entry c t ix data))"

text \<open>Storing a value and reading it back does not change the keys the index functions give.\<close>

definition keeps_keys :: "'e contract_scheme \<Rightarrow> table \<Rightarrow> jsv \<Rightarrow> bool" where
  "keeps_keys c t val \<longleftrightarrow> (\<forall>data. variant_to_binary c (def_type (t_def t)) (fc_value val) = Inr data \<longrightarrow>
     (\<forall>ix \<in> set (indexes_array t). row_entry c t ix data = value_entry c ix val))"

definition own_table :: "'s view \<Rightarrow> table \<Rightarrow> bool" where
  "own_table V t \<longleftrightarrow> table_wf t \<and> t_code t = receiver V \<and> def_name (t_def t) AND 0xF = 0"

lemma own_index:
  assumes "own_table V t" "ix \<in> set (indexes_array t)"
  shows "index_wf ix" "i_code ix = receiver V" "i_scope ix = t_scope t"
  using assms by (auto simp: own_table_def table_wf_def in_set_conv_nth)

text \<open>What a loop over the indexes leaves in each of them: \<open>r ix\<close> for row \<open>pk\<close>.\<close>

definition all_set :: "'s view \<Rightarrow> index list \<Rightarrow> 64 word \<Rightarrow> (index \<Rightarrow> 64 word list option) \<Rightarrow> 's \<Rightarrow> 's \<Rightarrow> bool" where
  "all_set V ixs pk r s s' \<longleftrightarrow> rows V s' = rows V s \<and> grows V s s' \<and>
     (\<forall>ix \<in> set ixs. entries_of V s' ix = (entries_of V s ix)(pk := r ix)) \<and>
     (\<forall>ix'. index_name ix' \<notin> index_name ` set ixs \<longrightarrow> entries_of V s' ix' = entries_of V s ix')"

lemma set_entry_same: "set_entry V s ix pk r s' \<Longrightarrow> entries_of V s' ix = (entries_of V s ix)(pk := r)"
  by (auto simp: set_entry_def set_sec_def entries_of_def)

lemma set_entry_other:
  "set_entry V s ix pk r s' \<Longrightarrow> index_name ix' \<noteq> index_name ix \<Longrightarrow> entries_of V s' ix' = entries_of V s ix'"
  by (auto simp: set_entry_def set_sec_def entries_of_def)

lemma set_entry_rows: "set_entry V s ix pk r s' \<Longrightarrow> rows V s' = rows V s \<and> grows V s s'"
  by (auto simp: set_entry_def set_sec_def)

lemma set_entry_elsewhere:
  "set_entry V s ix pk r s' \<Longrightarrow> pk' \<noteq> pk \<Longrightarrow> entries_of V s' ix' pk' = entries_of V s ix' pk'"
  by (auto simp: set_entry_def set_sec_def entries_of_def)

text \<open>A loop over indexes of different names whose body sets the entry of one index.\<close>

lemma each_all_set:
  assumes "\<And>ix s s'. ix \<in> set ixs \<Longrightarrow> f ix s = (Inr (), s') \<Longrightarrow> P ix (entries_of V s ix pk) \<Longrightarrow>
      set_entry V s ix pk (r ix) s' \<and> Q ix"
    and "distinct (map index_name ixs)" "each f ixs s = (Inr (), s')" "\<And>ix. ix \<in> set ixs \<Longrightarrow> P ix (entries_of V s ix pk)"
  shows "all_set V ixs pk r s s' \<and> (\<forall>ix \<in> set ixs. Q ix)"
  using assms
proof (induction ixs arbitrary: s)
  case Nil
  then show ?case by (simp add: all_set_def)
next
  case (Cons ix ixs)
  obtain s1 where s1: "f ix s = (Inr (), s1)" "each f ixs s1 = (Inr (), s')"
    using Cons.prems(3) by (auto simp: act_Inr)
  have e: "set_entry V s ix pk (r ix) s1" "Q ix" using Cons.prems(1,4) s1(1) by simp_all
  have o: "entries_of V s1 ix' = entries_of V s ix'" if "index_name ix' \<noteq> index_name ix" for ix'
    using that by (rule set_entry_other [OF e(1)])
  have d: "index_name ix' \<noteq> index_name ix" if "ix' \<in> set ixs" for ix'
    using imageI [OF that, of index_name] Cons.prems(2) by auto
  have rest: "all_set V ixs pk r s1 s' \<and> (\<forall>ix \<in> set ixs. Q ix)"
    by (rule Cons.IH) (use Cons.prems s1(2) o d in auto)
  have "entries_of V s' ix = entries_of V s1 ix"
    using rest Cons.prems(2) by (auto simp: all_set_def)
  then show ?case
    using rest o d set_entry_same [OF e(1)] set_entry_rows [OF e(1)] e(2) by (auto simp: all_set_def intro: grows_trans)
qed

lemma in_step_after:
  assumes "in_step V c t s" "rows V s' = (rows V s)(table_key t := (rows V s (table_key t))(pk := rw))"
    "\<And>ix. ix \<in> set (indexes_array t) \<Longrightarrow> entries_of V s' ix = (entries_of V s ix)(pk := r ix)"
    "\<And>ix. ix \<in> set (indexes_array t) \<Longrightarrow>
       case rw of None \<Rightarrow> r ix = None | Some data \<Rightarrow> row_entry c t ix data \<noteq> None \<and> r ix = row_entry c t ix data"
  shows "in_step V c t s'"
  using assms unfolding in_step_def by (auto split: option.splits)

lemma in_step_quiet:
  assumes "in_step V c t s" "quiet V s s'"
  shows "in_step V c t s'"
  using assms unfolding in_step_def quiet_def entries_of_def by metis

lemma in_step_entry:
  "in_step V c t s \<Longrightarrow> ix \<in> set (indexes_array t) \<Longrightarrow> rows V s (table_key t) pk = Some data \<Longrightarrow>
     entries_of V s ix pk = row_entry c t ix data \<and> row_entry c t ix data \<noteq> None"
  "in_step V c t s \<Longrightarrow> ix \<in> set (indexes_array t) \<Longrightarrow> rows V s (table_key t) pk = None \<Longrightarrow> entries_of V s ix pk = None"
  unfolding in_step_def by blast+

section \<open>The calls that change a table\<close>

lemma chain_writes:
  assumes "chain_ok V api"
  shows "db_store api sc tn pyr pk data s = (Inr i, s') \<Longrightarrow>
      rows V s (receiver V, sc, tn) pk = None \<and> set_row V s (receiver V, sc, tn) pk (Some data) s' \<and>
      0 \<le> i \<and> refs V s' i = Some ((receiver V, sc, tn), pk)"
    and "db_update api i pyr data s = (Inr (), s') \<Longrightarrow>
      \<exists>tk pk. 0 \<le> i \<and> refs V s i = Some (tk, pk) \<and> fst tk = receiver V \<and> rows V s tk pk \<noteq> None \<and> set_row V s tk pk (Some data) s'"
    and "db_remove api i s = (Inr (), s') \<Longrightarrow>
      \<exists>tk pk. 0 \<le> i \<and> refs V s i = Some (tk, pk) \<and> fst tk = receiver V \<and> rows V s tk pk \<noteq> None \<and> set_row V s tk pk None s'"
  using assms unfolding chain_ok_def writes_ok_def by blast+

lemma own_names: "own_table V t \<Longrightarrow> distinct (map index_name (indexes_array t))"
  by (rule index_names_distinct) (auto simp: own_table_def)

lemma set_row_entries: "set_row V s tk pk r s' \<Longrightarrow> entries_of V s' ix = entries_of V s ix"
  by (simp add: set_row_def entries_of_def)

text \<open>\<open>row_changed\<close>: row \<open>pk\<close> of the table becomes \<open>rw\<close> and nothing happens to other rows.\<close>

definition row_changed :: "'s view \<Rightarrow> table \<Rightarrow> 64 word \<Rightarrow> 8 word list option \<Rightarrow> 's \<Rightarrow> 's \<Rightarrow> bool" where
  "row_changed V t pk rw s s' \<longleftrightarrow>
     rows V s' = (rows V s)(table_key t := (rows V s (table_key t))(pk := rw)) \<and> grows V s s'"

lemma row_changed_all:
  "set_row V s (table_key t) pk rw s1 \<Longrightarrow> all_set V ixs pk r s1 s' \<Longrightarrow> row_changed V t pk rw s s'"
  unfolding set_row_def all_set_def row_changed_def using grows_trans by metis

lemma emplace_step:
  assumes "chain_ok V api" "own_table V t" "in_step V c t s" "keeps_keys c t val" "now_context c"
    "emplace c api t payer val s = (Inr (), s')"
  shows "in_step V c t s' \<and> (\<exists>pk data. get_index c (get_prop val (hd (key_names (t_def t)))) = Inr pk \<and>
      variant_to_binary c (def_type (t_def t)) (fc_value val) = Inr data \<and> rows V s (table_key t) pk = None \<and>
      row_changed V t pk (Some data) s s')"
proof -
  obtain pyr pk data i s1 where e: "get_index c (get_prop val (hd (key_names (t_def t)))) = Inr pk"
      "variant_to_binary c (def_type (t_def t)) (fc_value val) = Inr data"
      "db_store api (t_scope t) (def_name (t_def t)) pyr pk data s = (Inr i, s1)" "store_index c api t pyr pk val s1 = (Inr (), s')"
    using assms(5,6) by (auto simp: emplace_def act_Inr)
  have tk: "table_key t = (receiver V, t_scope t, def_name (t_def t))" using assms(2) by (simp add: own_table_def table_key_def)
  have w: "rows V s (table_key t) pk = None" "set_row V s (table_key t) pk (Some data) s1"
    using chain_writes(1) [OF assms(1) e(3)] by (auto simp: tk)
  have each: "each (\<lambda>ix. store_value c api ix pyr pk val) (indexes_array t) s1 = (Inr (), s')" using e(4) by (simp add: store_index_def)
  have a: "all_set V (indexes_array t) pk (\<lambda>ix. value_entry c ix val) s1 s' \<and> (\<forall>ix \<in> set (indexes_array t). value_entry c ix val \<noteq> None)"
  proof (rule each_all_set [where P = "\<lambda>_ _. True", OF _ own_names [OF assms(2)] each])
    fix ix s s' assume "ix \<in> set (indexes_array t)" "store_value c api ix pyr pk val s = (Inr (), s')"
    then show "set_entry V s ix pk (value_entry c ix val) s' \<and> value_entry c ix val \<noteq> None"
      using store_value_entry [OF assms(1)] own_index [OF assms(2)] by blast
  qed simp
  have k: "\<And>ix. ix \<in> set (indexes_array t) \<Longrightarrow> row_entry c t ix data = value_entry c ix val"
    using assms(4) e(2) by (auto simp: keeps_keys_def)
  have "row_changed V t pk (Some data) s s'" using row_changed_all [OF w(2)] a by blast
  moreover have "in_step V c t s'"
    by (rule in_step_after [OF assms(3), where pk = pk and rw = "Some data" and r = "\<lambda>ix. value_entry c ix val"])
      (use calculation a k set_row_entries [OF w(2)] in \<open>auto simp: row_changed_def all_set_def\<close>)
  ultimately show ?thesis using e(1,2) w(1) by blast
qed

text \<open>An iterator object of the table: a chain iterator it holds was given for the row it names.\<close>

definition iter_ok :: "'s view \<Rightarrow> table \<Rightarrow> 's \<Rightarrow> db_iter \<Rightarrow> bool" where
  "iter_ok V t s it \<longleftrightarrow> it_table it = t \<and> (0 \<le> it_itr it \<longrightarrow> refs V s (it_itr it) = Some (table_key t, it_id it))"

lemma iter_ok_grows: "iter_ok V t s it \<Longrightarrow> grows V s s' \<Longrightarrow> iter_ok V t s' it"
  by (auto simp: iter_ok_def dest: grows_refs)

lemma update_step:
  assumes "chain_ok V api" "own_table V t" "in_step V c t s" "iter_ok V t s it" "keeps_keys c t (it_data it)" "now_context c"
    "iter_update c api it payer s = (Inr (), s')"
  shows "in_step V c t s' \<and> (\<exists>data. variant_to_binary c (def_type (t_def t)) (fc_value (it_data it)) = Inr data \<and>
      rows V s (table_key t) (it_id it) \<noteq> None \<and> row_changed V t (it_id it) (Some data) s s')"
proof -
  let ?pk = "it_id it" and ?val = "it_data it"
  have it: "it_table it = t" using assms(4) by (simp add: iter_ok_def)
  obtain pyr data s1 where e: "variant_to_binary c (def_type (t_def t)) (fc_value ?val) = Inr data"
      "db_update api (it_itr it) pyr data s = (Inr (), s1)" "update_index c api t pyr ?pk ?val s1 = (Inr (), s')"
    using assms(6,7) it by (auto simp: iter_update_def act_Inr)
  have w: "rows V s (table_key t) ?pk \<noteq> None" "set_row V s (table_key t) ?pk (Some data) s1"
    using chain_writes(2) [OF assms(1) e(2)] assms(4) by (auto simp: iter_ok_def)
  have each: "each (\<lambda>ix. update_value c api ix pyr ?pk ?val) (indexes_array t) s1 = (Inr (), s')"
    using e(3) by (simp add: update_index_def)
  have a: "all_set V (indexes_array t) ?pk (\<lambda>ix. value_entry c ix ?val) s1 s' \<and>
      (\<forall>ix \<in> set (indexes_array t). value_entry c ix ?val \<noteq> None)"
  proof (rule each_all_set [where P = "\<lambda>_ e. e \<noteq> None", OF _ own_names [OF assms(2)] each])
    fix ix s s' assume "ix \<in> set (indexes_array t)" "update_value c api ix pyr ?pk ?val s = (Inr (), s')"
      "entries_of V s ix ?pk \<noteq> None"
    then show "set_entry V s ix ?pk (value_entry c ix ?val) s' \<and> value_entry c ix ?val \<noteq> None"
      using update_value_entry [OF assms(1)] own_index [OF assms(2)] by blast
  next
    fix ix assume "ix \<in> set (indexes_array t)"
    then show "entries_of V s1 ix ?pk \<noteq> None"
      using in_step_entry(1) [OF assms(3)] w(1) set_row_entries [OF w(2)] by fastforce
  qed
  have k: "\<And>ix. ix \<in> set (indexes_array t) \<Longrightarrow> row_entry c t ix data = value_entry c ix ?val"
    using assms(5) e(1) by (auto simp: keeps_keys_def)
  have "row_changed V t ?pk (Some data) s s'" using row_changed_all [OF w(2)] a by blast
  moreover have "in_step V c t s'"
    by (rule in_step_after [OF assms(3), where pk = ?pk and rw = "Some data" and r = "\<lambda>ix. value_entry c ix ?val"])
      (use calculation a k set_row_entries [OF w(2)] in \<open>auto simp: row_changed_def all_set_def\<close>)
  ultimately show ?thesis using e(1) w(1) by blast
qed

lemma remove_step:
  assumes "chain_ok V api" "own_table V t" "in_step V c t s" "iter_ok V t s it" "now_context c"
    "iter_remove c api it s = (Inr (), s')"
  shows "in_step V c t s' \<and> rows V s (table_key t) (it_id it) \<noteq> None \<and> row_changed V t (it_id it) None s s'"
proof -
  let ?pk = "it_id it"
  have it: "it_table it = t" using assms(4) by (simp add: iter_ok_def)
  obtain s1 where e: "db_remove api (it_itr it) s = (Inr (), s1)" "remove_index api t ?pk s1 = (Inr (), s')"
    using assms(5,6) it by (auto simp: iter_remove_def act_Inr)
  have w: "rows V s (table_key t) ?pk \<noteq> None" "set_row V s (table_key t) ?pk None s1"
    using chain_writes(3) [OF assms(1) e(1)] assms(4) by (auto simp: iter_ok_def)
  have each: "each (\<lambda>ix. index_remove api ix ?pk) (indexes_array t) s1 = (Inr (), s')" using e(2) by (simp add: remove_index_def)
  have a: "all_set V (indexes_array t) ?pk (\<lambda>ix. None) s1 s' \<and> (\<forall>ix \<in> set (indexes_array t). True)"
  proof (rule each_all_set [where P = "\<lambda>_ _. True", OF _ own_names [OF assms(2)] each])
    fix ix s s' assume "ix \<in> set (indexes_array t)" "index_remove api ix ?pk s = (Inr (), s')"
    then show "set_entry V s ix ?pk None s' \<and> True"
      using remove_entry [OF assms(1)] own_index [OF assms(2)] by blast
  qed simp
  have "row_changed V t ?pk None s s'" using row_changed_all [OF w(2)] a by blast
  moreover have "in_step V c t s'"
    by (rule in_step_after [OF assms(3), where pk = ?pk and rw = None and r = "\<lambda>ix. None"])
      (use calculation a set_row_entries [OF w(2)] in \<open>auto simp: row_changed_def all_set_def\<close>)
  ultimately show ?thesis using w(1) by blast
qed

section \<open>The calls that look\<close>

text \<open>An iterator object that a call hands out is one of the table, whatever number and index
  iterator it carries.\<close>

lemma table_get_at_iter:
  assumes "chain_ok V api" "table_get_at c api t i pk idx_itr idx s = (Inr it, s')" "now_context c"
    "0 \<le> i \<Longrightarrow> \<exists>pk'. refs V s i = Some (table_key t, pk') \<and> rows V s (table_key t) pk' \<noteq> None"
  shows "quiet V s s' \<and> iter_ok V t s' it"
proof (cases "i < 0")
  case True
  then show ?thesis using assms(2) by (auto simp: table_get_at_none iter_ok_def)
next
  case False
  then obtain pk' data where p: "refs V s i = Some (table_key t, pk')" "rows V s (table_key t) pk' = Some data"
    using assms(4) by auto
  obtain v where v: "row_value c t data = Inr v"
  proof (cases "row_value c t data")
    case (Inl e)
    obtain s1 where s1: "keyval_primary api i s = (Inr pk', s1)" "quiet V s s1"
      using chain_moves(3) [OF assms(1) p(1) _ p(2)] False by auto
    obtain s2 where "read_row api i s1 = (Inr data, s2)"
      using read_row_ok [OF assms(1) quiet_keeps(3) [OF s1(2) p(1)]] quiet_keeps(1) [OF s1(2)] p(2) False by fastforce
    then have False using assms(2,3) False s1 Inl
      by (auto simp: table_get_at_def iter_load_def bind_act_def try_fc_def try_chain_def lift_sum_def row_value_def ret_def
          split: sum.splits if_splits)
    then show ?thesis ..
  qed blast
  obtain s2 where s2: "table_get_at c api t i pk idx_itr idx s = (Inr \<lparr>it_table = t, it_id = pk', it_itr = i, it_idx_itr = idx_itr,
      it_index = idx, it_data = v\<rparr>, s2)" "quiet V s s2"
    using table_get_at_row [OF assms(1,3) p(1) _ p(2) v] False by fastforce
  then show ?thesis using assms(2) quiet_keeps(3) [OF s2(2) p(1)] by (auto simp: iter_ok_def)
qed

lemma found_row: "found V tk (least_key (rows V s tk) P) i s' \<Longrightarrow> rows V s' = rows V s \<Longrightarrow> 0 \<le> i \<Longrightarrow>
    \<exists>pk. refs V s' i = Some (tk, pk) \<and> rows V s' tk pk \<noteq> None"
  using least_there(1) by (fastforce simp: found_def split: option.splits)

lemma table_get_iter:
  assumes "chain_ok V api" "table_get c api t pk idx_itr idx s = (Inr it, s')" "now_context c"
  shows "quiet V s s' \<and> iter_ok V t s' it"
proof -
  obtain i s1 where i: "db_find api (t_code t) (t_scope t) (def_name (t_def t)) pk s = (Inr i, s1)" "quiet V s s1"
      "found V (table_key t) (least_key (rows V s (table_key t)) (\<lambda>j. j = pk)) i s1"
    using chain_reads(1) [OF assms(1)] unfolding table_key_def by blast
  have "table_get_at c api t i pk idx_itr idx s1 = (Inr it, s')" using assms(2) i(1) by (auto simp: table_get_def act_Inr)
  then show ?thesis
    using table_get_at_iter [OF assms(1) _ assms(3)] found_row [OF i(3) quiet_keeps(1) [OF i(2)]] quiet_trans [OF i(2)] by blast
qed

lemma asked_iter:
  assumes "chain_ok V api" "now_context c"
    "\<exists>i s1. ask s = (Inr i, s1) \<and> quiet V s s1 \<and> found V (table_key t) (least_key (rows V s (table_key t)) P) i s1"
    "bind_act (try_chain ask) (\<lambda>i. table_get_at c api t (clamp_end i) pk (- 1) None) s = (Inr it, s')"
  shows "quiet V s s' \<and> iter_ok V t s' it"
proof -
  obtain i s1 where i: "ask s = (Inr i, s1)" "quiet V s s1" "found V (table_key t) (least_key (rows V s (table_key t)) P) i s1"
    using assms(3) by blast
  have "table_get_at c api t (clamp_end i) pk (- 1) None s1 = (Inr it, s')" using assms(4) i(1) by (auto simp: act_Inr)
  then show ?thesis
    using table_get_at_iter [OF assms(1) _ assms(2)] found_row [OF i(3) quiet_keeps(1) [OF i(2)]] quiet_trans [OF i(2)]
    by (auto simp: clamp_end_def split: if_splits)
qed

lemma search_iter:
  assumes "chain_ok V api" "now_context c"
  shows "table_find c api t v s = (Inr (Some it), s') \<Longrightarrow> quiet V s s' \<and> iter_ok V t s' it"
    and "table_begin c api t s = (Inr (Some it), s') \<Longrightarrow> quiet V s s' \<and> iter_ok V t s' it"
    and "table_end c api t s = (Inr (Some it), s') \<Longrightarrow> quiet V s s' \<and> iter_ok V t s' it"
    and "table_lowerbound c api t v s = (Inr (Some it), s') \<Longrightarrow> quiet V s s' \<and> iter_ok V t s' it"
    and "table_upperbound c api t v s = (Inr (Some it), s') \<Longrightarrow> quiet V s s' \<and> iter_ok V t s' it"
proof -
  note r = chain_reads [OF assms(1), where cd = "t_code t" and sc = "t_scope t" and tn = "def_name (t_def t)", folded table_key_def]
  show "table_find c api t v s = (Inr (Some it), s') \<Longrightarrow> quiet V s s' \<and> iter_ok V t s' it"
    using table_get_iter [OF assms(1) _ assms(2)] assms(2) by (auto simp: table_find_def act_Inr)
  show "table_begin c api t s = (Inr (Some it), s') \<Longrightarrow> quiet V s s' \<and> iter_ok V t s' it"
    using asked_iter [where ask = "db_lowerbound api (t_code t) (t_scope t) (def_name (t_def t)) 0", OF assms r(2)] assms(2)
    by (auto simp: table_begin_def act_Inr [of "lift_sum _"])
  show "table_lowerbound c api t v s = (Inr (Some it), s') \<Longrightarrow> quiet V s s' \<and> iter_ok V t s' it"
    using asked_iter [where ask = "db_lowerbound api (t_code t) (t_scope t) (def_name (t_def t)) pk" for pk, OF assms r(2)] assms(2)
    by (auto simp: table_lowerbound_def act_Inr [of "lift_sum _"])
  show "table_upperbound c api t v s = (Inr (Some it), s') \<Longrightarrow> quiet V s s' \<and> iter_ok V t s' it"
    using asked_iter [where ask = "db_upperbound api (t_code t) (t_scope t) (def_name (t_def t)) pk" for pk, OF assms r(3)] assms(2)
    by (auto simp: table_upperbound_def act_Inr [of "lift_sum _"])
  show "table_end c api t s = (Inr (Some it), s') \<Longrightarrow> quiet V s s' \<and> iter_ok V t s' it"
    using r(4) [where s = s] table_get_at_iter [OF assms(1) _ assms(2)] quiet_trans assms(2)
    by (fastforce simp: table_end_def act_Inr clamp_end_def split: if_splits)
qed

lemma moves_fromD:
  assumes "chain_ok V api"
  shows "db_next api i s = (Inr (j, r), s') \<Longrightarrow>
      (if 0 \<le> i then \<exists>tk pk. refs V s i = Some (tk, pk) \<and> rows V s tk pk \<noteq> None else j < 0 \<and> quiet V s s')"
    and "db_previous api i s = (Inr (j, r), s') \<Longrightarrow> 0 \<le> i \<Longrightarrow> \<exists>tk pk. refs V s i = Some (tk, pk) \<and> rows V s tk pk \<noteq> None"
  using assms unfolding chain_ok_def moves_from_def by blast+

lemma found_greatest: "found V tk (greatest_key (rows V s tk) P) i s' \<Longrightarrow> rows V s' = rows V s \<Longrightarrow> 0 \<le> i \<Longrightarrow>
    \<exists>pk. refs V s' i = Some (tk, pk) \<and> rows V s' tk pk \<noteq> None"
  using least_there(2) by (fastforce simp: found_def split: option.splits)

lemma move_iter:
  assumes "chain_ok V api" "now_context c" "iter_ok V t s it0"
  shows "iter_next c api it0 s = (Inr (Some it), s') \<Longrightarrow> quiet V s s' \<and> iter_ok V t s' it"
    and "iter_previous c api it0 s = (Inr (Some it), s') \<Longrightarrow> (it_idx_itr it0 = - 1 \<Longrightarrow> 0 \<le> it_itr it0) \<Longrightarrow>
      quiet V s s' \<and> iter_ok V t s' it"
proof -
  have it0: "it_table it0 = t" "0 \<le> it_itr it0 \<Longrightarrow> refs V s (it_itr it0) = Some (table_key t, it_id it0)"
    using assms(3) by (auto simp: iter_ok_def)
  show "quiet V s s' \<and> iter_ok V t s' it" if n: "iter_next c api it0 s = (Inr (Some it), s')"
  proof (cases "it_idx_itr it0 = - 1")
    case False
    then obtain ix i r s1 where x: "index_next api ix (it_idx_itr it0) s = (Inr (i, r), s1)"
        "table_get c api t (written r) i (Some ix) s1 = (Inr it, s')"
      using n it0(1) assms(2) by (auto simp: iter_next_def act_Inr split: option.splits)
    show ?thesis
      using table_get_iter [OF assms(1) x(2) assms(2)] quiet_trans [OF index_moves_quiet(1) [OF assms(1) x(1)]] by blast
  next
    case True
    then obtain i r s1 where x: "db_next api (it_itr it0) s = (Inr (i, r), s1)"
        "table_get_at c api t i (if i < 0 then - 1 else written r) (- 1) None s1 = (Inr it, s')"
      using n it0(1) assms(2) by (auto simp: iter_next_def act_Inr)
    have a: "quiet V s s1 \<and> (0 \<le> i \<longrightarrow> (\<exists>pk. refs V s1 i = Some (table_key t, pk) \<and> rows V s1 (table_key t) pk \<noteq> None))"
    proof (cases "0 \<le> it_itr it0")
      case True
      then obtain data where "rows V s (table_key t) (it_id it0) = Some data" using moves_fromD(1) [OF assms(1) x(1)] it0(2) by auto
      then obtain j s2 where n: "db_next api (it_itr it0) s = (Inr (j, least_key (rows V s (table_key t)) (\<lambda>k. it_id it0 < k)), s2)"
          "quiet V s s2" "found V (table_key t) (least_key (rows V s (table_key t)) (\<lambda>k. it_id it0 < k)) j s2"
        using chain_moves(1) [OF assms(1) it0(2) [OF True] True] by blast
      have "i = j" "s1 = s2" using x(1) n(1) by simp_all
      then show ?thesis using n(2) found_row [OF n(3) quiet_keeps(1) [OF n(2)]] by simp
    next
      case False
      then show ?thesis using moves_fromD(1) [OF assms(1) x(1)] by simp
    qed
    have "quiet V s1 s' \<and> iter_ok V t s' it" by (rule table_get_at_iter [OF assms(1) x(2) assms(2)]) (use a in simp)
    then show ?thesis using a quiet_trans [of V s s1 s'] by simp
  qed
  show "quiet V s s' \<and> iter_ok V t s' it"
    if n: "iter_previous c api it0 s = (Inr (Some it), s')" and pos: "it_idx_itr it0 = - 1 \<Longrightarrow> 0 \<le> it_itr it0"
  proof (cases "it_idx_itr it0 = - 1")
    case False
    then obtain ix i r s1 where x: "index_previous api ix (it_idx_itr it0) s = (Inr (i, r), s1)"
        "table_get c api t (written r) i (Some ix) s1 = (Inr it, s')"
      using n it0(1) assms(2) by (auto simp: iter_previous_def act_Inr split: option.splits)
    show ?thesis
      using table_get_iter [OF assms(1) x(2) assms(2)] quiet_trans [OF index_moves_quiet(2) [OF assms(1) x(1)]] by blast
  next
    case True
    then obtain i r s1 where x: "db_previous api (it_itr it0) s = (Inr (i, r), s1)"
        "table_get_at c api t i (written r) (- 1) None s1 = (Inr it, s')"
      using n it0(1) assms(2) by (auto simp: iter_previous_def act_Inr)
    note p = pos [OF True]
    obtain data where "rows V s (table_key t) (it_id it0) = Some data"
      using moves_fromD(2) [OF assms(1) x(1) p] it0(2) [OF p] by auto
    then obtain j s2 where n: "db_previous api (it_itr it0) s = (Inr (j, greatest_key (rows V s (table_key t)) (\<lambda>k. k < it_id it0)), s2)"
        "quiet V s s2" "found V (table_key t) (greatest_key (rows V s (table_key t)) (\<lambda>k. k < it_id it0)) j s2"
      using chain_moves(2) [OF assms(1) it0(2) [OF p] p] by blast
    have "i = j" "s1 = s2" using x(1) n(1) by simp_all
    then have a: "quiet V s s1" "0 \<le> i \<Longrightarrow> \<exists>pk. refs V s1 i = Some (table_key t, pk) \<and> rows V s1 (table_key t) pk \<noteq> None"
      using n(2) found_greatest [OF n(3) quiet_keeps(1) [OF n(2)]] by simp_all
    have "quiet V s1 s' \<and> iter_ok V t s' it" by (rule table_get_at_iter [OF assms(1) x(2) assms(2) a(2)])
    then show ?thesis using quiet_trans [OF a(1)] by simp
  qed
qed

lemma index_search_iter:
  assumes "chain_ok V api" "now_context c" "index_wf ix"
    "\<And>ks x s s'. length ks = 4 \<Longrightarrow> search api ix ks s = (Inr x, s') \<Longrightarrow> quiet V s s'"
    "index_search search c api t ix v s = (Inr it, s')"
  shows "quiet V s s' \<and> iter_ok V t s' it"
proof -
  obtain ks i r s1 pk where x: "build_key c ix v = Inr ks" "search api ix ks s = (Inr (i, r), s1)"
      "table_get c api t pk i (Some ix) s1 = (Inr it, s')"
    using assms(5) by (auto simp: index_search_def act_Inr)
  show ?thesis
    using table_get_iter [OF assms(1) x(3) assms(2)] quiet_trans [OF assms(4) [OF build_key_length [OF x(1) assms(3)] x(2)]] by blast
qed

lemma index_find_quiet: "chain_ok V api \<Longrightarrow> length ks = 4 \<Longrightarrow> index_find api ix ks s = (Inr x, s') \<Longrightarrow> quiet V s s'"
  using index_find_entry [of V api ks ix s] by auto

section \<open>Everything a contract does with a table\<close>

text \<open>A state and the iterator objects the contract holds.  Values it puts into a row are kept by
  the ABI (\<open>keeps_keys\<close>); each call returns; \<open>previous\<close> is not asked of an end.\<close>

inductive db_step ::
    "'e contract_scheme \<Rightarrow> 's chain_api \<Rightarrow> table \<Rightarrow> 's \<times> db_iter list \<Rightarrow> 's \<times> db_iter list \<Rightarrow> bool"
  for c api t where
  step_emplace: "emplace c api t payer val s = (Inr (), s') \<Longrightarrow> keeps_keys c t val \<Longrightarrow> db_step c api t (s, its) (s', its)"
| step_update: "it \<in> set its \<Longrightarrow> iter_update c api it payer s = (Inr (), s') \<Longrightarrow> keeps_keys c t (it_data it) \<Longrightarrow>
    db_step c api t (s, its) (s', its)"
| step_remove: "it \<in> set its \<Longrightarrow> iter_remove c api it s = (Inr (), s') \<Longrightarrow> db_step c api t (s, its) (s', its)"
| step_set_data: "it \<in> set its \<Longrightarrow> set_data v it = Inr it' \<Longrightarrow> db_step c api t (s, its) (s, it' # its)"
| step_find: "table_find c api t v s = (Inr (Some it), s') \<Longrightarrow> db_step c api t (s, its) (s', it # its)"
| step_begin: "table_begin c api t s = (Inr (Some it), s') \<Longrightarrow> db_step c api t (s, its) (s', it # its)"
| step_end: "table_end c api t s = (Inr (Some it), s') \<Longrightarrow> db_step c api t (s, its) (s', it # its)"
| step_lowerbound: "table_lowerbound c api t v s = (Inr (Some it), s') \<Longrightarrow> db_step c api t (s, its) (s', it # its)"
| step_upperbound: "table_upperbound c api t v s = (Inr (Some it), s') \<Longrightarrow> db_step c api t (s, its) (s', it # its)"
| step_index_find: "ix \<in> set (indexes_array t) \<Longrightarrow> Index_find c api t ix v s = (Inr it, s') \<Longrightarrow> db_step c api t (s, its) (s', it # its)"
| step_index_lowerbound: "ix \<in> set (indexes_array t) \<Longrightarrow> Index_lowerbound c api t ix v s = (Inr it, s') \<Longrightarrow>
    db_step c api t (s, its) (s', it # its)"
| step_index_upperbound: "ix \<in> set (indexes_array t) \<Longrightarrow> Index_upperbound c api t ix v s = (Inr it, s') \<Longrightarrow>
    db_step c api t (s, its) (s', it # its)"
| step_next: "it0 \<in> set its \<Longrightarrow> iter_next c api it0 s = (Inr (Some it), s') \<Longrightarrow> db_step c api t (s, its) (s', it # its)"
| step_previous: "it0 \<in> set its \<Longrightarrow> iter_previous c api it0 s = (Inr (Some it), s') \<Longrightarrow>
    (it_idx_itr it0 = - 1 \<Longrightarrow> 0 \<le> it_itr it0) \<Longrightarrow> db_step c api t (s, its) (s', it # its)"

definition consistent :: "'s view \<Rightarrow> 'e contract_scheme \<Rightarrow> table \<Rightarrow> 's \<times> db_iter list \<Rightarrow> bool" where
  "consistent V c t x \<longleftrightarrow> in_step V c t (fst x) \<and> (\<forall>it \<in> set (snd x). iter_ok V t (fst x) it)"

lemma consistent_quiet:
  "consistent V c t (s, its) \<Longrightarrow> quiet V s s' \<and> iter_ok V t s' it \<Longrightarrow> consistent V c t (s', it # its)"
  unfolding consistent_def using in_step_quiet iter_ok_grows quiet_def by (metis fst_conv snd_conv set_ConsD)

lemma consistent_write:
  "consistent V c t (s, its) \<Longrightarrow> in_step V c t s' \<Longrightarrow> row_changed V t pk rw s s' \<Longrightarrow> consistent V c t (s', its)"
  unfolding consistent_def row_changed_def by (auto intro: iter_ok_grows)

lemma set_data_iter: "set_data v it = Inr it' \<Longrightarrow> iter_ok V t s it \<Longrightarrow> iter_ok V t s it'"
  by (auto simp: set_data_def iter_ok_def split: jsv.splits)

lemma db_step_consistent:
  assumes "db_step c api t x y" "chain_ok V api" "own_table V t" "now_context c" "consistent V c t x"
  shows "consistent V c t y"
  using assms(1,5)
proof (induction rule: db_step.induct)
  case (step_emplace payer val s s' its)
  then show ?case
    using emplace_step [OF assms(2,3) _ step_emplace(2) assms(4) step_emplace(1)] consistent_write by (fastforce simp: consistent_def)
next
  case (step_update it its payer s s')
  then have "in_step V c t s" "iter_ok V t s it" by (auto simp: consistent_def)
  then show ?case
    using update_step [OF assms(2,3) _ _ step_update(3) assms(4) step_update(2)] consistent_write [OF step_update(4)] by blast
next
  case (step_remove it its s s')
  then have "in_step V c t s" "iter_ok V t s it" by (auto simp: consistent_def)
  then show ?case
    using remove_step [OF assms(2,3) _ _ assms(4) step_remove(2)] consistent_write [OF step_remove(3)] by blast
next
  case (step_set_data it its v it' s)
  then show ?case by (auto simp: consistent_def intro: set_data_iter)
next
  case (step_find v s it s' its)
  show ?case by (rule consistent_quiet [OF step_find(2) search_iter(1) [OF assms(2,4) step_find(1)]])
next
  case (step_begin s it s' its)
  show ?case by (rule consistent_quiet [OF step_begin(2) search_iter(2) [OF assms(2,4) step_begin(1)]])
next
  case (step_end s it s' its)
  show ?case by (rule consistent_quiet [OF step_end(2) search_iter(3) [OF assms(2,4) step_end(1)]])
next
  case (step_lowerbound v s it s' its)
  show ?case by (rule consistent_quiet [OF step_lowerbound(2) search_iter(4) [OF assms(2,4) step_lowerbound(1)]])
next
  case (step_upperbound v s it s' its)
  show ?case by (rule consistent_quiet [OF step_upperbound(2) search_iter(5) [OF assms(2,4) step_upperbound(1)]])
next
  case (step_index_find ix v s it s' its)
  show ?case
    by (rule consistent_quiet [OF step_index_find(3) index_search_iter [OF assms(2,4) own_index(1) [OF assms(3) step_index_find(1)]
      index_find_quiet [OF assms(2)] step_index_find(2) [unfolded Index_find_def]]])
next
  case (step_index_lowerbound ix v s it s' its)
  show ?case
    by (rule consistent_quiet [OF step_index_lowerbound(3) index_search_iter [OF assms(2,4) own_index(1) [OF assms(3) step_index_lowerbound(1)]
      index_moves_quiet(3) [OF assms(2)] step_index_lowerbound(2) [unfolded Index_lowerbound_def]]])
next
  case (step_index_upperbound ix v s it s' its)
  show ?case
    by (rule consistent_quiet [OF step_index_upperbound(3) index_search_iter [OF assms(2,4) own_index(1) [OF assms(3) step_index_upperbound(1)]
      index_moves_quiet(4) [OF assms(2)] step_index_upperbound(2) [unfolded Index_upperbound_def]]])
next
  case (step_next it0 its s it s')
  then have "iter_ok V t s it0" by (auto simp: consistent_def)
  then show ?case by (rule consistent_quiet [OF step_next(3) move_iter(1) [OF assms(2,4) _ step_next(2)]])
next
  case (step_previous it0 its s it s')
  then have "iter_ok V t s it0" by (auto simp: consistent_def)
  then show ?case by (rule consistent_quiet [OF step_previous(4) move_iter(2) [OF assms(2,4) _ step_previous(2,3)]])
qed

lemma db_steps_consistent:
  assumes "(db_step c api t)\<^sup>*\<^sup>* x y" "chain_ok V api" "own_table V t" "now_context c" "consistent V c t x"
  shows "consistent V c t y"
  using assms(1,5) by (induction rule: rtranclp_induct) (auto intro: db_step_consistent [OF _ assms(2-4)])


lemma demo_own: "own_table (ref_view 16) (demo_table 48)"
  by (auto simp: own_table_def demo_table_def demo_def_of_def table_wf_def index_wf_def class_size_def nth_Cons' less_Suc_eq)

lemma demo_keeps: "keeps_keys demo (demo_table 48) (demo_row 2 7)"
  by (auto simp: keeps_keys_def demo_encode_def demo_row_def row_entry_def row_value_def demo_decode_def set_all_def demo_table_def
      value_entry_def build_key_def split: if_splits)

lemma demo_in_step: "in_step (ref_view 16) demo (demo_table 48) ref_empty"
  by (simp add: in_step_def ref_empty_def entries_of_def entries_def)

lemma demo_emplace: "\<exists>s'. emplace demo (ref_api 16) (demo_table 48) ''a'' (demo_row 2 7) ref_empty = (Inr (), s') \<and>
    entries_of (ref_view 16) s' (indexes_array (demo_table 48) ! 0) 2 = Some [7]"
proof -
  have k: "build_key demo ix (demo_row 2 7) = Inr [7, 0, 0, 0]" if "i_sz ix = 1" for ix
    using that by (simp add: build_key_def demo_row_def numeral_eq_Suc)
  have enc: "demo_encode ty (fc_value (demo_row 2 7)) = Inr [2, 7]" for ty
    by (simp add: demo_encode_def demo_row_def set_all_def)
  show ?thesis
    unfolding emplace_def
    by (simp add: demo_name lift_Inr demo_table_def demo_def_of_def enc)
      (simp add: demo_row_def bind_act_def lift_sum_def try_fc_def ref_api_def ref_empty_def hand_out_def put_row_def store_index_def
        store_value_def k [unfolded demo_row_def] index_store_def Index64_store_def ref_sec_def hand_out_sec_def put_sec_def ret_def
        index_name_def entries_of_def entries_def quad64_def)
qed


section \<open>A table as a map\<close>

text \<open>What a value reads as once it is stored.\<close>

definition stored :: "'e contract_scheme \<Rightarrow> table \<Rightarrow> jsv \<Rightarrow> jsv option" where
  "stored c t val = (case variant_to_binary c (def_type (t_def t)) (fc_value val) of Inl e \<Rightarrow> None
     | Inr data \<Rightarrow> (case row_value c t data of Inl e \<Rightarrow> None | Inr v \<Rightarrow> Some v))"

lemma row_changed_rows:
  "row_changed V t pk rw s s' \<Longrightarrow> table_rows V c t s' = (table_rows V c t s)(pk :=
     (case rw of None \<Rightarrow> None | Some data \<Rightarrow> (case row_value c t data of Inl e \<Rightarrow> None | Inr v \<Rightarrow> Some v)))"
  by (rule ext) (simp add: row_changed_def table_rows_def)

text \<open>
  C17: Seen as a map from numbers to values, \<open>emplace\<close> adds a row under the number its key property
  gives, which had none; \<open>update\<close> replaces the row of the iterator, \<open>remove\<close> takes it away; no call
  touches another row.  \<open>update\<close> does not look at the key property, so a row can say another number
  than the one it is stored under.
\<close>

theorem table_refines_map:
  assumes "chain_ok V api" "own_table V t" "now_context c" "in_step V c t s" "iter_ok V t s it"
    "keeps_keys c t val" "keeps_keys c t (it_data it)"
  shows "(emplace c api t payer val s = (Inr (), s1) \<longrightarrow>
      (\<exists>pk. get_index c (get_prop val (hd (key_names (t_def t)))) = Inr pk \<and> table_rows V c t s pk = None \<and>
         table_rows V c t s1 = (table_rows V c t s)(pk := stored c t val))) \<and>
    (iter_update c api it payer s = (Inr (), s2) \<longrightarrow>
      table_rows V c t s2 = (table_rows V c t s)(it_id it := stored c t (it_data it))) \<and>
    (iter_remove c api it s = (Inr (), s3) \<longrightarrow>
      table_rows V c t s3 = (table_rows V c t s)(it_id it := None))"
proof (intro conjI impI)
  assume "emplace c api t payer val s = (Inr (), s1)"
  from emplace_step [OF assms(1,2,4,6,3) this]
  obtain pk data where e: "get_index c (get_prop val (hd (key_names (t_def t)))) = Inr pk"
      "variant_to_binary c (def_type (t_def t)) (fc_value val) = Inr data" "rows V s (table_key t) pk = None"
      "row_changed V t pk (Some data) s s1" by blast
  then show "\<exists>pk. get_index c (get_prop val (hd (key_names (t_def t)))) = Inr pk \<and> table_rows V c t s pk = None \<and>
      table_rows V c t s1 = (table_rows V c t s)(pk := stored c t val)"
    using row_changed_rows [OF e(4), of c] by (intro exI [of _ pk]) (simp add: stored_def table_rows_def)
next
  assume "iter_update c api it payer s = (Inr (), s2)"
  from update_step [OF assms(1,2,4,5,7,3) this]
  obtain data where e: "variant_to_binary c (def_type (t_def t)) (fc_value (it_data it)) = Inr data"
      "row_changed V t (it_id it) (Some data) s s2" by blast
  then show "table_rows V c t s2 = (table_rows V c t s)(it_id it := stored c t (it_data it))"
    using row_changed_rows [OF e(2), of c] by (simp add: stored_def)
next
  assume "iter_remove c api it s = (Inr (), s3)"
  from remove_step [OF assms(1,2,4,5,3) this]
  have "row_changed V t (it_id it) None s s3" by blast
  then show "table_rows V c t s3 = (table_rows V c t s)(it_id it := None)"
    using row_changed_rows by fastforce
qed

definition demo_end :: db_iter where
  "demo_end = \<lparr>it_table = demo_table 48, it_id = 0, it_itr = - 2, it_idx_itr = - 1, it_index = None, it_data = demo_row 2 7\<rparr>"

lemma table_refines_map_witness:
  "\<exists>s'. emplace demo (ref_api 16) (demo_table 48) ''a'' (demo_row 2 7) ref_empty = (Inr (), s') \<and>
     table_rows (ref_view 16) demo (demo_table 48) s' = [2 \<mapsto> demo_row 2 7]"
proof -
  obtain s' where s': "emplace demo (ref_api 16) (demo_table 48) ''a'' (demo_row 2 7) ref_empty = (Inr (), s')"
    using demo_emplace by blast
  have "iter_ok (ref_view 16) (demo_table 48) ref_empty demo_end" "it_data demo_end = demo_row 2 7"
    by (simp_all add: iter_ok_def demo_end_def)
  then have "\<exists>pk. get_index demo (get_prop (demo_row 2 7) (hd (key_names (t_def (demo_table 48))))) = Inr pk \<and>
      table_rows (ref_view 16) demo (demo_table 48) s' =
        (table_rows (ref_view 16) demo (demo_table 48) ref_empty)(pk := stored demo (demo_table 48) (demo_row 2 7))"
    using table_refines_map [OF ref_ok demo_own demo_sel(11) demo_in_step, of demo_end "demo_row 2 7" "''a''" s'] demo_keeps s' by auto
  moreover have "table_rows (ref_view 16) demo (demo_table 48) ref_empty = Map.empty"
    by (simp add: fun_eq_iff table_rows_def ref_empty_def)
  moreover have "stored demo (demo_table 48) (demo_row 2 7) = Some (demo_row 2 7)"
    by (simp add: stored_def demo_row_def demo_encode_def demo_decode_def row_value_def set_all_def)
  ultimately show ?thesis using s' by (simp add: demo_row_def demo_table_def demo_def_of_def)
qed

section \<open>Searching an index\<close>

lemma least_key_eq: "m pk \<noteq> None \<Longrightarrow> least_key m (\<lambda>j. j = pk) = Some pk"
proof -
  assume "m pk \<noteq> None"
  then have "{j \<in> dom m. j = pk} = {pk}" by auto
  then show ?thesis by (simp add: least_key_def)
qed

lemma table_get_reads:
  assumes "chain_ok V api" "now_context c" "readable V c t s"
  shows "\<exists>j s' v. table_get c api t p i ix s =
     (Inr \<lparr>it_table = t, it_id = p, it_itr = j, it_idx_itr = i, it_index = ix, it_data = v\<rparr>, s') \<and>
     (if table_rows V c t s p = None then j < 0 else 0 \<le> j \<and> table_rows V c t s p = Some v)"
proof -
  obtain j s2 where g: "db_find api (t_code t) (t_scope t) (def_name (t_def t)) p s = (Inr j, s2)" "quiet V s s2"
      "found V (table_key t) (least_key (rows V s (table_key t)) (\<lambda>j. j = p)) j s2"
    using chain_reads(1) [OF assms(1)] unfolding table_key_def by blast
  have r: "rows V s2 = rows V s" using quiet_keeps(1) g(2) by metis
  have run: "table_get c api t p i ix s = table_get_at c api t j p i ix s2"
    using g(1) by (simp add: table_get_def bind_act_def try_chain_def)
  show ?thesis
  proof (cases "rows V s (table_key t) p")
    case None
    then have "least_key (rows V s (table_key t)) (\<lambda>j. j = p) = None" by (simp add: least_key_None)
    then have "j < 0" using g(3) by (simp add: found_def)
    then show ?thesis using run table_get_at_none [of j c api t p i ix s2] None by (auto simp: table_rows_def)
  next
    case (Some data)
    obtain v where v: "row_value c t data = Inr v" using readableD [OF assms(3) Some] by blast
    have "least_key (rows V s (table_key t)) (\<lambda>j. j = p) = Some p" by (rule least_key_eq) (use Some in simp)
    then have ref: "refs V s2 j = Some (table_key t, p)" "0 \<le> j" using g(3) by (simp_all add: found_def)
    have "rows V s2 (table_key t) p = Some data" using Some r by simp
    from table_get_at_row [OF assms(1,2) ref this v] show ?thesis using run ref(2) Some v by (fastforce simp: table_rows_def)
  qed
qed

lemma entries_of_rows:
  assumes "in_step V c t s" "readable V c t s" "ix \<in> set (indexes_array t)"
  shows "entries_of V s ix pk = (case table_rows V c t s pk of None \<Rightarrow> None | Some v \<Rightarrow> value_entry c ix v)"
    "entries_of V s ix pk = None \<longleftrightarrow> table_rows V c t s pk = None"
proof -
  have "(case rows V s (table_key t) pk of None \<Rightarrow> table_rows V c t s pk = None \<and> entries_of V s ix pk = None
    | Some data \<Rightarrow> \<exists>v. table_rows V c t s pk = Some v \<and> entries_of V s ix pk = value_entry c ix v \<and> value_entry c ix v \<noteq> None)"
    using in_step_entry(2) [OF assms(1,3), of pk] in_step_entry(1) [OF assms(1,3), of pk] readableD [OF assms(2), of pk]
    by (cases "rows V s (table_key t) pk") (fastforce simp: table_rows_def row_entry_def)+
  then show "entries_of V s ix pk = (case table_rows V c t s pk of None \<Rightarrow> None | Some v \<Rightarrow> value_entry c ix v)"
    "entries_of V s ix pk = None \<longleftrightarrow> table_rows V c t s pk = None"
    by (auto split: option.splits)
qed

lemma least_entry:
  assumes "in_step V c t s" "readable V c t s" "ix \<in> set (indexes_array t)"
  shows "least_key (entries_of V s ix) (\<lambda>pk. entries_of V s ix pk = Some k) =
    least_key (table_rows V c t s) (\<lambda>pk. value_entry c ix (the (table_rows V c t s pk)) = Some k)"
proof -
  have "{pk \<in> dom (entries_of V s ix). entries_of V s ix pk = Some k} =
      {pk \<in> dom (table_rows V c t s). value_entry c ix (the (table_rows V c t s pk)) = Some k}"
    using entries_of_rows(1) [OF assms] by (auto split: option.splits)
  then show ?thesis by (simp add: least_key_def)
qed

text \<open>
  C23: In a table whose indexes are in step, a search through an index for a key finds the row with
  the least number among those whose value has this key, and the row's value; when there is none it
  is at the end, unless a row has the number \<open>2^64 - 1\<close>, which the code loads for a miss.
\<close>

theorem index_find_row:
  assumes "chain_ok V api" "own_table V t" "now_context c" "in_step V c t s" "readable V c t s"
    "ix \<in> set (indexes_array t)" "build_key c ix val = Inr ks"
  shows "\<exists>it s'. Index_find c api t ix val s = (Inr it, s') \<and>
    (case least_key (table_rows V c t s) (\<lambda>pk. value_entry c ix (the (table_rows V c t s pk)) = Some (class_words (i_class ix) ks)) of
       Some pk \<Rightarrow> \<not> is_end it \<and> it_id it = pk \<and> table_rows V c t s pk = Some (it_data it)
     | None \<Rightarrow> table_rows V c t s (- 1) = None \<longrightarrow> is_end it)"
proof -
  let ?l = "least_key (table_rows V c t s) (\<lambda>pk. value_entry c ix (the (table_rows V c t s pk)) = Some (class_words (i_class ix) ks))"
  obtain i s1 where f: "index_find api ix ks s = (Inr (i, ?l), s1)" "quiet V s s1" "?l = None \<longleftrightarrow> i < 0"
    using index_find_entry [OF assms(1) build_key_length [OF assms(7) own_index(1) [OF assms(2,6)]], of ix s]
    unfolding least_entry [OF assms(4-6)] by (elim exE conjE) (rule that)
  let ?p = "if i < 0 then - 1 else case ?l of None \<Rightarrow> uninit c | Some p \<Rightarrow> p"
  obtain j s2 v where g: "table_get c api t ?p i (Some ix) s1 =
      (Inr \<lparr>it_table = t, it_id = ?p, it_itr = j, it_idx_itr = i, it_index = Some ix, it_data = v\<rparr>, s2)"
      "if table_rows V c t s ?p = None then j < 0 else 0 \<le> j \<and> table_rows V c t s ?p = Some v"
    using table_get_reads [OF assms(1,3) assms(5) [folded quiet_rows(2) [OF f(2)]], of ?p i "Some ix"]
    unfolding quiet_rows(1) [OF f(2)] by (elim exE conjE) (rule that)
  have run: "Index_find c api t ix val s =
      (Inr \<lparr>it_table = t, it_id = ?p, it_itr = j, it_idx_itr = i, it_index = Some ix, it_data = v\<rparr>, s2)"
    using f(1) g(1) assms(7) by (simp add: Index_find_def index_search_def bind_act_def try_chain_def lift_sum_def)
  show ?thesis
  proof (cases ?l)
    case None
    then show ?thesis using run f(3) g(2) by (auto simp: is_end_def)
  next
    case (Some p)
    then show ?thesis using run f(3) g(2) least_there(1) [OF Some] by (auto simp: is_end_def)
  qed
qed

lemma demo_after:
  "\<exists>s'. emplace demo (ref_api 16) (demo_table 48) ''a'' (demo_row 2 7) ref_empty = (Inr (), s') \<and>
     in_step (ref_view 16) demo (demo_table 48) s' \<and> readable (ref_view 16) demo (demo_table 48) s' \<and>
     table_rows (ref_view 16) demo (demo_table 48) s' = [2 \<mapsto> demo_row 2 7]"
proof -
  obtain s' where s': "emplace demo (ref_api 16) (demo_table 48) ''a'' (demo_row 2 7) ref_empty = (Inr (), s')"
    using demo_emplace by blast
  from emplace_step [OF ref_ok demo_own demo_in_step demo_keeps demo_sel(11) s']
  obtain pk data where e: "get_index demo (get_prop (demo_row 2 7) (hd (key_names (t_def (demo_table 48))))) = Inr pk"
      "variant_to_binary demo (def_type (t_def (demo_table 48))) (fc_value (demo_row 2 7)) = Inr data"
      "row_changed (ref_view 16) (demo_table 48) pk (Some data) ref_empty s'" "in_step (ref_view 16) demo (demo_table 48) s'"
    by blast
  have pd: "pk = 2" "data = [2, 7]"
    using e(1,2) by (simp_all add: demo_row_def demo_table_def demo_def_of_def demo_encode_def set_all_def)
  have m: "table_rows (ref_view 16) demo (demo_table 48) s' = [2 \<mapsto> demo_row 2 7]"
    using row_changed_rows [OF e(3), of demo]
    by (simp add: pd fun_eq_iff table_rows_def ref_empty_def row_value_def demo_decode_def demo_row_def set_all_def)
  moreover have "readable (ref_view 16) demo (demo_table 48) s'"
    unfolding readable_def m using e(3) by (simp add: row_changed_def pd ref_empty_def)
  ultimately show ?thesis using s' e(4) by blast
qed

lemma index_find_row_witness:
  "\<exists>s it s'. Index_find demo (ref_api 16) (demo_table 48) (indexes_array (demo_table 48) ! 0) (demo_row 0 7) s = (Inr it, s') \<and>
     it_data it = demo_row 2 7"
proof -
  let ?ix = "indexes_array (demo_table 48) ! 0"
  obtain s where s: "in_step (ref_view 16) demo (demo_table 48) s" "readable (ref_view 16) demo (demo_table 48) s"
      "table_rows (ref_view 16) demo (demo_table 48) s = [2 \<mapsto> demo_row 2 7]"
    using demo_after by blast
  have k: "build_key demo ?ix (demo_row a 7) = Inr [7, 0, 0, 0]" for a
    by (simp add: build_key_def demo_row_def demo_table_def numeral_eq_Suc)
  have ix: "?ix \<in> set (indexes_array (demo_table 48))" "i_class ?ix = Class64" by (simp_all add: demo_table_def)
  have "least_key [2 \<mapsto> demo_row 2 7] (\<lambda>pk. value_entry demo ?ix (the ([2 \<mapsto> demo_row 2 7] pk)) = Some (class_words (i_class ?ix) [7, 0, 0, 0]))
      = Some (2 :: 64 word)"
  proof -
    have "{j \<in> dom [2 \<mapsto> demo_row 2 7]. value_entry demo ?ix (the ([2 \<mapsto> demo_row 2 7] j)) = Some (class_words (i_class ?ix) [7, 0, 0, 0])}
        = {2 :: 64 word}"
      using k by (auto simp: value_entry_def)
    then show ?thesis by (simp add: least_key_def)
  qed
  then show ?thesis
    using index_find_row [OF ref_ok demo_own demo_sel(11) s(1,2) ix(1) k [of 0]] unfolding s(3) by fastforce
qed

section \<open>Failures in the middle of a call\<close>

text \<open>
  C33: When the chain has stored the row and an index function then fails, \<open>emplace\<close> answers with an
  error a contract can catch, and the row stays without an entry: the table and its indexes are out
  of step.
\<close>

theorem emplace_half_done:
  assumes "chain_ok V api" "own_table V t" "in_step V c t s" "now_context c" "string_to_name c payer = Inr pyr"
    "get_index c (get_prop val (hd (key_names (t_def t)))) = Inr pk"
    "variant_to_binary c (def_type (t_def t)) (fc_value val) = Inr data"
    "db_store api (t_scope t) (def_name (t_def t)) pyr pk data s = (Inr i, s')"
    "indexes_array t = ix # ixs" "build_key c ix val = Inl e"
  shows "emplace c api t payer val s = (Inl (caught_fc e), s') \<and> rows V s' (table_key t) pk = Some data \<and>
    entries_of V s' ix pk = None \<and> \<not> in_step V c t s'"
proof -
  have "emplace c api t payer val s = (Inl (caught_fc e), s')"
    using assms(4-10) by (simp add: emplace_def try_fc_def bind_act_def lift_sum_def store_index_def store_value_def)
  moreover have tk: "table_key t = (receiver V, t_scope t, def_name (t_def t))" using assms(2) by (simp add: own_table_def table_key_def)
  have w: "rows V s (table_key t) pk = None" "set_row V s (table_key t) pk (Some data) s'"
    using chain_writes(1) [OF assms(1,8)] by (auto simp: tk)
  have ix: "ix \<in> set (indexes_array t)" using assms(9) by simp
  have r: "rows V s' (table_key t) pk = Some data" using w(2) by (simp add: set_row_def)
  moreover have "entries_of V s' ix pk = None" using in_step_entry(2) [OF assms(3) ix w(1)] set_row_entries [OF w(2)] by simp
  moreover have "\<not> in_step V c t s'"
    using calculation(3) in_step_entry(1) [OF _ ix r] by (metis (mono_tags))
  ultimately show ?thesis by simp
qed

lemma emplace_half_done_witness:
  "\<exists>s'. emplace (demo\<lparr>call_function := \<lambda>f v. Inl ''boom''\<rparr>) (ref_api 16) (demo_table 48) ''a'' (demo_row 2 7) ref_empty =
       (Inl (Set_error ''boom''), s') \<and>
     \<not> in_step (ref_view 16) (demo\<lparr>call_function := \<lambda>f v. Inl ''boom''\<rparr>) (demo_table 48) s'"
proof -
  let ?c = "demo\<lparr>call_function := \<lambda>f v. Inl ''boom''\<rparr>"
  obtain i s' where st: "db_store (ref_api 16) 32 48 16 2 [2, 7] ref_empty = (Inr i, s')"
    by (simp add: ref_api_def ref_empty_def hand_out_def)
  obtain ix ixs where ixs: "indexes_array (demo_table 48) = ix # ixs" by (simp add: demo_table_def)
  have c: "string_to_name ?c ''a'' = Inr 16" "variant_to_binary ?c = demo_encode" "now_context ?c"
    using demo_name(4) by (simp_all add: string_to_name_def)
  have t: "t_scope (demo_table 48) = 32" "def_name (t_def (demo_table 48)) = 48" "hd (key_names (t_def (demo_table 48))) = ''aa''"
    by (simp_all add: demo_table_def demo_def_of_def)
  have v: "get_index ?c (get_prop (demo_row 2 7) ''aa'') = Inr 2" by (simp add: demo_row_def)
  have enc: "demo_encode ty (fc_value (demo_row 2 7)) = Inr [2, 7]" for ty by (simp add: demo_encode_def demo_row_def set_all_def)
  have k: "build_key ?c ix (demo_row 2 7) = Inl (Thrown (Chain_exception ''boom'' []))" by (simp add: build_key_def)
  have "in_step (ref_view 16) ?c (demo_table 48) ref_empty" by (simp add: in_step_def ref_empty_def entries_of_def entries_def)
  from emplace_half_done [OF ref_ok demo_own this c(3,1) _ _ _ ixs k, of 2 "[2, 7]" i s'] show ?thesis
    using v enc st by (simp add: t c)
qed

text \<open>
  The next free number is one more than the highest in the table, 0 for an empty table; it is
  free unless the table has a row with the number \<open>2^64 - 1\<close>, when it starts again at 0.
\<close>

theorem primary_key_free:
  assumes "chain_ok V api"
  shows "\<exists>s'. get_primary_key c api t s =
      (Inr (case greatest_key (rows V s (table_key t)) (\<lambda>k. True) of None \<Rightarrow> 0 | Some g \<Rightarrow> g + 1), s') \<and> quiet V s s' \<and>
    (rows V s (table_key t) (- 1) = None \<longrightarrow>
      rows V s (table_key t) (case greatest_key (rows V s (table_key t)) (\<lambda>k. True) of None \<Rightarrow> 0 | Some g \<Rightarrow> g + 1) = None)"
proof -
  let ?m = "rows V s (table_key t)" and ?g = "greatest_key (rows V s (table_key t)) (\<lambda>k. True)"
  obtain i s1 where e: "db_end api (t_code t) (t_scope t) (def_name (t_def t)) s = (Inr i, s1)" "quiet V s s1"
      "if ?m = Map.empty then i = - 1 else i < - 1 \<and> ends V s1 i = Some (table_key t)"
    using chain_reads(4) [OF assms] unfolding table_key_def by blast
  have free: "?m (- 1) = None \<longrightarrow> ?m (case ?g of None \<Rightarrow> 0 | Some g \<Rightarrow> g + 1) = None"
  proof (intro impI, cases ?g)
    case None
    then show "?m (case ?g of None \<Rightarrow> 0 | Some g \<Rightarrow> g + 1) = None" by (auto simp: greatest_key_def split: if_splits)
  next
    fix g assume m: "?m (- 1) = None" and g: "?g = Some g"
    have "g \<noteq> - 1" using m least_there(2) [OF g] by auto
    then have "g < g + 1" using inc_less_eq_triv_imp [of g] by (metis linorder_not_less)
    then show "?m (case ?g of None \<Rightarrow> 0 | Some g \<Rightarrow> g + 1) = None" using greatest_key_Some [OF g] g by fastforce
  qed
  show ?thesis
  proof (cases "?m = Map.empty")
    case True
    then show ?thesis
      using e by (intro exI [of _ s1]) (simp add: get_primary_key_def try_chain_def bind_act_def ret_def greatest_key_def)
  next
    case False
    then have i: "i < - 1" "ends V s1 i = Some (table_key t)" using e(3) by auto
    obtain j s2 where p: "db_previous api i s1 = (Inr (j, greatest_key (rows V s1 (table_key t)) (\<lambda>k. True)), s2)" "quiet V s1 s2"
        "found V (table_key t) (greatest_key (rows V s1 (table_key t)) (\<lambda>k. True)) j s2"
      using chain_previous_end [OF assms i(2,1)] by blast
    obtain g where g: "?g = Some g" using False by (auto simp: greatest_key_def fun_eq_iff)
    have "rows V s1 (table_key t) = ?m" using quiet_keeps(1) [OF e(2)] by simp
    then show ?thesis
      using e(1) p g i(1) free quiet_trans [OF e(2) p(2)]
      by (intro exI [of _ s2]) (simp add: get_primary_key_def try_chain_def bind_act_def ret_def found_def)
  qed
qed

lemma primary_key_free_witness:
  "\<exists>s'. get_primary_key demo (ref_api 16) (demo_table 48) demo_state = (Inr 6, s')"
proof -
  have "dom (rows (ref_view 16) demo_state (table_key (demo_table 48))) = {2, 5}"
    by (auto simp: demo_state_def table_key_def demo_table_def demo_def_of_def split: if_splits)
  then have "{j \<in> dom (rows (ref_view 16) demo_state (table_key (demo_table 48))). True} = {2, 5}" by auto
  then have "greatest_key (rows (ref_view 16) demo_state (table_key (demo_table 48))) (\<lambda>k. True) = Some 5"
    unfolding greatest_key_def by (simp only:) simp
  then show ?thesis using primary_key_free [OF ref_ok [of 16], of demo "demo_table 48" demo_state] by auto
qed

end
