(* ===== verification/Js_Module.thy ===== *)
theory Js_Module
  imports Contract_Cache Js_Consistent Hex_Codec Chain_Ref
begin

text \<open>
  Applying an action to a JavaScript contract: \<^verbatim>\<open>src/js_contract/src/js_module.cpp\<close>.  The
  contract's state \<open>db.state\<close> is an object that is read from a row of the chain's database when
  a script first asks for it and written back at the end of the action.

  The engine is a parameter: \<open>require\<close> runs the module and gives what it exports, \<open>call\<close> calls
  a function; both may use the tables, read and replace the state object, and fail.  So are the
  JSON codec, the archive file system, the serializer of an ABI and the chain.  Times are
  microseconds; the code's are milliseconds as doubles.
\<close>

section \<open>What the code sees\<close>

record 'a engine =
  to_text :: "64 word \<Rightarrow> string"
  to_name :: "string \<Rightarrow> 64 word"
  nstring :: "string \<Rightarrow> string"
  json_encode :: "jsv \<Rightarrow> js_error + string"
  json_decode :: "string \<Rightarrow> jsv option"
  set_zipfs :: "string \<Rightarrow> 8 word list \<Rightarrow> js_error option"
  get_exception :: "js_error \<Rightarrow> string"
  abi_of :: "64 word \<Rightarrow> js_error + 'a"
  action_type :: "'a \<Rightarrow> 64 word \<Rightarrow> string"
  result_type :: "'a \<Rightarrow> 64 word \<Rightarrow> string"
  unpack_value :: "'a \<Rightarrow> string \<Rightarrow> 8 word list \<Rightarrow> js_error + fcv"
  pack_value :: "'a \<Rightarrow> string \<Rightarrow> fcv \<Rightarrow> js_error + 8 word list"

text \<open>The action, its transaction and the clock at the two points where it is read.\<close>

record action_info =
  act_receiver :: "64 word"
  act_account :: "64 word"
  act_name :: "64 word"
  act_data :: "8 word list"
  trx_id :: string
  g_isMainnet :: bool
  speculative :: bool
  deadline :: int
  now_require :: int
  now_call :: int

text \<open>What running changes: the module's state object, the chain, the value the action returns,
  and whether \<open>g_module\<close> and \<open>g_now_context\<close> are set.\<close>

record 's run_state =
  m_state :: "jsv option"
  chain_st :: 's
  action_return_value :: "8 word list option"
  acting :: bool

definition on_chain :: "('s, 'r) act \<Rightarrow> ('s run_state, 'r) act" where
  "on_chain m rt = (case m (chain_st rt) of (r, s) \<Rightarrow> (r, rt\<lparr>chain_st := s\<rparr>))"

definition chain_assert :: "bool \<Rightarrow> string \<Rightarrow> ('s, unit) act" where
  "chain_assert b msg = (if b then ret () else fail (Thrown (Chain_exception msg [])))"

section \<open>The state object\<close>

definition s_fix_datas :: "(string \<times> int) list" where
  "s_fix_datas = [
     (''282c88e84947d14b727c367fe7ab96813b1f037dee0c1147938d7f3d24021a81'', 81),
     (''5327817ffa0694236f43e7b5c4eb17b55b937577ad3d9d4dd244dafb84ff8407'', 13),
     (''9ded348fa55bd30dc72e7b0d7950a5dcef627523e4987161c2f2eb92ef2c0621'', 16),
     (''0b56e0a4b0e741fdd07a6ec3409c190b344741a2d9e7f214c236de28f84d0a6d'', 26),
     (''b8d5a9983e5b63ab94eb5f6d9b6800ff427be2a742e4d23c34cb7cc6a0d3ab03'', 29),
     (''72b1e9fa23a3c235b881f4710f646d425d3d3d27a4c2ada3c8e6d12cbe93d365'', 32),
     (''7e2b0f51e07289fa5bfae48cdc393e49cd70bb29fbd62b493b4da85c8b6ccab0'', 35),
     (''d8ab48b91cf1a65367bb06dd425c7c224262245f8d86141399b1c989f78b0774'', 38),
     (''bb3f1c45dd19acfb41d2b90699947da52523e10da1925e80b2c79a4f514fba37'', 19),
     (''2072e2191585925dfcb73f9513c2ce331bfc15146b061ecea9a8829471555307'', 75),
     (''bcbe28bbfbefbc6843fbdbeb84b7b5ca2979f246f492c783482151148519bfc7'', 91)]"

text \<open>A name on an array is no element of it and is left out of its JSON text.\<close>

fun set_prop :: "jsv \<Rightarrow> string \<Rightarrow> jsv \<Rightarrow> jsv" where
  "set_prop (JObject kvs) k v = JObject (AList.update k v kvs)"
| "set_prop x k v = x"

definition fix_state :: "'a engine \<Rightarrow> action_info \<Rightarrow> jsv \<Rightarrow> jsv" where
  "fix_state e a v =
     (if act_receiver a = to_name e ''dicefobetone'' \<and> act_name a = to_name e ''updateresult'' \<and> g_isMainnet a
      then (case find (\<lambda>(i, n). trx_id a = i) s_fix_datas of
              None \<Rightarrow> v
            | Some (i, n) \<Rightarrow> set_prop v ''from_here'' (JNumber (DFin n 0)))
      else v)"

text \<open>The row is read into a C string: a zero byte ends it.\<close>

definition c_string :: "8 word list \<Rightarrow> string" where
  "c_string bs = takeWhile (\<lambda>c. c \<noteq> char_of (0 :: nat)) (map byte_chr bs)"

fun is_chain_exception :: "js_error + 'r \<Rightarrow> bool" where
  "is_chain_exception (Inl (Thrown (Chain_exception msg args))) \<longleftrightarrow> True"
| "is_chain_exception r \<longleftrightarrow> False"

definition load_state :: "'a engine \<Rightarrow> 's chain_api \<Rightarrow> action_info \<Rightarrow> ('s run_state, unit) act" where
  "load_state e api a rt =
     (if m_state rt \<noteq> None then (Inr (), rt)
      else let (r, rt') =
          bind_act (on_chain (db_find api (act_receiver a) (act_receiver a) (to_name e ''state'') 0)) (\<lambda>itr.
            if itr > - 1
            then bind_act (on_chain (read_row api itr)) (\<lambda>bs rt.
                   case json_decode e (c_string bs) of
                     None \<Rightarrow> (Inr (), rt)
                   | Some v \<Rightarrow> (Inr (), if is_object v then rt\<lparr>m_state := Some (fix_state e a v)\<rparr> else rt))
            else ret ()) rt
        in if is_chain_exception r then (Inr (), rt') else (r, rt'))"

definition save_state :: "'a engine \<Rightarrow> 's chain_api \<Rightarrow> action_info \<Rightarrow> ('s run_state, unit) act" where
  "save_state e api a rt =
     (case m_state rt of
        None \<Rightarrow> (Inr (), rt)
      | Some v \<Rightarrow>
          (case json_encode e v of
             Inl hr \<Rightarrow> (Inl (Thrown (Chain_exception (get_exception e hr) [])), rt\<lparr>m_state := None\<rparr>)
           | Inr str \<Rightarrow>
               bind_act (on_chain (db_find api (act_receiver a) (act_receiver a) (to_name e ''state'') 0)) (\<lambda>itr.
                 if itr > - 1
                 then on_chain (db_update api itr (act_receiver a) (map chr_byte str))
                 else bind_act (on_chain (db_store api (act_receiver a) (to_name e ''state'') (act_receiver a) 0
                        (map chr_byte str))) (\<lambda>_. ret ()))
               (rt\<lparr>m_state := None\<rparr>)))"

section \<open>Applying an action\<close>

definition timeout :: "action_info \<Rightarrow> int \<Rightarrow> int" where
  "timeout a now = (if speculative a then max 2000 (deadline a - now) else 5000000)"

text \<open>A script under a time limit: what it throws, and running out of time, becomes the chain's
  exception for failed scripts.\<close>

definition run_script :: "'a engine \<Rightarrow> int \<Rightarrow> (int \<Rightarrow> ('s run_state, 'r) act) \<Rightarrow> ('s run_state, 'r) act" where
  "run_script e tm script rt =
     (let (r, rt') = (if tm > 0 then script tm rt else (Inl (Set_error ''timeout''), rt))
      in ((case r of Inl hr \<Rightarrow> Inl (Thrown (Chain_exception (get_exception e hr) [])) | Inr x \<Rightarrow> Inr x), rt'))"

fun get_object :: "fcv \<Rightarrow> js_error + (string \<times> fcv) list" where
  "get_object (FObject kvs) = Inr kvs"
| "get_object v = Inl (Thrown (Fc_exception ''bad cast''))"

definition is_empty :: "jsv \<Rightarrow> bool" where
  "is_empty v \<longleftrightarrow> v = JUndefined \<or> v = JNull"

text \<open>The function that handles the action; None is a notification without a handler.\<close>

definition find_handler :: "'a engine \<Rightarrow> action_info \<Rightarrow> jsv \<Rightarrow> js_error + nat option" where
  "find_handler e a module =
     (let name = to_text e (act_name a);
          own = (act_receiver a = act_account a);
          func = get_prop module (if own then name else ''on_'' @ name)
      in if is_empty func
         then (if own then Inl (Thrown (Chain_exception (name @ '' is not found.'') [])) else Inr None)
         else (case func of JFunction f \<Rightarrow> Inr (Some f)
               | _ \<Rightarrow> Inl (Thrown (Chain_exception (name @ '' is not a Function.'') []))))"

definition action_args :: "'a engine \<Rightarrow> 'a \<Rightarrow> action_info \<Rightarrow> js_error + jsv list" where
  "action_args e abi a =
     (case unpack_value e abi (action_type e abi (act_name a)) (act_data a) of Inl x \<Rightarrow> Inl x | Inr v \<Rightarrow>
        map_sum id (map (\<lambda>(k, x). js_value (nstring e) x)) (get_object v))"

definition store_result :: "'a engine \<Rightarrow> 'a \<Rightarrow> action_info \<Rightarrow> jsv \<Rightarrow> ('s run_state, unit) act" where
  "store_result e abi a res rt =
     (if res \<noteq> JUndefined \<and> result_type e abi (act_name a) \<noteq> ''''
      then (case pack_value e abi (result_type e abi (act_name a)) (fc_value res) of
              Inl x \<Rightarrow> (Inl x, rt)
            | Inr bs \<Rightarrow> (Inr (), rt\<lparr>action_return_value := Some bs\<rparr>))
      else (Inr (), rt))"

definition apply_in_scope :: "'a engine \<Rightarrow> 's chain_api \<Rightarrow> (int \<Rightarrow> ('s run_state, jsv) act) \<Rightarrow>
    (nat \<Rightarrow> jsv list \<Rightarrow> int \<Rightarrow> ('s run_state, jsv) act) \<Rightarrow> 'a contract_interface \<Rightarrow> action_info \<Rightarrow> ('s run_state, unit) act" where
  "apply_in_scope e api require call m a =
     bind_act (run_script e (timeout a (now_require a)) require) (\<lambda>v.
     bind_act (chain_assert (is_object v) ''The result of the module should be Object.'') (\<lambda>_.
     bind_act (if act_receiver a \<noteq> act_account a then lift_sum (abi_of e (act_account a)) else ret (m_abi m)) (\<lambda>abi.
     bind_act (lift_sum (action_args e abi a)) (\<lambda>args.
     bind_act (lift_sum (find_handler e a v)) (\<lambda>handler.
       case handler of
         None \<Rightarrow> ret ()
       | Some f \<Rightarrow>
           bind_act (run_script e (timeout a (now_call a)) (call f args)) (\<lambda>res.
           bind_act (store_result e abi a res) (\<lambda>_. save_state e api a)))))))"

text \<open>\<open>js_module_interface::apply\<close>: the scope object clears the globals however it is left.\<close>

definition js_apply :: "'a engine \<Rightarrow> 's chain_api \<Rightarrow> (int \<Rightarrow> ('s run_state, jsv) act) \<Rightarrow>
    (nat \<Rightarrow> jsv list \<Rightarrow> int \<Rightarrow> ('s run_state, jsv) act) \<Rightarrow> 'a contract_interface \<Rightarrow> action_info \<Rightarrow> ('s run_state, unit) act" where
  "js_apply e api require call m a rt =
     (case set_zipfs e (m_fname m) (m_code m) of
        Some hr \<Rightarrow> (Inl (Thrown (Chain_exception (get_exception e hr) [])), rt\<lparr>m_state := None\<rparr>)
      | None \<Rightarrow> (let (r, rt') = apply_in_scope e api require call m a (rt\<lparr>m_state := None, acting := True\<rparr>)
                 in (r, rt'\<lparr>acting := False\<rparr>)))"

section \<open>Reading and writing the state\<close>

definition state_key :: "'a engine \<Rightarrow> action_info \<Rightarrow> tkey" where
  "state_key e a = (act_receiver a, act_receiver a, to_name e ''state'')"

lemma on_chain_eq: "on_chain m rt = (fst (m (chain_st rt)), rt\<lparr>chain_st := snd (m (chain_st rt))\<rparr>)"
  by (simp add: on_chain_def split: prod.split)

lemma least_key_is: "least_key m (\<lambda>j. j = pk) = (if m pk = None then None else Some (pk :: 64 word))"
  using least_key_eq [of m pk] by (auto simp: least_key_None)

text \<open>Looking for the row of the state: an iterator for it, or a negative number.\<close>

lemma find_state:
  assumes "chain_ok V api"
  obtains i s' where "db_find api (act_receiver a) (act_receiver a) (to_name e ''state'') 0 s = (Inr i, s')" "quiet V s s'"
    "if rows V s (state_key e a) 0 = None then i < 0 else 0 \<le> i \<and> refs V s' i = Some (state_key e a, 0)"
  using chain_reads(1) [OF assms, of "act_receiver a" "act_receiver a" "to_name e ''state''" 0 s] that
  by (auto simp: found_def least_key_is state_key_def split: if_splits)

lemma save_state_ok:
  assumes "chain_ok V api" "receiver V = act_receiver a" "save_state e api a rt = (Inr (), rt')"
  shows "case m_state rt of None \<Rightarrow> rt' = rt
    | Some v \<Rightarrow> \<exists>str. json_encode e v = Inr str \<and>
        set_row V (chain_st rt) (state_key e a) 0 (Some (map chr_byte str)) (chain_st rt') \<and> m_state rt' = None"
proof (cases "m_state rt")
  case (Some v)
  then obtain str where str: "json_encode e v = Inr str" using assms(3) by (auto simp: save_state_def split: sum.splits)
  obtain i s1 where i: "db_find api (act_receiver a) (act_receiver a) (to_name e ''state'') 0 (chain_st rt) = (Inr i, s1)"
    "quiet V (chain_st rt) s1"
    "if rows V (chain_st rt) (state_key e a) 0 = None then i < 0 else 0 \<le> i \<and> refs V s1 i = Some (state_key e a, 0)"
    by (rule find_state [OF assms(1)])
  have "set_row V s1 (state_key e a) 0 (Some (map chr_byte str)) (chain_st rt') \<and> m_state rt' = None"
  proof (cases "0 \<le> i")
    case True
    then obtain s2 where u: "db_update api i (act_receiver a) (map chr_byte str) s1 = (Inr (), s2)"
      "rt' = rt\<lparr>m_state := None, chain_st := s2\<rparr>"
      using assms(3) Some str i(1)
      by (cases "db_update api i (act_receiver a) (map chr_byte str) s1")
        (auto simp: save_state_def on_chain_eq bind_act_def)
    from chain_writes(2) [OF assms(1) u(1)] i(3) True u(2) show ?thesis by (auto split: if_splits)
  next
    case False
    then obtain j s2 where u: "db_store api (act_receiver a) (to_name e ''state'') (act_receiver a) 0 (map chr_byte str) s1 = (Inr j, s2)"
      "rt' = rt\<lparr>m_state := None, chain_st := s2\<rparr>"
      using assms(3) Some str i(1)
      by (cases "db_store api (act_receiver a) (to_name e ''state'') (act_receiver a) 0 (map chr_byte str) s1")
        (auto simp: save_state_def on_chain_eq bind_act_def ret_def split: sum.splits)
    from chain_writes(1) [OF assms(1) u(1)] u(2) assms(2) show ?thesis by (simp add: state_key_def)
  qed
  then show ?thesis using Some str quiet_set_row [OF i(2)] by auto
qed (use assms(3) in \<open>simp add: save_state_def\<close>)

lemma c_string_text: "char_of (0 :: nat) \<notin> set str \<Longrightarrow> c_string (map chr_byte str) = str"
  by (simp add: c_string_def comp_def) (metis takeWhile_eq_all_conv)

lemma load_state_ok:
  assumes "chain_ok V api" "m_state rt = None" "rows V (chain_st rt) (state_key e a) 0 = Some (map chr_byte str)"
    and "char_of (0 :: nat) \<notin> set str" "json_decode e str = Some v" "is_object v"
  shows "\<exists>rt'. load_state e api a rt = (Inr (), rt') \<and> m_state rt' = Some (fix_state e a v) \<and>
    quiet V (chain_st rt) (chain_st rt')"
proof -
  obtain i s1 where i: "db_find api (act_receiver a) (act_receiver a) (to_name e ''state'') 0 (chain_st rt) = (Inr i, s1)"
    "quiet V (chain_st rt) s1" "0 \<le> i \<and> refs V s1 i = Some (state_key e a, 0)"
    by (rule find_state [OF assms(1), of a e "chain_st rt"]) (use assms(3) in auto)
  have "rows V s1 (state_key e a) 0 = Some (map chr_byte str)" using assms(3) i(2) by (simp add: quiet_keeps)
  then obtain s2 where "read_row api i s1 = (Inr (map chr_byte str), s2)" "quiet V s1 s2"
    using read_row_ok [OF assms(1)] i(3) by blast
  with i quiet_trans [OF i(2)] assms(2,5,6) show ?thesis
    by (auto simp: load_state_def bind_act_def on_chain_eq c_string_text [OF assms(4)])
qed

lemma load_state_none:
  assumes "chain_ok V api" "m_state rt = None" "rows V (chain_st rt) (state_key e a) 0 = None"
  shows "\<exists>rt'. load_state e api a rt = (Inr (), rt') \<and> m_state rt' = None \<and> quiet V (chain_st rt) (chain_st rt')"
proof -
  obtain i s1 where "db_find api (act_receiver a) (act_receiver a) (to_name e ''state'') 0 (chain_st rt) = (Inr i, s1)"
    "quiet V (chain_st rt) s1" "i < 0"
    by (rule find_state [OF assms(1), of a e "chain_st rt"]) (use assms(3) in auto)
  with assms(2) show ?thesis by (auto simp: load_state_def bind_act_def on_chain_eq ret_def)
qed

section \<open>An action from start to end\<close>

lemma timeout_pos: "0 < timeout a n"
  by (simp add: timeout_def max_def)

lemma run_script_Inr: "run_script e (timeout a n) script rt = (Inr x, rt') \<longleftrightarrow> script (timeout a n) rt = (Inr x, rt')"
  by (auto simp: run_script_def timeout_pos split: prod.splits sum.splits)

lemma chain_assert_Inr [simp]: "chain_assert b msg s = (Inr (), s') \<longleftrightarrow> b \<and> s' = s"
  by (auto simp: chain_assert_def)

lemma store_result_Inr: "store_result e abi a res rt = (Inr (), rt') \<Longrightarrow>
    m_state rt' = m_state rt \<and> chain_st rt' = chain_st rt \<and> acting rt' = acting rt"
  by (auto simp: store_result_def split: if_splits sum.splits)

lemma apply_in_scope_Inr:
  assumes "apply_in_scope e api require call m a rt = (Inr (), rt')"
  obtains v abi args rt1 handler where
    "require (timeout a (now_require a)) rt = (Inr v, rt1)" "is_object v"
    "if act_receiver a = act_account a then abi = m_abi m else abi_of e (act_account a) = Inr abi"
    "action_args e abi a = Inr args" "find_handler e a v = Inr handler"
    "case handler of None \<Rightarrow> rt' = rt1
      | Some f \<Rightarrow> \<exists>res rt2 rt3. call f args (timeout a (now_call a)) rt1 = (Inr res, rt2) \<and>
          store_result e abi a res rt2 = (Inr (), rt3) \<and> save_state e api a rt3 = (Inr (), rt')"
proof -
  from assms obtain v abi args rt1 handler where
    "require (timeout a (now_require a)) rt = (Inr v, rt1)" "is_object v"
    "if act_receiver a = act_account a then abi = m_abi m else abi_of e (act_account a) = Inr abi"
    "action_args e abi a = Inr args" "find_handler e a v = Inr handler"
    "(case handler of None \<Rightarrow> ret ()
       | Some f \<Rightarrow> bind_act (run_script e (timeout a (now_call a)) (call f args)) (\<lambda>res.
           bind_act (store_result e abi a res) (\<lambda>_. save_state e api a))) rt1 = (Inr (), rt')"
    unfolding apply_in_scope_def by (fastforce simp: bind_act_Inr run_script_Inr split: if_splits)
  then show ?thesis
    by (intro that [of v rt1 abi args handler]) (auto simp: bind_act_Inr run_script_Inr split: option.splits)
qed

lemma js_apply_Inr:
  assumes "js_apply e api require call m a rt = (Inr (), rt')"
  obtains rt1 where "apply_in_scope e api require call m a (rt\<lparr>m_state := None, acting := True\<rparr>) = (Inr (), rt1)"
    "rt' = rt1\<lparr>acting := False\<rparr>"
  using assms that by (auto simp: js_apply_def split: option.splits prod.splits)

text \<open>The state object the script leaves is the one the next action of the contract finds.\<close>

definition state_written :: "'s view \<Rightarrow> 'a engine \<Rightarrow> 's chain_api \<Rightarrow> action_info \<Rightarrow> jsv option \<Rightarrow> 's \<Rightarrow> 's \<Rightarrow> bool" where
  "state_written V e api a st s s' \<longleftrightarrow>
     (case st of None \<Rightarrow> s' = s
      | Some v \<Rightarrow> \<exists>str. json_encode e v = Inr str \<and> set_row V s (state_key e a) 0 (Some (map chr_byte str)) s' \<and>
          (\<forall>w b rt. char_of (0 :: nat) \<notin> set str \<longrightarrow> json_decode e str = Some w \<longrightarrow> is_object w \<longrightarrow>
             act_receiver b = act_receiver a \<longrightarrow> m_state rt = None \<longrightarrow>
             rows V (chain_st rt) (state_key e a) 0 = rows V s' (state_key e a) 0 \<longrightarrow>
             (\<exists>rt'. load_state e api b rt = (Inr (), rt') \<and> m_state rt' = Some (fix_state e b w) \<and>
                quiet V (chain_st rt) (chain_st rt'))))"

lemma state_written_save:
  assumes "chain_ok V api" "receiver V = act_receiver a" "save_state e api a rt = (Inr (), rt')"
  shows "state_written V e api a (m_state rt) (chain_st rt) (chain_st rt')"
proof (cases "m_state rt")
  case None
  with save_state_ok [OF assms] show ?thesis by (simp add: state_written_def)
next
  case (Some v)
  with save_state_ok [OF assms] obtain str where str: "json_encode e v = Inr str"
    "set_row V (chain_st rt) (state_key e a) 0 (Some (map chr_byte str)) (chain_st rt')" by auto
  have "rows V (chain_st rt') (state_key e a) 0 = Some (map chr_byte str)" using str(2) by (simp add: set_row_def)
  then have "\<exists>rt1. load_state e api b rt0 = (Inr (), rt1) \<and> m_state rt1 = Some (fix_state e b w) \<and> quiet V (chain_st rt0) (chain_st rt1)"
    if "char_of (0 :: nat) \<notin> set str" "json_decode e str = Some w" "is_object w" "act_receiver b = act_receiver a"
      "m_state rt0 = None" "rows V (chain_st rt0) (state_key e a) 0 = rows V (chain_st rt') (state_key e a) 0" for w b rt0
    using that load_state_ok [OF assms(1) that(5) _ that(1-3), of b] by (simp add: state_key_def)
  with str show ?thesis unfolding state_written_def Some by simp
qed

text \<open>What a successful action has done.\<close>

lemma js_apply_effect:
  assumes "chain_ok V api" "receiver V = act_receiver a" "js_apply e api require call m a rt = (Inr (), rt')"
  shows "\<not> acting rt' \<and>
    (\<exists>v abi args rt1. require (timeout a (now_require a)) (rt\<lparr>m_state := None, acting := True\<rparr>) = (Inr v, rt1) \<and> is_object v \<and>
      (if act_receiver a = act_account a then abi = m_abi m else abi_of e (act_account a) = Inr abi) \<and>
      action_args e abi a = Inr args \<and>
      (find_handler e a v = Inr None \<and> act_receiver a \<noteq> act_account a \<and> chain_st rt' = chain_st rt1 \<or>
       (\<exists>f res rt2. find_handler e a v = Inr (Some f) \<and> call f args (timeout a (now_call a)) rt1 = (Inr res, rt2) \<and>
          state_written V e api a (m_state rt2) (chain_st rt2) (chain_st rt'))))"
proof -
  obtain rt0 where rt0: "apply_in_scope e api require call m a (rt\<lparr>m_state := None, acting := True\<rparr>) = (Inr (), rt0)"
    "rt' = rt0\<lparr>acting := False\<rparr>"
    by (rule js_apply_Inr [OF assms(3)])
  obtain v abi args rt1 handler where r:
    "require (timeout a (now_require a)) (rt\<lparr>m_state := None, acting := True\<rparr>) = (Inr v, rt1)" "is_object v"
    "if act_receiver a = act_account a then abi = m_abi m else abi_of e (act_account a) = Inr abi"
    "action_args e abi a = Inr args" "find_handler e a v = Inr handler"
    and h: "case handler of None \<Rightarrow> rt0 = rt1
      | Some f \<Rightarrow> \<exists>res rt2 rt3. call f args (timeout a (now_call a)) rt1 = (Inr res, rt2) \<and>
          store_result e abi a res rt2 = (Inr (), rt3) \<and> save_state e api a rt3 = (Inr (), rt0)"
    by (rule apply_in_scope_Inr [OF rt0(1)])
  have "find_handler e a v = Inr None \<and> act_receiver a \<noteq> act_account a \<and> chain_st rt' = chain_st rt1 \<or>
       (\<exists>f res rt2. find_handler e a v = Inr (Some f) \<and> call f args (timeout a (now_call a)) rt1 = (Inr res, rt2) \<and>
          state_written V e api a (m_state rt2) (chain_st rt2) (chain_st rt'))"
  proof (cases handler)
    case None
    then show ?thesis using r(5) h rt0(2) by (auto simp: find_handler_def Let_def split: if_splits jsv.splits)
  next
    case (Some f)
    with h obtain res rt2 rt3 where c: "call f args (timeout a (now_call a)) rt1 = (Inr res, rt2)"
      "store_result e abi a res rt2 = (Inr (), rt3)" "save_state e api a rt3 = (Inr (), rt0)" by auto
    have "state_written V e api a (m_state rt2) (chain_st rt2) (chain_st rt')"
      using state_written_save [OF assms(1,2) c(3)] store_result_Inr [OF c(2)] rt0(2) by simp
    then show ?thesis using r(5) Some c(1) by blast
  qed
  moreover have "\<not> acting rt'" using rt0(2) by simp
  ultimately show ?thesis using r(1-4) by metis
qed

text \<open>
  An action that succeeds has run the module, which exports an object, and decoded its
  arguments with the ABI of the account the action names.  If it was a notification the
  contract does not handle, nothing else happened, and a state object the module made is
  dropped.  Otherwise the handler was called, and then the state object the script left, if
  any, was written to the row \<open>(receiver, state, 0)\<close> and nothing else: the next action of the
  contract that reads \<open>db.state\<close> gets that object back, provided its JSON text reads back.
  Afterwards no module and no action is current.
\<close>

theorem js_apply_saves_state:
  assumes "chain_ok V api" "receiver V = act_receiver a" "js_apply e api require call m a rt = (Inr (), rt')"
  shows "\<not> acting rt' \<and>
    (\<exists>v abi args rt1. require (timeout a (now_require a)) (rt\<lparr>m_state := None, acting := True\<rparr>) = (Inr v, rt1) \<and> is_object v \<and>
      (if act_receiver a = act_account a then abi = m_abi m else abi_of e (act_account a) = Inr abi) \<and>
      action_args e abi a = Inr args \<and>
      (find_handler e a v = Inr None \<and> act_receiver a \<noteq> act_account a \<and> chain_st rt' = chain_st rt1 \<or>
       (\<exists>f res rt2. find_handler e a v = Inr (Some f) \<and> call f args (timeout a (now_call a)) rt1 = (Inr res, rt2) \<and>
          state_written V e api a (m_state rt2) (chain_st rt2) (chain_st rt'))))"
  by (rule js_apply_effect [OF assms])

text \<open>An action \<open>hi\<close> that sets the state object.\<close>

definition demo_engine :: "string engine" where
  "demo_engine =
     \<lparr>to_text = \<lambda>n. if n = 7 then ''hi'' else ''x'', to_name = \<lambda>str. if str = ''state'' then 77 else 0, nstring = id,
      json_encode = \<lambda>v. Inr ''{}'', json_decode = \<lambda>str. Some (JObject [(''n'', JBool True)]),
      set_zipfs = \<lambda>f c. None, get_exception = \<lambda>x. [], abi_of = \<lambda>n. Inr [], action_type = \<lambda>abi n. ''hi'',
      result_type = \<lambda>abi n. [], unpack_value = \<lambda>abi t bs. Inr (FObject [(''who'', FString ''you'')]),
      pack_value = \<lambda>abi t v. Inr []\<rparr>"

definition demo_action :: action_info where
  "demo_action = \<lparr>act_receiver = 5, act_account = 5, act_name = 7, act_data = [], trx_id = [], g_isMainnet = False,
     speculative = True, deadline = 9000, now_require = 8000, now_call = 8500\<rparr>"

definition demo_require :: "int \<Rightarrow> (ref_st run_state, jsv) act" where
  "demo_require tm = ret (JObject [(''hi'', JFunction 3)])"

definition demo_call :: "nat \<Rightarrow> jsv list \<Rightarrow> int \<Rightarrow> (ref_st run_state, jsv) act" where
  "demo_call f args tm rt = (Inr JUndefined, rt\<lparr>m_state := Some (JObject [(''n'', JBool True)])\<rparr>)"

definition demo_rt :: "ref_st run_state" where
  "demo_rt = \<lparr>m_state = None, chain_st = ref_empty, action_return_value = None, acting = False\<rparr>"

definition demo_contract :: "string contract_interface" where
  "demo_contract = \<lparr>m_code = [], m_abi = ''abi'', m_abi_sequence = 1, m_fname = ''/me''\<rparr>"

lemma demo_fields: "set_zipfs demo_engine f c = None" "to_name demo_engine ''state'' = 77"
  "json_encode demo_engine v = Inr ''{}''" "result_type demo_engine abi n = []"
  "act_receiver demo_action = 5" "act_account demo_action = 5"
  by (simp_all add: demo_engine_def demo_action_def)

lemma demo_handler: "find_handler demo_engine demo_action (JObject [(''hi'', JFunction 3)]) = Inr (Some 3)"
  by (simp add: find_handler_def demo_engine_def demo_action_def is_empty_def Let_def)

lemma demo_apply: "\<exists>rt'. js_apply demo_engine (ref_api 5) demo_require demo_call m demo_action demo_rt = (Inr (), rt')"
proof -
  have args: "action_args demo_engine abi demo_action = Inr [JString ''you'']" for abi
    by (simp add: action_args_def demo_engine_def)
  have find: "db_find (ref_api 5) 5 5 77 0 ref_empty = (Inr (- 1), ref_empty)"
    by (simp add: ref_api_def ref_empty_def point_def least_key_is end_of_def)
  have "\<exists>i st. db_store (ref_api 5) 5 77 5 0 (map chr_byte ''{}'') ref_empty = (Inr i, st)"
    by (simp add: ref_api_def ref_empty_def hand_out_def)
  then obtain i st where store: "db_store (ref_api 5) 5 77 5 0 (map chr_byte ''{}'') ref_empty = (Inr i, st)" by blast
  show ?thesis
    using find store
    by (simp add: js_apply_def apply_in_scope_def run_script_def timeout_pos bind_act_def demo_require_def demo_call_def
        ret_def chain_assert_def lift_sum_def args demo_handler store_result_def save_state_def on_chain_eq
        demo_rt_def demo_fields)
qed

lemma js_apply_saves_state_witness:
  "\<exists>rt'. \<exists>rt2 :: ref_st run_state. js_apply demo_engine (ref_api 5) demo_require demo_call demo_contract demo_action demo_rt = (Inr (), rt') \<and>
     m_state rt2 = Some (JObject [(''n'', JBool True)]) \<and>
     state_written (ref_view 5) demo_engine (ref_api 5) demo_action (m_state rt2) (chain_st rt2) (chain_st rt')"
proof -
  obtain rt' where ap: "js_apply demo_engine (ref_api 5) demo_require demo_call demo_contract demo_action demo_rt = (Inr (), rt')"
    using demo_apply by blast
  have "receiver (ref_view 5) = act_receiver demo_action" by (simp add: demo_action_def)
  from js_apply_saves_state [OF ref_ok this ap] obtain f args res rt1 rt2 v where
    "find_handler demo_engine demo_action v = Inr None \<and> act_receiver demo_action \<noteq> act_account demo_action \<or>
     demo_call f args (timeout demo_action (now_call demo_action)) rt1 = (Inr res, rt2) \<and>
     state_written (ref_view 5) demo_engine (ref_api 5) demo_action (m_state rt2) (chain_st rt2) (chain_st rt')" by blast
  then have "m_state rt2 = Some (JObject [(''n'', JBool True)]) \<and>
     state_written (ref_view 5) demo_engine (ref_api 5) demo_action (m_state rt2) (chain_st rt2) (chain_st rt')"
    by (auto simp: demo_action_def demo_call_def)
  then show ?thesis using ap by blast
qed

end
