(* ===== verification/Action_Api.thy ===== *)
theory Action_Api
  imports Js_Module
begin

text \<open>
  What a script can ask about the action it runs for and the actions it can send:
  \<^verbatim>\<open>src/js_contract/src/action.cpp\<close> and \<^verbatim>\<open>trans.cpp\<close>.  Outside an action the methods
  succeed and leave their result untouched, which is \<open>None\<close>.

  The chain's answers (accounts, recipients, authorizations, executing an inline action) and the
  serializer are parameters over a state the code never looks into.
\<close>

section \<open>The chain\<close>

record chain_action =
  a_account :: "64 word"
  a_name :: "64 word"
  a_authorization :: "(64 word \<times> 64 word) list"
  a_data :: "8 word list"

record 's exec_ctx =
  cur :: action_info
  cur_authorization :: "(64 word \<times> 64 word) list"
  published :: int
  ctx_is_account :: "'s \<Rightarrow> 64 word \<Rightarrow> bool"
  ctx_has_recipient :: "'s \<Rightarrow> 64 word \<Rightarrow> bool"
  ctx_require_recipient :: "64 word \<Rightarrow> ('s, unit) act"
  ctx_has_authorization :: "'s \<Rightarrow> 64 word \<Rightarrow> bool"
  ctx_require_authorization :: "64 word \<Rightarrow> ('s, unit) act"
  ctx_require_permission :: "64 word \<Rightarrow> 64 word \<Rightarrow> ('s, unit) act"
  execute_inline :: "chain_action \<Rightarrow> ('s, unit) act"
  execute_context_free_inline :: "chain_action \<Rightarrow> ('s, unit) act"

section \<open>The object action\<close>

definition action_get_name :: "'e js_env_scheme \<Rightarrow> 's exec_ctx option \<Rightarrow> string option" where
  "action_get_name env g = map_option (\<lambda>c. name_text env (act_name (cur c))) g"

definition action_get_account :: "'e js_env_scheme \<Rightarrow> 's exec_ctx option \<Rightarrow> string option" where
  "action_get_account env g = map_option (\<lambda>c. name_text env (act_account (cur c))) g"

definition action_get_receiver :: "'e js_env_scheme \<Rightarrow> 's exec_ctx option \<Rightarrow> string option" where
  "action_get_receiver env g = map_option (\<lambda>c. name_text env (act_receiver (cur c))) g"

definition action_get_publication_time :: "'s exec_ctx option \<Rightarrow> int option" where
  "action_get_publication_time g = map_option published g"

definition action_get_id :: "'s exec_ctx option \<Rightarrow> string option" where
  "action_get_id g = map_option (\<lambda>c. trx_id (cur c)) g"

definition level_object :: "'e js_env_scheme \<Rightarrow> 64 word \<times> 64 word \<Rightarrow> jsv" where
  "level_object env p =
     JObject [(''actor'', JString (new_string env (name_text env (fst p)))),
              (''permission'', JString (new_string env (name_text env (snd p))))]"

definition action_get_authorization :: "'e js_env_scheme \<Rightarrow> 's exec_ctx option \<Rightarrow> jsv" where
  "action_get_authorization env g =
     JArray (case g of None \<Rightarrow> [] | Some c \<Rightarrow> map (level_object env) (cur_authorization c))"

text \<open>A method that takes the name of an account.\<close>

definition with_name :: "'e js_env_scheme \<Rightarrow> string \<Rightarrow> (64 word \<Rightarrow> ('s, 'r) act) \<Rightarrow> ('s, 'r) act" where
  "with_name env str f = bind_act (lift_sum (string_to_name env str)) f"

definition when_ctx :: "'s exec_ctx option \<Rightarrow> ('s exec_ctx \<Rightarrow> ('s, 'r) act) \<Rightarrow> ('s, 'r option) act" where
  "when_ctx g f = (case g of None \<Rightarrow> ret None | Some c \<Rightarrow> bind_act (f c) (\<lambda>r. ret (Some r)))"

definition action_is_account :: "'e js_env_scheme \<Rightarrow> 's exec_ctx option \<Rightarrow> string \<Rightarrow> ('s, bool option) act" where
  "action_is_account env g str = when_ctx g (\<lambda>c. with_name env str (\<lambda>n s. ret (ctx_is_account c s n) s))"

definition action_has_recipient :: "'e js_env_scheme \<Rightarrow> 's exec_ctx option \<Rightarrow> string \<Rightarrow> ('s, bool option) act" where
  "action_has_recipient env g str = when_ctx g (\<lambda>c. with_name env str (\<lambda>n s. ret (ctx_has_recipient c s n) s))"

definition action_require_recipient :: "'e js_env_scheme \<Rightarrow> 's exec_ctx option \<Rightarrow> string \<Rightarrow> ('s, unit option) act" where
  "action_require_recipient env g str =
     when_ctx g (\<lambda>c. with_name env str (\<lambda>n. try_chain (ctx_require_recipient c n)))"

definition action_has_auth :: "'e js_env_scheme \<Rightarrow> 's exec_ctx option \<Rightarrow> string \<Rightarrow> ('s, bool option) act" where
  "action_has_auth env g str = when_ctx g (\<lambda>c. with_name env str (\<lambda>n s. ret (ctx_has_authorization c s n) s))"

definition action_require_auth :: "'e js_env_scheme \<Rightarrow> 's exec_ctx option \<Rightarrow> string \<Rightarrow> string \<Rightarrow> ('s, unit option) act" where
  "action_require_auth env g str permission =
     when_ctx g (\<lambda>c. with_name env str (\<lambda>n.
       if permission = '''' then try_chain (ctx_require_authorization c n)
       else with_name env permission (\<lambda>pms. try_chain (ctx_require_permission c n pms))))"

section \<open>The object trans\<close>

text \<open>\<open>fillAction\<close>: the account, the name and the data, then the authorization.  The serializer
  is that of the account the action goes to.\<close>

definition fill_action :: "'e js_env_scheme \<Rightarrow> 'a engine \<Rightarrow> string \<Rightarrow> string \<Rightarrow> jsv \<Rightarrow> js_error + chain_action" where
  "fill_action env e account name args =
     (case string_to_name env account of Inl hr \<Rightarrow> Inl hr | Inr acct \<Rightarrow>
      case string_to_name env name of Inl hr \<Rightarrow> Inl hr | Inr nm \<Rightarrow>
      let v = fc_value args in
      map_sum caught_fc id
        (case abi_of e acct of Inl x \<Rightarrow> Inl x | Inr abi \<Rightarrow>
         case pack_value e abi (action_type e abi nm) v of Inl x \<Rightarrow> Inl x | Inr bs \<Rightarrow>
           Inr \<lparr>a_account = acct, a_name = nm, a_authorization = [], a_data = bs\<rparr>))"

definition fill_level :: "'e js_env_scheme \<Rightarrow> jsv \<Rightarrow> js_error + 64 word \<times> 64 word" where
  "fill_level env v =
     (if \<not> is_object v then Inl Invalid_call else
      case value_to_name env (get_prop v ''actor'') of Inl hr \<Rightarrow> Inl hr | Inr actor \<Rightarrow>
      case value_to_name env (get_prop v ''permission'') of Inl hr \<Rightarrow> Inl hr | Inr perm \<Rightarrow> Inr (actor, perm))"

fun fill_levels :: "'e js_env_scheme \<Rightarrow> jsv list \<Rightarrow> js_error + (64 word \<times> 64 word) list" where
  "fill_levels env [] = Inr []"
| "fill_levels env (v # vs) =
     (case fill_level env v of Inl hr \<Rightarrow> Inl hr | Inr p \<Rightarrow> map_sum id ((#) p) (fill_levels env vs))"

definition fill_action_auth ::
    "'e js_env_scheme \<Rightarrow> 'a engine \<Rightarrow> string \<Rightarrow> string \<Rightarrow> jsv \<Rightarrow> jsv list \<Rightarrow> js_error + chain_action" where
  "fill_action_auth env e account name args authorization =
     (case fill_action env e account name args of Inl hr \<Rightarrow> Inl hr | Inr act \<Rightarrow>
        map_sum id (\<lambda>ps. act\<lparr>a_authorization := ps\<rparr>) (fill_levels env authorization))"

definition send_inline ::
    "'e js_env_scheme \<Rightarrow> 'a engine \<Rightarrow> 's exec_ctx option \<Rightarrow> string \<Rightarrow> string \<Rightarrow> jsv \<Rightarrow> jsv list \<Rightarrow> ('s, unit option) act" where
  "send_inline env e g account name args authorization =
     when_ctx g (\<lambda>c. bind_act (lift_sum (fill_action_auth env e account name args authorization)) (\<lambda>act.
       try_chain (execute_inline c act)))"

definition send_context_free_inline ::
    "'e js_env_scheme \<Rightarrow> 'a engine \<Rightarrow> 's exec_ctx option \<Rightarrow> string \<Rightarrow> string \<Rightarrow> jsv \<Rightarrow> ('s, unit option) act" where
  "send_context_free_inline env e g account name args =
     when_ctx g (\<lambda>c. bind_act (lift_sum (fill_action env e account name args)) (\<lambda>act.
       try_chain (execute_context_free_inline c act)))"

section \<open>Sending\<close>

lemma when_ctx_Inr: "when_ctx (Some c) f s = (Inr r, s') \<longleftrightarrow> (\<exists>x. f c s = (Inr x, s') \<and> r = Some x)"
  by (auto simp: when_ctx_def bind_act_Inr)

lemma fill_action_Inr: "fill_action env e account name args = Inr act \<longleftrightarrow>
    (\<exists>acct nm abi. string_to_name env account = Inr acct \<and> string_to_name env name = Inr nm \<and> abi_of e acct = Inr abi \<and>
      pack_value e abi (action_type e abi nm) (fc_value args) = Inr (a_data act) \<and>
      act = \<lparr>a_account = acct, a_name = nm, a_authorization = [], a_data = a_data act\<rparr>)"
  by (cases act) (auto simp: fill_action_def Let_def split: sum.splits)

lemma fill_level_Inr: "fill_level env v = Inr (actor, perm) \<longleftrightarrow> is_object v \<and>
    value_to_name env (get_prop v ''actor'') = Inr actor \<and> value_to_name env (get_prop v ''permission'') = Inr perm"
  by (auto simp: fill_level_def split: sum.splits)

lemma fill_levels_Inr: "fill_levels env vs = Inr ps \<longleftrightarrow> list_all2 (\<lambda>v p. fill_level env v = Inr p) vs ps"
proof (induction vs arbitrary: ps)
  case (Cons v vs)
  have "fill_levels env (v # vs) = Inr ps \<longleftrightarrow> (\<exists>p ps'. ps = p # ps' \<and> fill_level env v = Inr p \<and> fill_levels env vs = Inr ps')"
    by (cases "fill_level env v"; cases "fill_levels env vs") auto
  then show ?case by (simp only: list_all2_Cons1 Cons.IH)
qed auto

text \<open>Nothing but the call of the chain changes the state, and it gets the action that was filled.\<close>

lemma send_inline_outcome:
  "send_inline env e (Some c) account name args auth s =
     (case fill_action_auth env e account name args auth of
        Inl hr \<Rightarrow> (Inl hr, s)
      | Inr act \<Rightarrow> (map_sum id Some (fst (try_chain (execute_inline c act) s)), snd (execute_inline c act s)))"
proof (cases "fill_action_auth env e account name args auth")
  case (Inr act)
  obtain r1 s1 where "execute_inline c act s = (r1, s1)" by fastforce
  with Inr show ?thesis
    by (cases r1) (simp_all add: send_inline_def when_ctx_def bind_act_def lift_sum_def ret_def try_chain_def)
qed (simp add: send_inline_def when_ctx_def bind_act_def lift_sum_def)

lemma fill_action_auth_Inr:
  assumes "fill_action_auth env e account name args auth = Inr act"
  obtains abi where "string_to_name env account = Inr (a_account act)" "string_to_name env name = Inr (a_name act)"
    "abi_of e (a_account act) = Inr abi"
    "pack_value e abi (action_type e abi (a_name act)) (fc_value args) = Inr (a_data act)"
    "list_all2 (\<lambda>v p. fill_level env v = Inr p) auth (a_authorization act)"
proof -
  from assms obtain act0 ps where f: "fill_action env e account name args = Inr act0" "fill_levels env auth = Inr ps"
    "act = act0\<lparr>a_authorization := ps\<rparr>"
    by (cases "fill_levels env auth") (auto simp: fill_action_auth_def split: sum.splits)
  then obtain acct nm abi where a: "string_to_name env account = Inr acct" "string_to_name env name = Inr nm"
    "abi_of e acct = Inr abi" "pack_value e abi (action_type e abi nm) (fc_value args) = Inr (a_data act0)"
    "act0 = \<lparr>a_account = acct, a_name = nm, a_authorization = [], a_data = a_data act0\<rparr>"
    unfolding fill_action_Inr by blast
  then have "a_account act0 = acct" "a_name act0 = nm" by (metis chain_action.select_convs(1), metis chain_action.select_convs(2))
  with a f show ?thesis by (intro that [of abi]) (simp_all add: fill_levels_Inr)
qed

text \<open>
  What an inline action is.  Outside an action nothing happens.  Otherwise, if an account or
  action name is not a name, the account has no ABI, the arguments do not fit it or an entry of
  the authorization is no object of two names, the call fails and the chain is not asked at
  all.  Else the chain is asked exactly once, to execute the action with the named account and
  name, the arguments packed with that account's ABI and the authorization in the given order,
  and the call succeeds exactly if the chain does.
\<close>

theorem send_inline_action:
  "(g = None \<longrightarrow> send_inline env e g account name args auth s = (Inr None, s)) \<and>
   (g = Some c \<longrightarrow>
     (\<exists>hr. fill_action_auth env e account name args auth = Inl hr \<and>
        send_inline env e g account name args auth s = (Inl hr, s)) \<or>
     (\<exists>act abi. string_to_name env account = Inr (a_account act) \<and> string_to_name env name = Inr (a_name act) \<and>
        abi_of e (a_account act) = Inr abi \<and>
        pack_value e abi (action_type e abi (a_name act)) (fc_value args) = Inr (a_data act) \<and>
        list_all2 (\<lambda>v p. is_object v \<and> value_to_name env (get_prop v ''actor'') = Inr (fst p) \<and>
          value_to_name env (get_prop v ''permission'') = Inr (snd p)) auth (a_authorization act) \<and>
        snd (send_inline env e g account name args auth s) = snd (execute_inline c act s) \<and>
        (fst (send_inline env e g account name args auth s) = Inr (Some ()) \<longleftrightarrow> fst (execute_inline c act s) = Inr ())))"
proof (cases "fill_action_auth env e account name args auth")
  case (Inl hr)
  then show ?thesis using send_inline_outcome [of env e c account name args auth s] by (simp add: send_inline_def when_ctx_def ret_def)
next
  case (Inr act)
  then obtain abi where a: "string_to_name env account = Inr (a_account act)" "string_to_name env name = Inr (a_name act)"
    "abi_of e (a_account act) = Inr abi"
    "pack_value e abi (action_type e abi (a_name act)) (fc_value args) = Inr (a_data act)"
    "list_all2 (\<lambda>v p. fill_level env v = Inr p) auth (a_authorization act)"
    by (rule fill_action_auth_Inr)
  have l: "list_all2 (\<lambda>v p. is_object v \<and> value_to_name env (get_prop v ''actor'') = Inr (fst p) \<and>
      value_to_name env (get_prop v ''permission'') = Inr (snd p)) auth (a_authorization act)"
    using a(5) by (rule list_all2_mono) (auto simp: fill_level_Inr)
  have "fst (try_chain (execute_inline c act) s) = Inr () \<longleftrightarrow> fst (execute_inline c act s) = Inr ()"
    by (cases "fst (execute_inline c act s)") (simp_all add: try_chain_def)
  then have "map_sum id Some (fst (try_chain (execute_inline c act) s)) = Inr (Some ()) \<longleftrightarrow> fst (execute_inline c act s) = Inr ()"
    by (cases "fst (try_chain (execute_inline c act) s)") auto
  with Inr a l send_inline_outcome [of env e c account name args auth s] show ?thesis
    by (auto simp: send_inline_def [of env e None] when_ctx_def ret_def)
qed

text \<open>A name the chain writes and reads back, and the engine keeps.\<close>

definition name_ok :: "'e js_env_scheme \<Rightarrow> 64 word \<Rightarrow> bool" where
  "name_ok env n \<longleftrightarrow> length (name_text env n) \<le> 13 \<and> name_value env (name_text env n) = n \<and>
     arg_string env (JString (new_string env (name_text env n))) = Inr (name_text env n)"

lemma level_roundtrip: "name_ok env (fst p) \<Longrightarrow> name_ok env (snd p) \<Longrightarrow> fill_level env (level_object env p) = Inr p"
  by (cases p) (simp add: fill_level_Inr level_object_def value_to_name_def name_ok_def string_to_name_def)

lemma args_roundtrip:
  assumes "plain_jsv nstr (JObject kvs)"
  shows "map (\<lambda>(k, x). js_value nstr x) (set_all (map (map_prod id fc_value) kvs)) = map snd kvs"
proof -
  have "js_value nstr (fc_value x) = x" if "(k, x) \<in> set kvs" for k x
  proof (rule js_fc_value)
    have "list_all (plain_jsv nstr) (map snd kvs)"
      using assms by (simp add: list_all_iff)
    then show "plain_jsv nstr x" using that by (force simp: list_all_iff)
  qed
  then show ?thesis using assms by (auto simp: set_all_distinct)
qed


text \<open>Account 2 sends itself the action 7 under the authorization it has.\<close>

definition demo_env :: js_env where
  "demo_env =
     \<lparr>new_string = id, arg_string = \<lambda>v. case v of JString str \<Rightarrow> Inr str | _ \<Rightarrow> Inl Wrong_type,
      name_value = \<lambda>str. if str = ''bob'' then 2 else if str = ''hi'' then 7 else 9,
      name_text = \<lambda>n. if n = 2 then ''bob'' else if n = 7 then ''hi'' else ''active'', conv_out_of_range = \<lambda>d. 0\<rparr>"

definition demo_exec :: "nat exec_ctx" where
  "demo_exec =
     \<lparr>cur = demo_action, cur_authorization = [(2, 9)], published = 0, ctx_is_account = \<lambda>s n. True,
      ctx_has_recipient = \<lambda>s n. False, ctx_require_recipient = \<lambda>n. ret (), ctx_has_authorization = \<lambda>s n. n = 2,
      ctx_require_authorization = \<lambda>n. ret (), ctx_require_permission = \<lambda>n p. ret (),
      execute_inline = \<lambda>act s. (Inr (), Suc s), execute_context_free_inline = \<lambda>act. ret ()\<rparr>"

definition demo_sent :: chain_action where
  "demo_sent = \<lparr>a_account = 2, a_name = 7, a_authorization = [(2, 9)], a_data = []\<rparr>"

definition demo_auth :: "jsv list" where
  "demo_auth = [JObject [(''actor'', JString ''bob''), (''permission'', JString ''active'')]]"

lemma demo_engine_sel: "abi_of demo_engine n = Inr []" "pack_value demo_engine abi t v = Inr []"
  "nstring demo_engine = id" "unpack_value demo_engine abi t bs = Inr (FObject [(''who'', FString ''you'')])"
  by (simp_all add: demo_engine_def)

lemma demo_fill: "fill_action_auth demo_env demo_engine ''bob'' ''hi'' (JObject [(''who'', JString ''you'')]) demo_auth = Inr demo_sent"
proof -
  have n: "string_to_name demo_env ''bob'' = Inr 2" "string_to_name demo_env ''hi'' = Inr 7"
    "string_to_name demo_env ''active'' = Inr 9" "arg_string demo_env (JString t) = Inr t" for t
    by (simp_all add: string_to_name_def demo_env_def)
  then show ?thesis
    by (simp add: fill_action_auth_def fill_action_def fill_level_def value_to_name_def demo_engine_sel demo_auth_def demo_sent_def)
qed

lemma send_inline_action_witness:
  "\<exists>act :: chain_action. a_account act = 2 \<and> a_authorization act = [(2, 9)] \<and>
     send_inline demo_env demo_engine (Some demo_exec) ''bob'' ''hi'' (JObject [(''who'', JString ''you'')]) demo_auth 4 =
       (Inr (Some ()), 5)"
proof -
  let ?run = "send_inline demo_env demo_engine (Some demo_exec) ''bob'' ''hi'' (JObject [(''who'', JString ''you'')]) demo_auth 4"
  have exec: "execute_inline demo_exec act n = (Inr (), Suc n)" for act n by (simp add: demo_exec_def)
  have "fst ?run = Inr (Some ()) \<and> snd ?run = 5"
    using conjunct2 [OF send_inline_action [of "Some demo_exec" demo_env demo_engine "''bob''" "''hi''"
          "JObject [(''who'', JString ''you'')]" demo_auth 4 demo_exec]] demo_fill exec by auto
  then have "?run = (Inr (Some ()), 5)" by (metis prod.collapse)
  then show ?thesis by (intro exI [of _ demo_sent]) (simp add: demo_sent_def)
qed


end
