(* ===== verification/Node_Patches.thy ===== *)
theory Node_Patches
  imports Js_Value "HOL-Library.Char_ord"
begin

text \<open>
  Places where the node replaces a piece of the chain or of the engine:
  \<^verbatim>\<open>src/cross/patch/transaction_context.cpp\<close> (who pays for a transaction),
  \<^verbatim>\<open>src/patch/eosio/controller_ex.cpp\<close> (native handlers),
  \<^verbatim>\<open>src/patch/eosio/chain_plugin.cpp\<close> (balances and statistics of a token),
  \<^verbatim>\<open>src/js_contract/src/bc_crypto.cpp\<close> (hashing in blocks) and
  \<^verbatim>\<open>src/js_contract/patch/pow.cpp\<close>.

  Names are 64-bit words.  Hash functions, the chain's time check, symbols and the walk through
  a table are parameters.
\<close>

section \<open>Who pays\<close>

record trx_action =
  x_account :: "64 word"
  x_name :: "64 word"
  x_authorization :: "64 word list"

text \<open>The actor of the first authorization of the transaction, and what the chain bills without
  the patch: the first authorizer, or with an old protocol every actor.\<close>

definition first_authorizer :: "trx_action list \<Rightarrow> 64 word" where
  "first_authorizer acts = (case concat (map x_authorization acts) of [] \<Rightarrow> 0 | a # as \<Rightarrow> a)"

definition chain_bills :: "bool \<Rightarrow> trx_action list \<Rightarrow> 64 word set" where
  "chain_bills only_first acts =
     (if only_first then {first_authorizer acts} else set (concat (map x_authorization acts)))"

record patch_names =
  cross_name :: "64 word"
  sign_name :: "64 word"
  null_name :: "64 word"

definition is_sign_only :: "patch_names \<Rightarrow> trx_action list \<Rightarrow> bool" where
  "is_sign_only ns acts \<longleftrightarrow>
     length acts = 1 \<and> length (x_authorization (hd acts)) = 1 \<and> x_account (hd acts) = cross_name ns \<and> x_name (hd acts) = sign_name ns"

fun is_producer :: "64 word \<Rightarrow> 64 word list \<Rightarrow> bool" where
  "is_producer actor [] \<longleftrightarrow> False"
| "is_producer actor (p # ps) \<longleftrightarrow> (if actor = p then True else is_producer actor ps)"

definition bill_to_accounts :: "patch_names \<Rightarrow> 64 word list \<Rightarrow> bool \<Rightarrow> trx_action list \<Rightarrow> 64 word set" where
  "bill_to_accounts ns producers only_first acts =
     (let actor = first_authorizer acts;
          bill = (if is_sign_only ns acts
                  then (if \<not> is_producer actor producers then {actor} else {null_name ns})
                  else {})
      in if bill \<noteq> {}
         then (if Min bill = null_name ns then {} else bill)
         else chain_bills only_first acts)"

lemma is_producer_iff: "is_producer actor ps \<longleftrightarrow> actor \<in> set ps"
  by (induction ps) auto

lemma sign_only_actor:
  assumes "is_sign_only ns acts"
  obtains a where "set (concat (map x_authorization acts)) = {a}" "first_authorizer acts = a"
proof -
  obtain x where "acts = [x]" "length (x_authorization x) = 1" using assms by (auto simp: is_sign_only_def length_Suc_conv)
  moreover then obtain a where "x_authorization x = [a]" by (auto simp: length_Suc_conv)
  ultimately show ?thesis using that [of a] by (simp add: first_authorizer_def)
qed

text \<open>
  C39: The patch changes one thing: a transaction whose only action is \<open>sign\<close> of the cross-chain
  account, authorized by one active producer, is billed to nobody.  Any other transaction is
  billed as the chain alone would bill it, under the old and the new protocol.
\<close>

theorem bill_only_signing_producers:
  assumes "first_authorizer acts \<noteq> null_name ns"
  shows "bill_to_accounts ns producers only_first acts =
    (if is_sign_only ns acts \<and> first_authorizer acts \<in> set producers then {} else chain_bills only_first acts)"
proof (cases "is_sign_only ns acts")
  case True
  then obtain a where "set (concat (map x_authorization acts)) = {a}" "first_authorizer acts = a"
    by (rule sign_only_actor)
  then show ?thesis using True assms by (simp add: bill_to_accounts_def is_producer_iff chain_bills_def Let_def)
qed (simp add: bill_to_accounts_def Let_def)

lemma bill_only_signing_producers_witness:
  "bill_to_accounts \<lparr>cross_name = 1, sign_name = 2, null_name = 0\<rparr> [8, 9] False
     [\<lparr>x_account = 1, x_name = 2, x_authorization = [9]\<rparr>] = {}"
  using bill_only_signing_producers [of "[\<lparr>x_account = 1, x_name = 2, x_authorization = [9]\<rparr>]"
      "\<lparr>cross_name = 1, sign_name = 2, null_name = 0\<rparr>" "[8, 9]" False]
  by (simp add: first_authorizer_def is_sign_only_def)

section \<open>Native handlers\<close>

text \<open>The native handlers are registered for \<open>eosio\<close>, whatever the system account is called.\<close>

definition find_apply_handler :: "64 word \<Rightarrow> 64 word \<Rightarrow> (64 word \<Rightarrow> 64 word \<Rightarrow> 64 word \<Rightarrow> 'h) \<Rightarrow>
    64 word \<Rightarrow> 64 word \<Rightarrow> 64 word \<Rightarrow> 'h" where
  "find_apply_handler system_name eosio controller_find contract scope act =
     (if contract = system_name \<and> contract = scope then controller_find eosio eosio act
      else controller_find contract scope act)"

section \<open>Hashing in blocks\<close>

text \<open>\<open>encode\<close>: the data is written to the encoder in blocks of \<open>bs\<close> bytes with a time check
  after each but the last, which may throw.\<close>

function encode_loop :: "nat \<Rightarrow> ('e \<Rightarrow> 8 word list \<Rightarrow> 'e) \<Rightarrow> ('s \<Rightarrow> (exn + unit) \<times> 's) \<Rightarrow> 'e \<Rightarrow> 8 word list \<Rightarrow> 's \<Rightarrow> (exn + 'e) \<times> 's" where
  "encode_loop bs write checktime e data s =
     (if 0 < bs \<and> length data > bs
      then (case checktime s of
              (Inl x, s') \<Rightarrow> (Inl x, s')
            | (Inr _, s') \<Rightarrow> encode_loop bs write checktime (write e (take bs data)) (drop bs data) s')
      else (Inr (write e data), s))"
  by pat_completeness auto
termination
  by (relation "measure (\<lambda>(bs, write, checktime, e, data, s). length data)") auto

declare encode_loop.simps [simp del]

fun exn_error :: "exn \<Rightarrow> js_error" where
  "exn_error (Chain_exception msg args) = Set_error msg"
| "exn_error x = Set_error ''unknown exception''"

definition encode :: "nat \<Rightarrow> ('e \<Rightarrow> 8 word list \<Rightarrow> 'e) \<Rightarrow> ('e \<Rightarrow> 8 word list) \<Rightarrow> (8 word list \<Rightarrow> string) \<Rightarrow>
    ('s \<Rightarrow> (exn + unit) \<times> 's) \<Rightarrow> 'e \<Rightarrow> 8 word list \<Rightarrow> 's \<Rightarrow> (js_error + string) \<times> 's" where
  "encode bs write result hex checktime e data s =
     (case encode_loop bs write checktime e data s of
        (Inl x, s') \<Rightarrow> (Inl (exn_error x), s')
      | (Inr e', s') \<Rightarrow> (Inr (hex (result e')), s'))"

text \<open>The checks: their number, and what they leave when none of them throws.\<close>

fun checks :: "nat \<Rightarrow> ('s \<Rightarrow> (exn + unit) \<times> 's) \<Rightarrow> 's \<Rightarrow> (exn + unit) \<times> 's" where
  "checks 0 checktime s = (Inr (), s)"
| "checks (Suc n) checktime s = (case checktime s of (Inl x, s') \<Rightarrow> (Inl x, s') | (Inr _, s') \<Rightarrow> checks n checktime s')"

lemma encode_loop_whole:
  assumes "0 < bs" "\<And>e xs ys. write (write e xs) ys = write e (xs @ ys)"
  shows "encode_loop bs write checktime e data s =
    (case checks ((length data - 1) div bs) checktime s of (Inl x, s') \<Rightarrow> (Inl x, s') | (Inr _, s') \<Rightarrow> (Inr (write e data), s'))"
proof (induction "length data" arbitrary: data e s rule: less_induct)
  case less
  show ?case
  proof (cases "length data > bs")
    case True
    then have n: "(length data - 1) div bs = Suc ((length (drop bs data) - 1) div bs)"
      using assms(1) le_div_geq [of bs "length data - 1"] by (simp add: diff_right_commute)
    have "length (drop bs data) < length data" using True assms(1) by simp
    from less [OF this] show ?thesis
      using True assms(1) unfolding n
      by (subst encode_loop.simps) (auto simp: assms(2) split: sum.splits prod.splits)
  next
    case False
    then have "(length data - 1) div bs = 0" using assms(1) by (cases data) auto
    then show ?thesis using False by (subst encode_loop.simps) simp
  qed
qed

text \<open>
  Hashing in blocks is hashing the whole: for an encoder that does not care how its input is
  cut, the digest is that of the data in one piece, for data of every length, and the time is
  checked once for each full block before the last.  If a check throws, its exception is the
  outcome and no digest is given.
\<close>

theorem encode_whole:
  assumes "0 < bs" "\<And>e xs ys. write (write e xs) ys = write e (xs @ ys)"
  shows "encode bs write result hex checktime e data s =
    (case checks ((length data - 1) div bs) checktime s of
       (Inl x, s') \<Rightarrow> (Inl (exn_error x), s')
     | (Inr _, s') \<Rightarrow> (Inr (hex (result (write e data))), s'))"
  unfolding encode_def encode_loop_whole [OF assms] by (auto split: sum.splits prod.splits)

lemma encode_whole_witness:
  "encode 2 (@) id (map (\<lambda>b. if b = 72 then CHR ''H'' else CHR ''-'')) (\<lambda>s :: nat. (Inr (), Suc s)) [] [72, 101, 108, 108, 111] 0 =
     (Inr ''H----'', 2)"
proof -
  let ?c = "\<lambda>s :: nat. (Inr () :: exn + unit, Suc s)"
  have n: "(length [72 :: 8 word, 101, 108, 108, 111] - 1) div 2 = 2" by simp
  have "checks 2 ?c 0 = (Inr (), 2)" by (simp add: numeral_2_eq_2)
  with encode_whole [of 2 "(@)" id "map (\<lambda>b. if b = 72 then CHR ''H'' else CHR ''-'')" ?c "[]" "[72, 101, 108, 108, 111]" 0]
  show ?thesis unfolding n by simp
qed

section \<open>Powers\<close>

definition dbl_is_nan :: "dbl \<Rightarrow> bool" where
  "dbl_is_nan d \<longleftrightarrow> d = DNaN"

fun dbl_is_zero :: "dbl \<Rightarrow> bool" where
  "dbl_is_zero (DFin m e) \<longleftrightarrow> m = 0"
| "dbl_is_zero d \<longleftrightarrow> False"

fun dbl_is_unit :: "dbl \<Rightarrow> bool" where
  "dbl_is_unit (DFin m e) \<longleftrightarrow> (if 0 \<le> e then \<bar>m\<bar> * 2 ^ nat e = 1 else \<bar>m\<bar> = 2 ^ nat (- e))"
| "dbl_is_unit d \<longleftrightarrow> False"

fun dbl_is_inf :: "dbl \<Rightarrow> bool" where
  "dbl_is_inf (DInf neg) \<longleftrightarrow> True"
| "dbl_is_inf d \<longleftrightarrow> False"

text \<open>\<open>std_pow\<close> is the C library's power.\<close>

definition ieee754_pow :: "(dbl \<Rightarrow> dbl \<Rightarrow> dbl) \<Rightarrow> dbl \<Rightarrow> dbl \<Rightarrow> dbl" where
  "ieee754_pow std_pow x y =
     (if dbl_is_zero y then DFin 1 0
      else if dbl_is_nan y \<or> dbl_is_unit x \<and> dbl_is_inf y then DNaN
      else std_pow x y)"

section \<open>Balances\<close>

text \<open>A row of a token's table: 8 bytes of amount and 8 of symbol, behind 8 bytes of key and
  before 8 of contract for tokens that keep those; little-endian.\<close>

definition le64 :: "8 word list \<Rightarrow> 64 word" where
  "le64 bs = word_rcat (rev bs)"

definition unpack64 :: "8 word list \<Rightarrow> exn + 64 word \<times> 8 word list" where
  "unpack64 bs = (if length bs < 8 then Inl (Fc_exception ''read datastream of length over by'')
     else Inr (le64 (take 8 bs), drop 8 bs))"

type_synonym asset = "64 word \<times> 64 word"

definition unpack_asset :: "8 word list \<Rightarrow> exn + asset \<times> 8 word list" where
  "unpack_asset bs = (case unpack64 bs of Inl x \<Rightarrow> Inl x | Inr (amount, bs1) \<Rightarrow>
     (case unpack64 bs1 of Inl x \<Rightarrow> Inl x | Inr (sy, bs2) \<Rightarrow> Inr ((amount, sy), bs2)))"

definition sizeof_asset :: nat where
  "sizeof_asset = 16"

record balance_params =
  p_code :: "64 word"
  p_symbol :: "string option"

record token_env =
  token_account :: "64 word"
  system_account :: "64 word"
  symbol_valid :: "64 word \<Rightarrow> bool"
  symbol_name :: "64 word \<Rightarrow> string"

text \<open>Is the structure \<open>account\<close> of the ABI the plain one, a single balance?\<close>

fun eos_abi :: "(string \<times> (string \<times> string) list) list \<Rightarrow> bool" where
  "eos_abi [] \<longleftrightarrow> True"
| "eos_abi ((name, fs) # ss) \<longleftrightarrow>
     (if name = ''account''
      then length fs = 1 \<and> fst (fs ! 0) = ''balance'' \<and> snd (fs ! 0) = ''asset''
      else eos_abi ss)"

definition lower :: "char \<Rightarrow> char" where
  "lower c = (if CHR ''A'' \<le> c \<and> c \<le> CHR ''Z'' then char_of (of_char c + 32 :: nat) else c)"

definition iequals :: "string \<Rightarrow> string \<Rightarrow> bool" where
  "iequals a b \<longleftrightarrow> map lower a = map lower b"

text \<open>What a row is: an asset that counts, one of another contract, which is passed over, or an
  error.\<close>

definition read_balance :: "token_env \<Rightarrow> bool \<Rightarrow> balance_params \<Rightarrow> 8 word list \<Rightarrow> exn + asset option" where
  "read_balance env eos p value =
     (if length value < sizeof_asset then Inl (Chain_exception ''Invalid data on table'' [])
      else if eos then (case unpack_asset value of Inl x \<Rightarrow> Inl x | Inr (cursor, _) \<Rightarrow> Inr (Some cursor))
      else (case unpack64 value of Inl x \<Rightarrow> Inl x | Inr (_, bs) \<Rightarrow>
            case unpack_asset bs of Inl x \<Rightarrow> Inl x | Inr (cursor, bs) \<Rightarrow>
            case unpack64 bs of Inl x \<Rightarrow> Inl x | Inr (contract, _) \<Rightarrow>
              Inr (if contract = (if p_code p = token_account env then system_account env else p_code p)
                   then Some cursor else None)))"

definition wanted :: "token_env \<Rightarrow> balance_params \<Rightarrow> asset \<Rightarrow> bool" where
  "wanted env p cursor \<longleftrightarrow> (case p_symbol p of None \<Rightarrow> True | Some sy \<Rightarrow> iequals (symbol_name env (snd cursor)) sy)"

text \<open>The function given to the walk: the results and whether the walk goes on.\<close>

definition balance_row :: "token_env \<Rightarrow> bool \<Rightarrow> balance_params \<Rightarrow> 8 word list \<Rightarrow> asset list \<Rightarrow> exn + asset list \<times> bool" where
  "balance_row env eos p value results =
     (case read_balance env eos p value of
        Inl x \<Rightarrow> Inl x
      | Inr None \<Rightarrow> Inr (results, True)
      | Inr (Some cursor) \<Rightarrow>
          if \<not> symbol_valid env (snd cursor) then Inl (Chain_exception ''Invalid asset'' [])
          else Inr (if p_symbol p = None \<or> wanted env p cursor then results @ [cursor] else results,
                    \<not> (p_symbol p \<noteq> None \<and> wanted env p cursor)))"

fun walk_rows :: "(8 word list \<Rightarrow> 'r \<Rightarrow> exn + 'r \<times> bool) \<Rightarrow> 8 word list list \<Rightarrow> 'r \<Rightarrow> exn + 'r" where
  "walk_rows f [] r = Inr r"
| "walk_rows f (v # vs) r = (case f v r of Inl x \<Rightarrow> Inl x | Inr (r', go) \<Rightarrow> if go then walk_rows f vs r' else Inr r')"

definition get_currency_balance_ex ::
    "token_env \<Rightarrow> (string \<times> (string \<times> string) list) list \<Rightarrow> balance_params \<Rightarrow> 8 word list list \<Rightarrow> exn + asset list" where
  "get_currency_balance_ex env structs p accounts = walk_rows (balance_row env (eos_abi structs) p) accounts []"

text \<open>The balances of the token's own contract among the rows, and the rows without an error.\<close>

definition row_ok :: "token_env \<Rightarrow> bool \<Rightarrow> balance_params \<Rightarrow> 8 word list \<Rightarrow> bool" where
  "row_ok env eos p v \<longleftrightarrow>
     (case read_balance env eos p v of Inl x \<Rightarrow> False | Inr None \<Rightarrow> True | Inr (Some c) \<Rightarrow> symbol_valid env (snd c))"

definition row_balance :: "token_env \<Rightarrow> bool \<Rightarrow> balance_params \<Rightarrow> 8 word list \<Rightarrow> asset option" where
  "row_balance env eos p v = (case read_balance env eos p v of Inl x \<Rightarrow> None | Inr c \<Rightarrow> c)"

definition balances_of :: "token_env \<Rightarrow> bool \<Rightarrow> balance_params \<Rightarrow> 8 word list list \<Rightarrow> asset list" where
  "balances_of env eos p vs =
     (let cs = filter (wanted env p) (List.map_filter (row_balance env eos p) vs)
      in if p_symbol p = None then cs else take 1 cs)"

lemma balances_of_Cons:
  "balances_of env eos p (v # vs) =
     (case row_balance env eos p v of
        None \<Rightarrow> balances_of env eos p vs
      | Some c \<Rightarrow>
          if \<not> wanted env p c then balances_of env eos p vs
          else if p_symbol p = None then c # balances_of env eos p vs else [c])"
  by (auto simp: balances_of_def List.map_filter_simps Let_def split: option.split)

lemma balance_row_ok:
  assumes "row_ok env eos p v"
  shows "balance_row env eos p v bs =
    (case row_balance env eos p v of
       None \<Rightarrow> Inr (bs, True)
     | Some c \<Rightarrow> Inr (if wanted env p c then bs @ [c] else bs, p_symbol p = None \<or> \<not> wanted env p c))"
  using assms by (auto simp: row_balance_def row_ok_def balance_row_def wanted_def split: sum.splits option.splits)

lemma walk_balances:
  assumes "\<forall>v \<in> set pre. row_ok env eos p v"
  shows "walk_rows (balance_row env eos p) (pre @ vs) bs =
    (if p_symbol p \<noteq> None \<and> balances_of env eos p pre \<noteq> [] then Inr (bs @ balances_of env eos p pre)
     else walk_rows (balance_row env eos p) vs (bs @ balances_of env eos p pre))"
  using assms
proof (induction pre arbitrary: bs)
  case Nil
  then show ?case by (simp add: balances_of_def List.map_filter_simps)
next
  case (Cons v pre)
  have "row_ok env eos p v" using Cons.prems by simp
  note row = balance_row_ok [OF this, of bs]
  have IH: "walk_rows (balance_row env eos p) (pre @ vs) bs =
    (if p_symbol p \<noteq> None \<and> balances_of env eos p pre \<noteq> [] then Inr (bs @ balances_of env eos p pre)
     else walk_rows (balance_row env eos p) vs (bs @ balances_of env eos p pre))" for bs
    using Cons by simp
  have w: "p_symbol p = None \<Longrightarrow> wanted env p c" for c by (simp add: wanted_def)
  show ?case
    using w by (cases "row_balance env eos p v") (auto simp: row IH balances_of_Cons)
qed

text \<open>
  The balances of an account.  When every row reads, they are the assets of the rows that
  belong to the token's contract, all of them in order, or with a symbol asked for the first
  one whose symbol is the same up to case.  A row that does not read, because it is too short,
  or has an asset with an invalid symbol, is the outcome if it comes before the asset that was
  asked for; rows behind that asset do not matter.
\<close>

theorem currency_balances:
  assumes "\<forall>v \<in> set pre. row_ok env (eos_abi structs) p v"
  defines "found \<equiv> balances_of env (eos_abi structs) p pre"
  shows "get_currency_balance_ex env structs p pre = Inr found \<and>
    (p_symbol p \<noteq> None \<longrightarrow> found \<noteq> [] \<longrightarrow> get_currency_balance_ex env structs p (pre @ vs) = Inr found) \<and>
    (\<not> row_ok env (eos_abi structs) p bad \<longrightarrow> p_symbol p = None \<or> found = [] \<longrightarrow>
      (\<exists>x. get_currency_balance_ex env structs p (pre @ bad # vs) = Inl x))"
proof -
  let ?f = "balance_row env (eos_abi structs) p"
  note walk = walk_balances [OF assms(1), of _ "[]", folded found_def]
  have "\<exists>x. walk_rows ?f (bad # vs) bs = Inl x" if "\<not> row_ok env (eos_abi structs) p bad" for bs
    using that by (auto simp: row_ok_def balance_row_def split: sum.splits option.splits)
  then show ?thesis using walk [of "[]"] walk [of vs] walk [of "bad # vs"]
    by (auto simp: get_currency_balance_ex_def)
qed

definition demo_token :: token_env where
  "demo_token = \<lparr>token_account = 1, system_account = 2, symbol_valid = \<lambda>x. True, symbol_name = \<lambda>x. ''EOS''\<rparr>"

lemma currency_balances_witness:
  "get_currency_balance_ex demo_token [] \<lparr>p_code = 1, p_symbol = Some ''eos''\<rparr> [replicate 16 7, []] =
     Inr [(le64 (replicate 8 7), le64 (replicate 8 7))] \<and>
   (\<exists>x. get_currency_balance_ex demo_token [] \<lparr>p_code = 1, p_symbol = None\<rparr> [replicate 16 7, []] = Inl x)"
proof -
  let ?p = "\<lparr>p_code = 1, p_symbol = Some ''eos''\<rparr>" and ?q = "\<lparr>p_code = 1, p_symbol = None\<rparr>"
  have r: "read_balance demo_token True p (replicate 16 7) = Inr (Some (le64 (replicate 8 7), le64 (replicate 8 7)))" for p
    by (simp add: read_balance_def sizeof_asset_def unpack_asset_def unpack64_def)
  have d: "symbol_name demo_token x = ''EOS''" "balances_of demo_token True p [] = []" for x p
    by (simp_all add: demo_token_def balances_of_def List.map_filter_simps)
  have i: "iequals ''EOS'' ''eos''" by code_simp
  have "\<forall>v \<in> set [replicate 16 7]. row_ok demo_token (eos_abi []) p v" for p
    by (simp add: row_ok_def r) (simp add: demo_token_def)
  note b = currency_balances [OF this]
  have f: "balances_of demo_token (eos_abi []) p [replicate 16 7] = [(le64 (replicate 8 7), le64 (replicate 8 7))]" if "p = ?p \<or> p = ?q" for p
    using that i by (auto simp: balances_of_Cons row_balance_def r wanted_def d)
  have "\<not> row_ok demo_token (eos_abi []) p []" for p by (simp add: row_ok_def read_balance_def sizeof_asset_def)
  then show ?thesis using b [of ?p "[[]]"] b [of ?q "[]" "[]"] f by simp
qed

text \<open>The statistics of a token: one row for each currency, of a supply, a maximum and an issuer.\<close>

type_synonym token_stats = "asset \<times> asset \<times> 64 word"

definition stats_row :: "token_env \<Rightarrow> 8 word list \<Rightarrow> (string \<times> token_stats) list \<Rightarrow> exn + (string \<times> token_stats) list \<times> bool" where
  "stats_row env value results =
     (if length value < 40 then Inl (Chain_exception ''Invalid data on table'' [])
      else case unpack_asset value of Inl x \<Rightarrow> Inl x | Inr (supply, bs) \<Rightarrow>
           case unpack_asset bs of Inl x \<Rightarrow> Inl x | Inr (max_supply, bs) \<Rightarrow>
           case unpack64 bs of Inl x \<Rightarrow> Inl x | Inr (issuer, _) \<Rightarrow>
             Inr (AList.update (symbol_name env (snd supply)) (supply, max_supply, issuer) results, True))"

definition upper :: "char \<Rightarrow> char" where
  "upper c = (if CHR ''a'' \<le> c \<and> c \<le> CHR ''z'' then char_of (of_char c - 32 :: nat) else c)"

definition stats_scope :: "(string \<Rightarrow> 64 word) \<Rightarrow> string \<Rightarrow> 64 word" where
  "stats_scope string_to_symbol symbol = drop_bit 8 (string_to_symbol (map upper symbol))"

definition get_currency_stats_ex ::
    "token_env \<Rightarrow> (string \<Rightarrow> 64 word) \<Rightarrow> (64 word \<Rightarrow> 8 word list list) \<Rightarrow> string \<Rightarrow> (string \<times> token_stats) list \<Rightarrow>
     exn + (string \<times> token_stats) list" where
  "get_currency_stats_ex env string_to_symbol stat symbol results =
     walk_rows (stats_row env) (stat (stats_scope string_to_symbol symbol)) results"

end
