(* ===== verification/Node_Api.thy ===== *)
theory Node_Api
  imports Js_Table
begin

text \<open>
  The object \<open>chain\<close> with which a script sets up and runs the node: \<^verbatim>\<open>src/base/app.cpp\<close> (names
  of the system accounts, plugins and their options, start and stop, log level, the state of the
  database file) and \<^verbatim>\<open>src/base/post.cpp\<close> (requests to the node's own HTTP handlers).

  The application framework, the plugins and the chain's name type are parameters; the globals
  the methods write are passed along.
\<close>

section \<open>Names of the system accounts\<close>

record chain_names =
  system_account_name :: "64 word"
  null_account_name :: "64 word"
  producers_account_name :: "64 word"
  token_account_name :: "64 word"
  eosio_auth_scope :: "64 word"
  eosio_all_scope :: "64 word"
  eosio_any_name :: "64 word"
  eosio_code_name :: "64 word"
  eosio_cross_name :: "64 word"

definition name_setters :: "(string \<times> (64 word \<Rightarrow> chain_names \<Rightarrow> chain_names)) list" where
  "name_setters = [
     ([], \<lambda>n c. c\<lparr>system_account_name := n\<rparr>),
     (''.null'', \<lambda>n c. c\<lparr>null_account_name := n\<rparr>),
     (''.prods'', \<lambda>n c. c\<lparr>producers_account_name := n\<rparr>),
     (''.token'', \<lambda>n c. c\<lparr>token_account_name := n\<rparr>),
     (''.auth'', \<lambda>n c. c\<lparr>eosio_auth_scope := n\<rparr>),
     (''.all'', \<lambda>n c. c\<lparr>eosio_all_scope := n\<rparr>),
     (''.any'', \<lambda>n c. c\<lparr>eosio_any_name := n\<rparr>),
     (''.code'', \<lambda>n c. c\<lparr>eosio_code_name := n\<rparr>),
     (''.cross'', \<lambda>n c. c\<lparr>eosio_cross_name := n\<rparr>)]"

text \<open>The assignments one after the other; \<open>new_name\<close> is the constructor of a name, which throws
  when the text is none.\<close>

fun set_names :: "(string \<Rightarrow> exn + 64 word) \<Rightarrow> string \<Rightarrow> (string \<times> (64 word \<Rightarrow> chain_names \<Rightarrow> chain_names)) list \<Rightarrow>
    chain_names \<Rightarrow> (exn + unit) \<times> chain_names" where
  "set_names new_name newVal [] c = (Inr (), c)"
| "set_names new_name newVal ((suffix, setter) # rest) c =
     (case new_name (newVal @ suffix) of
        Inl x \<Rightarrow> (Inl x, c)
      | Inr n \<Rightarrow> set_names new_name newVal rest (setter n c))"

definition chain_set_name :: "(string \<Rightarrow> exn + 64 word) \<Rightarrow> string \<Rightarrow> chain_names \<Rightarrow> (exn + unit) \<times> chain_names" where
  "chain_set_name new_name newVal c = set_names new_name newVal name_setters c"

definition chain_get_name :: "(64 word \<Rightarrow> string) \<Rightarrow> chain_names \<Rightarrow> string" where
  "chain_get_name to_string c = to_string (system_account_name c)"

definition names_list :: "chain_names \<Rightarrow> 64 word list" where
  "names_list c = [system_account_name c, null_account_name c, producers_account_name c, token_account_name c,
     eosio_auth_scope c, eosio_all_scope c, eosio_any_name c, eosio_code_name c, eosio_cross_name c]"

text \<open>Each assignment sets its own place of the list.\<close>

lemma setters_places:
  "i < length name_setters \<Longrightarrow> names_list (snd (name_setters ! i) n c) = (names_list c)[i := n]"
proof -
  assume "i < length name_setters"
  then have "i \<in> {0, 1, 2, 3, 4, 5, 6, 7, 8}" by (auto simp: name_setters_def)
  then show ?thesis by (elim insertE emptyE) (simp_all add: name_setters_def names_list_def)
qed

lemma length_names [simp]: "length (names_list c) = 9" "length name_setters = 9"
  by (simp_all add: names_list_def name_setters_def)

lemma set_names_prefix:
  assumes "set_names new_name newVal (drop j name_setters) c = (r, c')" "j \<le> 9"
  shows "\<exists>k. j \<le> k \<and> k \<le> 9 \<and> (\<forall>i. j \<le> i \<longrightarrow> i < k \<longrightarrow> new_name (newVal @ fst (name_setters ! i)) = Inr (names_list c' ! i)) \<and>
    (\<forall>i < 9. i < j \<or> k \<le> i \<longrightarrow> names_list c' ! i = names_list c ! i) \<and>
    (if k = 9 then r = Inr () else (\<exists>x. new_name (newVal @ fst (name_setters ! k)) = Inl x \<and> r = Inl x))"
  using assms
proof (induction "9 - j" arbitrary: j c)
  case 0
  then have "j = 9" by simp
  with 0 show ?case by (intro exI [of _ 9]) auto
next
  case (Suc d)
  then have j: "j < 9" by simp
  have d: "drop j name_setters = name_setters ! j # drop (Suc j) name_setters"
    using j by (intro Cons_nth_drop_Suc [symmetric]) simp
  obtain suf st where n: "name_setters ! j = (suf, st)" by fastforce
  show ?case
  proof (cases "new_name (newVal @ suf)")
    case (Inl x)
    with Suc.prems j d n show ?thesis by (intro exI [of _ j]) auto
  next
    case (Inr v)
    then have "set_names new_name newVal (drop (Suc j) name_setters) (st v c) = (r, c')" using Suc.prems d n by simp
    moreover have "d = 9 - Suc j" "Suc j \<le> 9" using Suc.hyps(2) j by simp_all
    ultimately obtain k where k: "Suc j \<le> k" "k \<le> 9"
      "\<forall>i. Suc j \<le> i \<longrightarrow> i < k \<longrightarrow> new_name (newVal @ fst (name_setters ! i)) = Inr (names_list c' ! i)"
      "\<forall>i < 9. i < Suc j \<or> k \<le> i \<longrightarrow> names_list c' ! i = names_list (st v c) ! i"
      "if k = 9 then r = Inr () else (\<exists>x. new_name (newVal @ fst (name_setters ! k)) = Inl x \<and> r = Inl x)"
      using Suc.hyps(1) [of "Suc j" "st v c"] by blast
    have upd: "names_list (st v c) = (names_list c)[j := v]" using setters_places [of j v c] j n by simp
    show ?thesis
    proof (intro exI [of _ k] conjI allI impI)
      fix i assume "j \<le> i" "i < k"
      then show "new_name (newVal @ fst (name_setters ! i)) = Inr (names_list c' ! i)"
        using k(1,3,4) Inr n upd j by (cases "i = j") auto
    next
      fix i :: nat assume "i < 9" "i < j \<or> k \<le> i"
      then show "names_list c' ! i = names_list c ! i" using k(1,4) upd by auto
    qed (use k in auto)
  qed
qed

text \<open>
  Renaming the system accounts is not atomic.  The nine names are set in their order up to
  the first whose text is no name; those before it are the new ones, the others stay as they
  were, and the call throws exactly when it stops before the end.  Since \<open>.prods\<close>, \<open>.token\<close> and
  \<open>.cross\<close> take six characters, a name of more than seven always throws, and one of eight has
  then renamed the system and the null account and nothing else.
\<close>

theorem set_name_partial:
  assumes "chain_set_name new_name newVal c = (r, c')" and "\<forall>str. length str > 13 \<longrightarrow> (\<exists>x. new_name str = Inl x)"
  shows "\<exists>k \<le> 9. (\<forall>i < k. new_name (newVal @ fst (name_setters ! i)) = Inr (names_list c' ! i)) \<and>
      (\<forall>i < 9. k \<le> i \<longrightarrow> names_list c' ! i = names_list c ! i) \<and> (r = Inr () \<longleftrightarrow> k = 9) \<and>
      (length newVal > 7 \<longrightarrow> k \<le> 2) \<and>
      (length newVal = 8 \<longrightarrow> (\<exists>n m. new_name newVal = Inr n \<and> new_name (newVal @ ''.null'') = Inr m) \<longrightarrow> k = 2)"
proof -
  obtain k where k: "k \<le> 9" "\<forall>i < k. new_name (newVal @ fst (name_setters ! i)) = Inr (names_list c' ! i)"
    "\<forall>i < 9. k \<le> i \<longrightarrow> names_list c' ! i = names_list c ! i"
    "if k = 9 then r = Inr () else (\<exists>x. new_name (newVal @ fst (name_setters ! k)) = Inl x \<and> r = Inl x)"
    using set_names_prefix [of new_name newVal 0 c r c'] assms(1) by (auto simp: chain_set_name_def)
  have f: "fst (name_setters ! 0) = []" "fst (name_setters ! 1) = ''.null''" "fst (name_setters ! 2) = ''.prods''"
    by (simp_all add: name_setters_def)
  have short: "k \<le> 2" if "length newVal > 7"
  proof (rule ccontr)
    assume "\<not> k \<le> 2"
    then have "new_name (newVal @ ''.prods'') = Inr (names_list c' ! 2)" using k(2) f(3) by (metis not_le)
    moreover have "length (newVal @ ''.prods'') > 13" using that by simp
    ultimately show False using assms(2) by (metis Inl_Inr_False)
  qed
  have "k = 2" if "length newVal = 8" "\<exists>n m. new_name newVal = Inr n \<and> new_name (newVal @ ''.null'') = Inr m"
  proof -
    have "k \<noteq> 0" using k(4) f(1) that(2) by (cases "k = 0") auto
    moreover have "k \<noteq> 1" using k(4) f(2) that(2) by (cases "k = 1") auto
    ultimately show ?thesis using short that(1) by simp
  qed
  moreover have "r = Inr () \<longleftrightarrow> k = 9" using k(4) by (cases "k = 9") auto
  ultimately show ?thesis using short k(1-3) by (intro exI [of _ k]) auto
qed

lemma set_name_partial_witness:
  "\<exists>c'. chain_set_name (\<lambda>str. if length str \<le> 13 then Inr (of_nat (length str)) else Inl (Chain_exception [] []))
       ''abcdefgh'' \<lparr>system_account_name = 1, null_account_name = 1, producers_account_name = 1, token_account_name = 1,
       eosio_auth_scope = 1, eosio_all_scope = 1, eosio_any_name = 1, eosio_code_name = 1, eosio_cross_name = 1\<rparr> =
       (Inl (Chain_exception [] []), c') \<and> names_list c' ! 0 = 8 \<and> names_list c' ! 1 = 13 \<and> names_list c' ! 2 = 1"
proof -
  let ?new = "\<lambda>str :: string. if length str \<le> 13 then Inr (of_nat (length str)) else Inl (Chain_exception [] []) :: exn + 64 word"
  let ?c = "\<lparr>system_account_name = 1, null_account_name = 1, producers_account_name = 1, token_account_name = 1,
       eosio_auth_scope = 1, eosio_all_scope = 1, eosio_any_name = 1, eosio_code_name = 1, eosio_cross_name = 1\<rparr> :: chain_names"
  let ?d = "?c\<lparr>system_account_name := 8, null_account_name := 13\<rparr>"
  have s: "chain_set_name ?new ''abcdefgh'' ?c = (Inl (Chain_exception [] []), ?d)"
    by (simp add: chain_set_name_def name_setters_def)
  have "\<exists>k \<le> 9. (\<forall>i < 9. k \<le> i \<longrightarrow> names_list ?d ! i = names_list ?c ! i) \<and> k = 2"
    using set_name_partial [OF s] by auto
  then have "names_list ?d ! 2 = 1" by (simp add: names_list_def)
  then show ?thesis using s by (intro exI [of _ ?d]) (simp add: names_list_def)
qed

section \<open>Plugins and their options\<close>

text \<open>An option of a plugin, as far as the code asks: the number of tokens it needs at least.  The
  command line's options are looked up before those of the configuration file.\<close>

record plugin =
  registered :: bool
  cli_option :: "string \<Rightarrow> nat option"
  cfg_option :: "string \<Rightarrow> nat option"

definition find_option :: "plugin \<Rightarrow> string \<Rightarrow> nat option" where
  "find_option p key = (case cli_option p key of None \<Rightarrow> cfg_option p key | Some n \<Rightarrow> Some n)"

text \<open>The arguments an option adds; \<open>to_str\<close> is the engine's conversion to a text.\<close>

definition option_args :: "(jsv \<Rightarrow> string) \<Rightarrow> plugin \<Rightarrow> string \<Rightarrow> jsv \<Rightarrow> js_error + string list" where
  "option_args to_str p key v =
     (case find_option p key of
        None \<Rightarrow> Inl (Set_error (''unrecognised option: '' @ key))
      | Some min_tokens \<Rightarrow>
          if min_tokens = 0 then Inr (if v = JBool True then [''--'' @ key] else [])
          else (case v of
                  JArray vals \<Rightarrow>
                    if vals = [] then Inl (Set_error (''empty option parameters: '' @ key))
                    else Inr (concat (map (\<lambda>sj. [''--'' @ key, to_str sj]) vals))
                | _ \<Rightarrow> Inr [''--'' @ key, to_str v]))"

fun load_options :: "(jsv \<Rightarrow> string) \<Rightarrow> plugin \<Rightarrow> (jsv \<times> jsv) list \<Rightarrow> string list \<Rightarrow> (js_error + unit) \<times> string list" where
  "load_options to_str p [] s_args = (Inr (), s_args)"
| "load_options to_str p ((k, v) # kvs) s_args =
     (case option_args to_str p (to_str k) v of
        Inl hr \<Rightarrow> (Inl hr, s_args)
      | Inr args \<Rightarrow> load_options to_str p kvs (s_args @ args))"

definition chain_load :: "(jsv \<Rightarrow> string) \<Rightarrow> (string \<Rightarrow> plugin option) \<Rightarrow> string \<Rightarrow> jsv \<Rightarrow> string list \<Rightarrow> (js_error + unit) \<times> string list" where
  "chain_load to_str find_plugin name cfg s_args =
     (let plug_name = ''eosio::'' @ name @ ''_plugin'' in
      case find_plugin plug_name of
        None \<Rightarrow> (Inl (Set_error (''Plugin '' @ name @ '' not found.'')), s_args)
      | Some p \<Rightarrow>
          if registered p then load_options to_str p (properties cfg) (s_args @ [''--plugin'', plug_name])
          else (Inr (), s_args))"

text \<open>Several plugins: what \<open>load\<close> returns for one of them is not looked at.\<close>

fun load_plugins :: "(jsv \<Rightarrow> string) \<Rightarrow> (string \<Rightarrow> plugin option) \<Rightarrow> (jsv \<times> jsv) list \<Rightarrow> string list \<Rightarrow> (js_error + unit) \<times> string list" where
  "load_plugins to_str find_plugin [] s_args = (Inr (), s_args)"
| "load_plugins to_str find_plugin ((k, v) # kvs) s_args =
     (if \<not> is_object v then (Inl Wrong_type, s_args)
      else load_plugins to_str find_plugin kvs (snd (chain_load to_str find_plugin (to_str k) v s_args)))"

definition chain_load_all :: "(jsv \<Rightarrow> string) \<Rightarrow> (string \<Rightarrow> plugin option) \<Rightarrow> jsv \<Rightarrow> string list \<Rightarrow> (js_error + unit) \<times> string list" where
  "chain_load_all to_str find_plugin cfgs s_args = load_plugins to_str find_plugin (properties cfgs) s_args"

text \<open>The options of a plugin that are understood, up to the first that is not.\<close>

fun good_options :: "(jsv \<Rightarrow> string) \<Rightarrow> plugin \<Rightarrow> (jsv \<times> jsv) list \<Rightarrow> string list" where
  "good_options to_str p [] = []"
| "good_options to_str p ((k, v) # kvs) =
     (case option_args to_str p (to_str k) v of Inl hr \<Rightarrow> [] | Inr args \<Rightarrow> args @ good_options to_str p kvs)"

definition plugin_args :: "(jsv \<Rightarrow> string) \<Rightarrow> (string \<Rightarrow> plugin option) \<Rightarrow> jsv \<times> jsv \<Rightarrow> string list" where
  "plugin_args to_str find_plugin kv =
     (let plug_name = ''eosio::'' @ to_str (fst kv) @ ''_plugin'' in
      case find_plugin plug_name of None \<Rightarrow> []
      | Some p \<Rightarrow> if registered p then [''--plugin'', plug_name] @ good_options to_str p (properties (snd kv)) else [])"

lemma load_options_args: "snd (load_options to_str p kvs s_args) = s_args @ good_options to_str p kvs"
  by (induction kvs arbitrary: s_args) (auto split: sum.split)

lemma load_options_ok: "fst (load_options to_str p kvs s_args) = Inr () \<longleftrightarrow>
    (\<forall>(k, v) \<in> set kvs. \<exists>args. option_args to_str p (to_str k) v = Inr args)"
  by (induction kvs arbitrary: s_args) (auto split: sum.splits)

lemma chain_load_args: "snd (chain_load to_str find_plugin (to_str k) v s_args) = s_args @ plugin_args to_str find_plugin (k, v)"
  by (simp add: chain_load_def plugin_args_def load_options_args Let_def split: option.split)

lemma load_plugins_args:
  "\<forall>(k, v) \<in> set kvs. is_object v \<Longrightarrow>
   load_plugins to_str find_plugin kvs s_args = (Inr (), s_args @ concat (map (plugin_args to_str find_plugin) kvs))"
  by (induction kvs arbitrary: s_args) (auto simp: chain_load_args)

text \<open>
  Loading one plugin fails exactly when it is not known or has an option that is not, or
  an option with an empty list of values; the options before that one are already among the
  arguments.  Loading several with one object always succeeds if their configurations are
  objects: an unknown plugin or option is not reported, the node starts with the arguments that
  were understood.
\<close>

theorem load_ignores_errors:
  "(fst (chain_load to_str find_plugin name cfg s_args) = Inr () \<longleftrightarrow>
      (\<exists>p. find_plugin (''eosio::'' @ name @ ''_plugin'') = Some p \<and>
         (registered p \<longrightarrow> (\<forall>(k, v) \<in> set (properties cfg). \<exists>args. option_args to_str p (to_str k) v = Inr args)))) \<and>
   ((\<forall>(k, v) \<in> set (properties cfgs). is_object v) \<longrightarrow>
      chain_load_all to_str find_plugin cfgs s_args =
        (Inr (), s_args @ concat (map (plugin_args to_str find_plugin) (properties cfgs))))"
proof
  show "fst (chain_load to_str find_plugin name cfg s_args) = Inr () \<longleftrightarrow>
      (\<exists>p. find_plugin (''eosio::'' @ name @ ''_plugin'') = Some p \<and>
         (registered p \<longrightarrow> (\<forall>(k, v) \<in> set (properties cfg). \<exists>args. option_args to_str p (to_str k) v = Inr args)))"
    by (simp add: chain_load_def Let_def load_options_ok split: option.split)
qed (simp add: chain_load_all_def load_plugins_args)

definition demo_str :: "jsv \<Rightarrow> string" where
  "demo_str v = (case v of JString str \<Rightarrow> str | _ \<Rightarrow> ''?'')"

lemma load_ignores_errors_witness:
  "chain_load_all demo_str
     (\<lambda>n. if n = ''eosio::http_plugin'' then Some \<lparr>registered = True, cli_option = \<lambda>k. None,
        cfg_option = \<lambda>k. if k = ''port'' then Some 1 else None\<rparr> else None)
     (JObject [(''http'', JObject [(''port'', JString ''80''), (''prot'', JString ''x'')]), (''htp'', JObject [])]) [''chain''] =
   (Inr (), [''chain'', ''--plugin'', ''eosio::http_plugin'', ''--port'', ''80''])"
proof -
  let ?fp = "\<lambda>n. if n = ''eosio::http_plugin'' then Some \<lparr>registered = True, cli_option = \<lambda>k. None,
        cfg_option = \<lambda>k. if k = ''port'' then Some (1 :: nat) else None\<rparr> else None"
  let ?cfgs = "JObject [(''http'', JObject [(''port'', JString ''80''), (''prot'', JString ''x'')]), (''htp'', JObject [])]"
  have "\<forall>(k, v) \<in> set (properties ?cfgs). is_object v" by simp
  with load_ignores_errors [of demo_str ?fp "''x''" JNull "[''chain'']" ?cfgs]
  have "chain_load_all demo_str ?fp ?cfgs [''chain''] =
      (Inr (), [''chain''] @ concat (map (plugin_args demo_str ?fp) (properties ?cfgs)))" by blast
  then show ?thesis by (simp add: plugin_args_def option_args_def find_option_def demo_str_def)
qed

section \<open>Start, stop, log level and the database file\<close>

record node_flags =
  s_state_started :: bool
  s_state_stopped :: bool

text \<open>Each method tests and sets the flag with the other one's name.\<close>

definition chain_start :: "node_flags \<Rightarrow> (js_error + unit) \<times> node_flags" where
  "chain_start fl = (if s_state_stopped fl then (Inl (Set_error ''non-reentrant function''), fl)
     else (Inr (), fl\<lparr>s_state_stopped := True\<rparr>))"

definition chain_stop :: "node_flags \<Rightarrow> (js_error + unit) \<times> node_flags" where
  "chain_stop fl = (if s_state_started fl then (Inl (Set_error ''non-reentrant function''), fl)
     else (Inr (), fl\<lparr>s_state_started := True\<rparr>))"

lemma start_stop_once:
  "fst (chain_start (snd (chain_start fl))) \<noteq> Inr ()" "fst (chain_stop (snd (chain_stop fl))) \<noteq> Inr ()"
  "fst (chain_stop (snd (chain_start fl))) = fst (chain_stop fl)"
  by (simp_all add: chain_start_def chain_stop_def)

datatype log_level = Log_all | Log_debug | Log_info | Log_warn | Log_error | Log_off

definition get_log_level :: "log_level \<Rightarrow> string" where
  "get_log_level lv = (case lv of Log_all \<Rightarrow> ''all'' | Log_debug \<Rightarrow> ''debug'' | Log_info \<Rightarrow> ''info''
     | Log_warn \<Rightarrow> ''warn'' | Log_error \<Rightarrow> ''error'' | Log_off \<Rightarrow> ''off'')"

definition set_log_level :: "string \<Rightarrow> log_level \<Rightarrow> (js_error + unit) \<times> log_level" where
  "set_log_level newVal lv =
     (if newVal = ''all'' then (Inr (), Log_all)
      else if newVal = ''debug'' then (Inr (), Log_debug)
      else if newVal = ''info'' then (Inr (), Log_info)
      else if newVal = ''warn'' then (Inr (), Log_warn)
      else if newVal = ''error'' then (Inr (), Log_error)
      else if newVal = ''off'' then (Inr (), Log_off)
      else (Inl Invalid_call, lv))"

lemma log_level_roundtrip:
  "set_log_level (get_log_level lv) lv' = (Inr (), lv)"
  "fst (set_log_level t lv) = Inr () \<Longrightarrow> get_log_level (snd (set_log_level t lv)) = t"
  by (cases lv) (auto simp: set_log_level_def get_log_level_def split: if_splits)

text \<open>The header of the database file, None when it is shorter than a header.\<close>

record db_header =
  header_id_ok :: bool
  dirty :: bool
  environ_ok :: bool

definition is_dirty :: "db_header option option \<Rightarrow> bool" where
  "is_dirty file =
     (case file of
        None \<Rightarrow> False
      | Some None \<Rightarrow> True
      | Some (Some h) \<Rightarrow> if \<not> header_id_ok h then True else if dirty h then True else \<not> environ_ok h)"

record key_prefix =
  public_key_legacy_prefix :: string
  chain_root_key :: string

definition base_root_key :: string where
  "base_root_key = ''6MRyAjQq8ud7hVNYcfnVPJqcVpscN5So8BhtHuGYqET5GDW5CV''"

definition set_pubkey_prefix :: "string \<Rightarrow> key_prefix" where
  "set_pubkey_prefix newVal = \<lparr>public_key_legacy_prefix = newVal, chain_root_key = newVal @ base_root_key\<rparr>"

section \<open>Requests\<close>

text \<open>What a handler does with the callback it is given: how often it calls it, and whether it
  then throws.  The answer is the list of completions of the asynchronous call, each of which
  also deletes the copy of the handler.\<close>

datatype completion = Done | Invalid_argument | Internal

definition post_request :: "bool \<Rightarrow> nat \<Rightarrow> bool \<Rightarrow> completion list" where
  "post_request known calls throws =
     (if \<not> known then [Invalid_argument] else replicate calls Done @ (if throws then [Internal] else []))"

lemma post_request_once:
  "length (post_request known calls throws) = 1 \<longleftrightarrow> \<not> known \<or> (if throws then calls = 0 else calls = 1)"
  by (auto simp: post_request_def)

end
