(* ===== verification/Node_Run.thy ===== *)
theory Node_Run
  imports Node_Api
begin

text \<open>
  The life of the node: \<open>start\<close> and \<open>stop\<close> as a script calls them, the chain thread that waits
  for the start, and its main function with the events it reports (\<open>start_chain\<close>, \<open>chain_main\<close>,
  \<open>emit_event\<close> in \<^verbatim>\<open>src/base/app.cpp\<close>).

  The application framework is a parameter: what each of its phases throws, and what the
  listeners of the three events answer.
\<close>

section \<open>Start and stop\<close>

text \<open>The isolate made for contracts, as far as it is configured here.\<close>

record contracts_isolate =
  m_enable_FileSystem :: bool
  m_console_colored :: bool
  m_safe_buffer :: bool
  m_file_cache :: nat

text \<open>The main isolate is kept alive by its references; \<open>quiting\<close> is the framework's flag.\<close>

record node =
  flags :: node_flags
  s_sem :: nat
  g_isolate :: "contracts_isolate option"
  main_refs :: int
  quit_asked :: bool
  events :: "string list"
  error_logs :: nat
  on_mainnet :: bool
  max_serialization_time :: int

definition start_node :: "node \<Rightarrow> (js_error + unit) \<times> node" where
  "start_node n =
     (case chain_start (flags n) of
        (Inl hr, fl) \<Rightarrow> (Inl hr, n\<lparr>flags := fl\<rparr>)
      | (Inr _, fl) \<Rightarrow>
          (Inr (), n\<lparr>flags := fl, main_refs := main_refs n + 1,
             g_isolate := Some \<lparr>m_enable_FileSystem = False, m_console_colored = False, m_safe_buffer = True, m_file_cache = 0\<rparr>,
             s_sem := s_sem n + 1\<rparr>))"

definition stop_node :: "node \<Rightarrow> (js_error + unit) \<times> node" where
  "stop_node n =
     (case chain_stop (flags n) of
        (Inl hr, fl) \<Rightarrow> (Inl hr, n\<lparr>flags := fl\<rparr>)
      | (Inr _, fl) \<Rightarrow> (Inr (), n\<lparr>flags := fl, quit_asked := True\<rparr>))"

section \<open>The main function of the chain thread\<close>

text \<open>The exceptions in the order of the handlers.  A chain exception is also an exception of the
  library and goes to the first handler.\<close>

datatype thrown =
    Fc_thrown string
  | Bad_alloc
  | Boost_thrown string
  | Runtime_error string
  | Std_thrown string
  | Other_thrown

definition report :: "thrown \<Rightarrow> string" where
  "report x =
     (case x of
        Fc_thrown msg \<Rightarrow> msg
      | Bad_alloc \<Rightarrow> ''bad alloc''
      | Boost_thrown msg \<Rightarrow> msg
      | Runtime_error msg \<Rightarrow>
          if msg = ''database dirty flag set''
          then ''database dirty flag set (likely due to unclean shutdown): replay required''
          else if msg = ''database metadata dirty flag set''
          then ''database metadata dirty flag set (likely due to unclean shutdown): replay required''
          else msg
      | Std_thrown msg \<Rightarrow> msg
      | Other_thrown \<Rightarrow> ''unknown exception'')"

text \<open>The framework: \<open>exec\<close> is told whether a quit has been asked for before it begins.\<close>

record framework =
  app_initialize :: "string list \<Rightarrow> thrown option"
  plugin_settings :: "thrown + int \<times> string"
  app_startup :: "thrown option"
  app_exec :: "bool \<Rightarrow> thrown option"
  listener_fails :: "string \<Rightarrow> bool"

definition s_chainid :: string where
  "s_chainid = ''6aa7bd33b6b45192465afa3553dedb531acaaff8928cf64b70bd4c5e49b7ec6a''"

definition emit_event :: "framework \<Rightarrow> string \<Rightarrow> node \<Rightarrow> node" where
  "emit_event f event n =
     (let n = n\<lparr>events := events n @ [event]\<rparr> in
      if listener_fails f event then n\<lparr>error_logs := error_logs n + 1, quit_asked := True\<rparr> else n)"

text \<open>The body of the \<open>try\<close>.\<close>

definition chain_body :: "framework \<Rightarrow> string list \<Rightarrow> node \<Rightarrow> thrown option \<times> node" where
  "chain_body f s_args n =
     (case app_initialize f s_args of
        Some x \<Rightarrow> (Some x, n)
      | None \<Rightarrow>
          (let n = emit_event f ''load'' n in
           case plugin_settings f of
             Inl x \<Rightarrow> (Some x, n)
           | Inr (abi_time, chain_id) \<Rightarrow>
               (let n = n\<lparr>max_serialization_time := abi_time, on_mainnet := (chain_id = s_chainid)\<rparr> in
                case app_startup f of
                  Some x \<Rightarrow> (Some x, n)
                | None \<Rightarrow> (app_exec f (quit_asked n), n))))"

definition chain_main :: "framework \<Rightarrow> string list \<Rightarrow> node \<Rightarrow> node" where
  "chain_main f s_args n =
     (let (x, n) = chain_body f s_args n;
          n = (case x of None \<Rightarrow> n | Some _ \<Rightarrow> emit_event f ''error'' (n\<lparr>error_logs := error_logs n + 1\<rparr>));
          n = emit_event f ''close'' n
      in n\<lparr>main_refs := main_refs n - 1\<rparr>)"

text \<open>The thread: None while it waits.\<close>

definition start_chain :: "framework \<Rightarrow> string list \<Rightarrow> node \<Rightarrow> node option" where
  "start_chain f s_args n = (if s_sem n = 0 then None else Some (chain_main f s_args (n\<lparr>s_sem := s_sem n - 1\<rparr>)))"

section \<open>Lives\<close>

definition new_node :: node where
  "new_node = \<lparr>flags = \<lparr>s_state_started = False, s_state_stopped = False\<rparr>, s_sem = 0, g_isolate = None, main_refs = 0,
     quit_asked = False, events = [], error_logs = 0, on_mainnet = False, max_serialization_time = 0\<rparr>"

text \<open>Scripts call \<open>start\<close> (True) and \<open>stop\<close> (False) in any order.\<close>

fun calls :: "bool list \<Rightarrow> node \<Rightarrow> node" where
  "calls [] n = n"
| "calls (b # bs) n = calls bs (snd (if b then start_node n else stop_node n))"

lemma calls_inv:
  assumes "if s_state_stopped (flags n) then s_sem n = 1 \<and> main_refs n = 1 \<and> g_isolate n \<noteq> None
      else s_sem n = 0 \<and> main_refs n = 0 \<and> g_isolate n = None"
    "quit_asked n = s_state_started (flags n)" "events n = []"
  shows "(if s_state_stopped (flags (calls bs n)) then s_sem (calls bs n) = 1 \<and> main_refs (calls bs n) = 1 \<and> g_isolate (calls bs n) \<noteq> None
      else s_sem (calls bs n) = 0 \<and> main_refs (calls bs n) = 0 \<and> g_isolate (calls bs n) = None) \<and>
    s_state_stopped (flags (calls bs n)) = (s_state_stopped (flags n) \<or> True \<in> set bs) \<and>
    s_state_started (flags (calls bs n)) = (s_state_started (flags n) \<or> False \<in> set bs) \<and>
    quit_asked (calls bs n) = s_state_started (flags (calls bs n)) \<and> events (calls bs n) = []"
  using assms
proof (induction bs arbitrary: n)
  case (Cons b bs)
  let ?n = "snd (if b then start_node n else stop_node n)"
  have "(if s_state_stopped (flags ?n) then s_sem ?n = 1 \<and> main_refs ?n = 1 \<and> g_isolate ?n \<noteq> None
      else s_sem ?n = 0 \<and> main_refs ?n = 0 \<and> g_isolate ?n = None)"
    "quit_asked ?n = s_state_started (flags ?n)" "events ?n = []"
    "s_state_stopped (flags ?n) = (s_state_stopped (flags n) \<or> b)" "s_state_started (flags ?n) = (s_state_started (flags n) \<or> \<not> b)"
    using Cons.prems by (auto simp: start_node_def stop_node_def chain_start_def chain_stop_def split: if_splits)
  from Cons.IH [OF this(1-3)] this(4,5) show ?case by auto
qed auto

lemma emit_sel [simp]:
  "events (emit_event f e n) = events n @ [e]" "main_refs (emit_event f e n) = main_refs n"
  "quit_asked (emit_event f e n) \<longleftrightarrow> quit_asked n \<or> listener_fails f e"
  "s_sem (emit_event f e n) = s_sem n" "flags (emit_event f e n) = flags n"
  "on_mainnet (emit_event f e n) = on_mainnet n" "g_isolate (emit_event f e n) = g_isolate n"
  by (simp_all add: emit_event_def Let_def)

lemma chain_body_sel:
  assumes "chain_body f args n = (x, n')"
  shows "events n' = events n @ (if app_initialize f args = None then [''load''] else [])"
    "main_refs n' = main_refs n" "s_sem n' = s_sem n" "flags n' = flags n" "g_isolate n' = g_isolate n"
    "quit_asked n' \<longleftrightarrow> quit_asked n \<or> app_initialize f args = None \<and> listener_fails f ''load''"
  using assms by (cases "app_initialize f args"; cases "plugin_settings f"; auto simp: chain_body_def Let_def split: option.splits)+

lemma calls_after:
  "s_state_stopped (flags n) \<Longrightarrow> s_sem n = 0 \<Longrightarrow> s_sem (calls bs n) = 0"
proof (induction bs arbitrary: n)
  case (Cons b bs)
  have "s_state_stopped (flags (snd (if b then start_node n else stop_node n)))"
    "s_sem (snd (if b then start_node n else stop_node n)) = 0"
    using Cons.prems by (auto simp: start_node_def stop_node_def chain_start_def chain_stop_def)
  then show ?case using Cons.IH by simp
qed simp

text \<open>What goes wrong first, if anything does.\<close>

definition failure :: "framework \<Rightarrow> string list \<Rightarrow> bool \<Rightarrow> thrown option" where
  "failure f args q =
     (case app_initialize f args of Some x \<Rightarrow> Some x | None \<Rightarrow>
      case plugin_settings f of Inl x \<Rightarrow> Some x | Inr _ \<Rightarrow>
      case app_startup f of Some x \<Rightarrow> Some x | None \<Rightarrow> app_exec f q)"

lemma chain_body_failure: "fst (chain_body f args n) = failure f args (quit_asked n \<or> listener_fails f ''load'')"
  by (auto simp: chain_body_def failure_def Let_def split: option.splits sum.splits)


section \<open>Requests\<close>

text \<open>\<open>chain.post\<close>: a synchronous call is refused, otherwise the completions come later.\<close>

datatype call_result = No_sync | Pending "completion list"

definition chain_post :: "bool \<Rightarrow> (string \<Rightarrow> (nat \<times> bool) option) \<Rightarrow> string \<Rightarrow> call_result" where
  "chain_post is_sync url_handlers resource =
     (if is_sync then No_sync
      else case url_handlers resource of
             None \<Rightarrow> Pending (post_request False 0 False)
           | Some (answers, throws) \<Rightarrow> Pending (post_request True answers throws))"

section \<open>Settings\<close>

record chain_dirs =
  data_dir :: string
  config_dir :: string

definition get_data_dir :: "chain_dirs \<Rightarrow> string" where "get_data_dir d = data_dir d"

definition set_data_dir :: "string \<Rightarrow> chain_dirs \<Rightarrow> chain_dirs" where "set_data_dir newVal d = d\<lparr>data_dir := newVal\<rparr>"

definition get_config_dir :: "chain_dirs \<Rightarrow> string" where "get_config_dir d = config_dir d"

definition set_config_dir :: "string \<Rightarrow> chain_dirs \<Rightarrow> chain_dirs" where "set_config_dir newVal d = d\<lparr>config_dir := newVal\<rparr>"

definition get_pubkey_prefix :: "key_prefix \<Rightarrow> string" where "get_pubkey_prefix k = public_key_legacy_prefix k"

text \<open>Whether JavaScript contracts may be installed; the flag is the module interface's \<open>g_enable\<close>.\<close>

definition get_enableJSContract :: "bool \<Rightarrow> bool" where "get_enableJSContract g_enable = g_enable"

definition set_enableJSContract :: "bool \<Rightarrow> bool \<Rightarrow> bool" where "set_enableJSContract newVal g_enable = newVal"

end
