(* ===== verification/Contract_Run.thy ===== *)
theory Contract_Run
  imports Contract_Cache Js_Module
begin

text \<open>
  The chain hands an action to a contract: \<open>wasm_interface\<close> in
  \<^verbatim>\<open>src/patch/eosio/contract_interface.cpp\<close>, the cache of modules and the module's \<open>apply\<close> together.
\<close>

datatype vm_type = Eos_vm | Eos_vm_jit | Eos_vm_oc

definition vm_type_string :: "vm_type \<Rightarrow> string" where
  "vm_type_string vmtype = (case vmtype of Eos_vm \<Rightarrow> ''eos-vm'' | Eos_vm_oc \<Rightarrow> ''eos-vm-oc'' | Eos_vm_jit \<Rightarrow> ''eos-vm-jit'')"

text \<open>\<open>require\<close> and \<open>call\<close> are the engine running the scripts of a module; running a WebAssembly
  module is the chain's.\<close>

definition wasm_interface_apply ::
    "bool \<Rightarrow> (code_key \<Rightarrow> ('w, 'a) module_cache \<Rightarrow> (exn + 'w) \<times> ('w, 'a) module_cache) \<Rightarrow> ('w \<Rightarrow> ('s run_state, unit) act) \<Rightarrow>
     'a engine \<Rightarrow> 's chain_api \<Rightarrow> ('a contract_interface \<Rightarrow> int \<Rightarrow> ('s run_state, jsv) act) \<Rightarrow>
     ('a contract_interface \<Rightarrow> nat \<Rightarrow> jsv list \<Rightarrow> int \<Rightarrow> ('s run_state, jsv) act) \<Rightarrow> 'a apply_ctx \<Rightarrow> code_key \<Rightarrow> action_info \<Rightarrow>
     ('w, 'a) module_cache \<Rightarrow> 's run_state \<Rightarrow> (js_error + unit) \<times> ('w, 'a) module_cache \<times> 's run_state" where
  "wasm_interface_apply g_enable get_instantiated run_wasm e api require call ctx key a cache rt =
     (case get_contract_module g_enable (to_text e) get_instantiated ctx key cache of
        (Inl x, cache') \<Rightarrow> (Inl (Thrown x), cache', rt)
      | (Inr (Wasm_module w), cache') \<Rightarrow> (case run_wasm w rt of (r, rt') \<Rightarrow> (r, cache', rt'))
      | (Inr (Js_module m), cache') \<Rightarrow> (case js_apply e api (require m) (call m) m a rt of (r, rt') \<Rightarrow> (r, cache', rt')))"

text \<open>
  C1: From the chain's call to the contract's table.  An account whose code is a JavaScript
  archive, and whose entry in the cache, if there is one, was made for it, runs exactly this
  code: a successful action has loaded the module made from the account's code, decoded the
  arguments with the ABI the account has now (when it is the action's own account), called the
  handler the module exports for the action, and written the state object the script left to the
  account's row; a notification without handler has written nothing.  The cache keeps its
  invariant and holds this module.
\<close>

theorem contract_runs_current_code:
  assumes "wasm_interface_apply en gi run_wasm e api require call ctx key a cache rt = (Inr (), cache', rt')"
    and "cache_ok (to_text e) code_of abi_at cache" "ctx_ok code_of abi_at ctx" "wasm_ok gi"
    and "code_object ctx key = Inr code" "\<not> is_wasm code" "\<forall>c w. cache key = Some c \<longrightarrow> entry_module c \<noteq> Wasm_module w"
    and "\<forall>c m. cache key = Some c \<longrightarrow> entry_module c = Js_module m \<longrightarrow> made_for (to_text e) abi_at (act_receiver a) m"
    and "chain_ok V api" "receiver V = act_receiver a" "ctx_receiver ctx = act_receiver a"
  shows "cache_ok (to_text e) code_of abi_at cache' \<and> \<not> acting rt' \<and>
    (\<exists>m v args rt1. map_option entry_module (cache' key) = Some (Js_module m) \<and> m_code m = code \<and>
       account_abi ctx (act_receiver a) = Inr (m_abi m) \<and>
       require m (timeout a (now_require a)) (rt\<lparr>m_state := None, acting := True\<rparr>) = (Inr v, rt1) \<and>
       (act_receiver a = act_account a \<longrightarrow> action_args e (m_abi m) a = Inr args) \<and>
       (find_handler e a v = Inr None \<and> act_receiver a \<noteq> act_account a \<and> chain_st rt' = chain_st rt1 \<or>
        (\<exists>f res rt2. find_handler e a v = Inr (Some f) \<and> call m f args (timeout a (now_call a)) rt1 = (Inr res, rt2) \<and>
           state_written V e api a (m_state rt2) (chain_st rt2) (chain_st rt'))))"
proof -
  obtain r where get: "get_contract_module en (to_text e) gi ctx key cache = (r, cache')"
    using assms(1) by (auto simp: wasm_interface_apply_def split: prod.splits sum.splits cmodule.splits)
  have "r \<noteq> Inr (Wasm_module w)" for w
    using get assms(5-7) by (cases "cache key") (auto simp: get_contract_module_def split: sum.splits if_splits cmodule.splits)
  then obtain m where m: "r = Inr (Js_module m)" and ap: "js_apply e api (require m) (call m) m a rt = (Inr (), rt')"
    using assms(1) get by (auto simp: wasm_interface_apply_def split: prod.splits sum.splits cmodule.splits)
  have c: "cache_ok (to_text e) code_of abi_at cache'" "m_code m = code"
      "map_option entry_module (cache' key) = Some (Js_module m)" "account_abi ctx (act_receiver a) = Inr (m_abi m)"
    using get_contract_current [OF get assms(2-4)] m assms(5,8,11) by auto
  obtain v abi args rt1 where j: "\<not> acting rt'" "require m (timeout a (now_require a)) (rt\<lparr>m_state := None, acting := True\<rparr>) = (Inr v, rt1)"
      "if act_receiver a = act_account a then abi = m_abi m else abi_of e (act_account a) = Inr abi" "action_args e abi a = Inr args"
      "find_handler e a v = Inr None \<and> act_receiver a \<noteq> act_account a \<and> chain_st rt' = chain_st rt1 \<or>
       (\<exists>f res rt2. find_handler e a v = Inr (Some f) \<and> call m f args (timeout a (now_call a)) rt1 = (Inr res, rt2) \<and>
          state_written V e api a (m_state rt2) (chain_st rt2) (chain_st rt'))"
    using js_apply_effect [OF assms(9,10) ap] by blast
  have "act_receiver a = act_account a \<longrightarrow> action_args e (m_abi m) a = Inr args" using j(3,4) by (auto split: if_splits)
  then show ?thesis
    by (intro conjI c(1) j(1) exI [of _ m] exI [of _ v] exI [of _ args] exI [of _ rt1] c(2-4) j(2,5))
qed

lemma contract_runs_current_code_witness:
  "\<exists>cache' rt'. wasm_interface_apply True demo_gi (\<lambda>w rt. (Inr (), rt)) demo_engine (ref_api 5) (\<lambda>m. demo_require) (\<lambda>m. demo_call)
     (demo_ctx 5) demo_key demo_action Map.empty demo_rt = (Inr (), cache', rt') \<and>
     (\<exists>m. map_option entry_module (cache' demo_key) = Some (Js_module m) \<and> m_code m = demo_zip \<and> m_abi m = ''ABI of bob'')"
proof -
  let ?ctx = "demo_ctx 5 :: string apply_ctx"
  let ?m = "\<lparr>m_code = demo_zip, m_abi = ''ABI of bob'', m_abi_sequence = 1, m_fname = ''/x''\<rparr>"
  have get: "get_contract_module True (to_text demo_engine) demo_gi ?ctx demo_key Map.empty =
      (Inr (Js_module ?m), [demo_key \<mapsto> \<lparr>entry_module = Js_module ?m, last_block_num_used = - 1\<rparr>])"
    by (simp add: get_contract_module_def demo_ctx_def is_wasm_def js_validate_def demo_magic instantiate_module_def
      new_js_module_def demo_abi_at_def demo_name_def demo_engine_def alice_def)
  obtain rt' where "js_apply demo_engine (ref_api 5) demo_require demo_call ?m demo_action demo_rt = (Inr (), rt')"
    using demo_apply by blast
  then have run: "wasm_interface_apply True demo_gi (\<lambda>w rt. (Inr (), rt)) demo_engine (ref_api 5) (\<lambda>m. demo_require) (\<lambda>m. demo_call)
     ?ctx demo_key demo_action Map.empty demo_rt = (Inr (), [demo_key \<mapsto> \<lparr>entry_module = Js_module ?m, last_block_num_used = - 1\<rparr>], rt')"
    by (simp add: wasm_interface_apply_def get)
  have ok: "cache_ok (to_text demo_engine) (\<lambda>k. Some demo_zip) demo_abi_at (Map.empty :: (unit, string) module_cache)"
    by (simp add: cache_ok_def)
  have c: "code_object ?ctx demo_key = Inr demo_zip" "\<not> is_wasm demo_zip" "receiver (ref_view 5) = act_receiver demo_action"
      "ctx_receiver ?ctx = act_receiver demo_action" "account_abi ?ctx 5 = Inr ''ABI of bob''"
    by (simp_all add: demo_ctx_def is_wasm_def demo_magic demo_action_def demo_abi_at_def demo_name_def alice_def)
  from contract_runs_current_code [OF run ok demo_ok(2,3) c(1,2) _ _ ref_ok c(3,4)] obtain m where
    "map_option entry_module ([demo_key \<mapsto> \<lparr>entry_module = Js_module ?m, last_block_num_used = - 1\<rparr>] demo_key) = Some (Js_module m)"
    "m_code m = demo_zip" "account_abi ?ctx (act_receiver demo_action) = Inr (m_abi m)" by auto
  then show ?thesis using run c(5) by (intro exI conjI) (auto simp: demo_action_def)
qed

end
