(* ===== verification/Contract_Env.thy ===== *)
theory Contract_Env
  imports Complex_Main Node_Patches
begin

text \<open>
  What a contract's script sees around it.

  \<^item> The global object the node builds for contracts: \<open>init_isolate\<close> in \<^verbatim>\<open>src/base/app.cpp\<close>.
  \<^item> Clock and time zone: the class \<open>Platform\<close> in \<^verbatim>\<open>src/base/chain.cpp\<close> and
    \<^verbatim>\<open>src/js_contract/patch/TimeCache.cpp\<close>.
  \<^item> Console and hash functions: \<open>init_console\<close> in \<^verbatim>\<open>src/base/app.cpp\<close>,
    \<^verbatim>\<open>src/js_contract/src/bc_console.cpp\<close> and \<^verbatim>\<open>src/js_contract/src/bc_crypto.cpp\<close>.

  JavaScript objects live in an explicit heap of the engine, which is a parameter with its four
  operations; \<open>objects_ok\<close> states what the language promises of them for data properties.
\<close>

section \<open>Objects of the engine\<close>

type_synonym oref = nat

datatype jval = Undefined | Ref oref | Primitive string

record js_property =
  pval :: jval
  enumerable :: bool
  configurable :: bool
  writable :: bool

text \<open>The methods \<open>Get\<close>, \<open>Set\<close>, \<open>Delete\<close> and \<open>GetPropertyNames\<close> of \<open>v8::Object\<close>.  \<open>Set\<close> and
  \<open>Delete\<close> may refuse; the code does not look at what they answer.\<close>

record 'h v8 =
  v_get :: "'h \<Rightarrow> oref \<Rightarrow> string \<Rightarrow> jval"
  v_set :: "'h \<Rightarrow> oref \<Rightarrow> string \<Rightarrow> jval \<Rightarrow> 'h"
  v_delete :: "'h \<Rightarrow> oref \<Rightarrow> string \<Rightarrow> 'h"
  v_names :: "'h \<Rightarrow> oref \<Rightarrow> string list"

text \<open>How a heap is looked at: an object's own properties and its prototypes, the nearest first.\<close>

record 'h heap_view =
  own :: "'h \<Rightarrow> oref \<Rightarrow> string \<Rightarrow> js_property option"
  protos :: "'h \<Rightarrow> oref \<Rightarrow> oref list"

fun nearest :: "(oref \<Rightarrow> string \<Rightarrow> js_property option) \<Rightarrow> oref list \<Rightarrow> string \<Rightarrow> js_property option" where
  "nearest os [] k = None"
| "nearest os (r # rs) k = (case os r k of None \<Rightarrow> nearest os rs k | Some p \<Rightarrow> Some p)"

abbreviation lookup :: "'h heap_view \<Rightarrow> 'h \<Rightarrow> oref \<Rightarrow> string \<Rightarrow> js_property option" where
  "lookup W h r k \<equiv> nearest (own W h) (r # protos W h r) k"

definition put_own :: "'h heap_view \<Rightarrow> 'h \<Rightarrow> oref \<Rightarrow> string \<Rightarrow> js_property option \<Rightarrow> 'h \<Rightarrow> bool" where
  "put_own W h r k p h' \<longleftrightarrow> own W h' = (own W h)(r := (own W h r)(k := p)) \<and> protos W h' = protos W h"

definition deleted :: "js_property option \<Rightarrow> js_property option" where
  "deleted p = (case p of Some p \<Rightarrow> if configurable p then None else Some p | None \<Rightarrow> None)"

definition objects_ok :: "'h heap_view \<Rightarrow> 'h v8 \<Rightarrow> bool" where
  "objects_ok W E \<longleftrightarrow>
     (\<forall>h r k. v_get E h r k = (case lookup W h r k of None \<Rightarrow> Undefined | Some p \<Rightarrow> pval p)) \<and>
     (\<forall>h r k v. put_own W h r k
        (case own W h r k of
           Some p \<Rightarrow> Some (if writable p then p\<lparr>pval := v\<rparr> else p)
         | None \<Rightarrow> if \<exists>p. lookup W h r k = Some p \<and> \<not> writable p then None
                   else Some \<lparr>pval = v, enumerable = True, configurable = True, writable = True\<rparr>)
        (v_set E h r k v)) \<and>
     (\<forall>h r k. put_own W h r k (deleted (own W h r k)) (v_delete E h r k)) \<and>
     (\<forall>h r k. k \<in> set (v_names E h r) \<longleftrightarrow> (\<exists>p. lookup W h r k = Some p \<and> enumerable p))"

section \<open>The global object of contracts\<close>

definition s_localeobjects :: "string list" where
  "s_localeobjects = [''Object'', ''Number'', ''Date'', ''BigInt'', ''Array'',
     ''Int8Array'', ''Uint8Array'', ''Uint8ClampedArray'',
     ''Int16Array'', ''Uint16Array'', ''Int32Array'', ''Uint32Array'',
     ''Float32Array'', ''Float64Array'', ''BigInt64Array'', ''BigUint64Array'']"

text \<open>A cast to an object is not checked; the model stops when the value is none.\<close>

fun cast_object :: "jval \<Rightarrow> oref option" where
  "cast_object (Ref r) = Some r"
| "cast_object v = None"

definition prototype_of :: "'h v8 \<Rightarrow> oref \<Rightarrow> string \<Rightarrow> 'h \<Rightarrow> oref option" where
  "prototype_of E global name h =
     (case cast_object (v_get E h global name) of
        None \<Rightarrow> None
      | Some object \<Rightarrow> cast_object (v_get E h object ''prototype''))"

definition disable :: "'h v8 \<Rightarrow> oref \<Rightarrow> string \<Rightarrow> string list \<Rightarrow> 'h \<Rightarrow> 'h option" where
  "disable E global name ms h =
     (case prototype_of E global name h of
        None \<Rightarrow> None
      | Some object_proto \<Rightarrow> Some (foldl (\<lambda>h m. v_set E h object_proto m Undefined) h ms))"

fun disable_all :: "'h v8 \<Rightarrow> oref \<Rightarrow> (string \<times> string list) list \<Rightarrow> 'h \<Rightarrow> 'h option" where
  "disable_all E global [] h = Some h"
| "disable_all E global ((name, ms) # rest) h =
     (case disable E global name ms h of None \<Rightarrow> None | Some h' \<Rightarrow> disable_all E global rest h')"

definition locale_functions :: "(string \<times> string list) list" where
  "locale_functions = map (\<lambda>n. (n, [''toLocaleString''])) s_localeobjects @
     [(''Date'', [''toLocaleDateString'', ''toLocaleTimeString'']),
      (''String'', [''localeCompare'', ''toLocaleLowerCase'', ''toLocaleUpperCase''])]"

definition delete_names :: "'h v8 \<Rightarrow> oref \<Rightarrow> 'h \<Rightarrow> 'h" where
  "delete_names E global h = foldl (\<lambda>h v. v_delete E h global v) h (v_names E h global)"

definition contract_modules :: "string list" where
  "contract_modules = [''action'', ''console'', ''crypto'', ''trans'', ''db'', ''assert'']"

definition init_isolate :: "'h v8 \<Rightarrow> oref \<Rightarrow> (string \<Rightarrow> jval) \<Rightarrow> 'h \<Rightarrow> 'h option" where
  "init_isolate E global class_module h =
     (let h = delete_names E global h;
          h = v_delete E h global ''WebAssembly'';
          h = v_delete E h global ''Intl'' in
      case cast_object (v_get E h global ''Math'') of
        None \<Rightarrow> None
      | Some math \<Rightarrow>
          (case disable_all E global locale_functions (v_delete E h math ''random'') of
             None \<Rightarrow> None
           | Some h \<Rightarrow> Some (foldl (\<lambda>h m. v_set E h global m (class_module m)) h contract_modules)))"

section \<open>What a script can reach\<close>

text \<open>The value of an expression like \<open>Math.random\<close>.\<close>

fun member_value :: "'h v8 \<Rightarrow> 'h \<Rightarrow> jval \<Rightarrow> string list \<Rightarrow> jval" where
  "member_value E h v [] = v"
| "member_value E h (Ref r) (k # ks) = member_value E h (v_get E h r k) ks"
| "member_value E h v (k # ks) = Undefined"

definition builtin_names :: "string list" where
  "builtin_names = ''Math'' # ''String'' # s_localeobjects"

definition locale_names :: "string list" where
  "locale_names = [''toLocaleString'', ''toLocaleDateString'', ''toLocaleTimeString'', ''localeCompare'',
     ''toLocaleLowerCase'', ''toLocaleUpperCase'']"

text \<open>A property that assignment through an object can give a value.\<close>

definition soft :: "'h heap_view \<Rightarrow> 'h \<Rightarrow> oref \<Rightarrow> string \<Rightarrow> bool" where
  "soft W h r m \<longleftrightarrow> (\<forall>q \<in> set (r # protos W h r). \<forall>p. own W h q m = Some p \<longrightarrow> writable p)"

text \<open>A new context, as the language describes it: the constructors and \<open>Math\<close> are properties of
  the global object that are not enumerable, methods can be assigned, \<open>random\<close> and the two global
  names the code deletes are configurable.\<close>

definition fresh_global :: "'h heap_view \<Rightarrow> oref \<Rightarrow> 'h \<Rightarrow> bool" where
  "fresh_global W global h \<longleftrightarrow>
     (\<forall>n \<in> set builtin_names. \<exists>p r. own W h global n = Some p \<and> \<not> enumerable p \<and> pval p = Ref r \<and>
        global \<notin> set (r # protos W h r) \<and>
        (n \<noteq> ''Math'' \<longrightarrow> (\<exists>pp q. lookup W h r ''prototype'' = Some pp \<and> pval pp = Ref q \<and> q \<noteq> global \<and>
           (\<forall>m \<in> set locale_names. soft W h q m))) \<and>
        (n = ''Math'' \<longrightarrow> (\<forall>p. own W h r ''random'' = Some p \<longrightarrow> configurable p) \<and>
           (\<forall>q \<in> set (protos W h r). own W h q ''random'' = None))) \<and>
     global \<notin> set (protos W h global) \<and>
     (\<forall>k \<in> {''WebAssembly'', ''Intl''}. (\<forall>p. own W h global k = Some p \<longrightarrow> configurable p) \<and>
        (\<forall>q \<in> set (protos W h global). own W h q k = None)) \<and>
     (\<forall>m \<in> set contract_modules. soft W h global m)"

lemma nearest_cong: "\<forall>r \<in> set rs. os r k = os' r k \<Longrightarrow> nearest os rs k = nearest os' rs k"
  by (induction rs) (auto split: option.split)

lemma nearest_None: "nearest os rs k = None \<longleftrightarrow> (\<forall>r \<in> set rs. os r k = None)"
  by (induction rs) (auto split: option.split)

lemma nearest_in: "nearest os rs k = Some p \<Longrightarrow> \<exists>r \<in> set rs. os r k = Some p"
  by (induction rs) (auto split: option.splits)

lemma objects_get: "objects_ok W E \<Longrightarrow> v_get E h r k = (case lookup W h r k of None \<Rightarrow> Undefined | Some p \<Rightarrow> pval p)"
  unfolding objects_ok_def by blast

lemma objects_names: "objects_ok W E \<Longrightarrow> k \<in> set (v_names E h r) \<longleftrightarrow> (\<exists>p. lookup W h r k = Some p \<and> enumerable p)"
  unfolding objects_ok_def by blast

text \<open>A set or delete changes one property of one object, keeps what can be assigned so, and a
  set of such a property gives it the value.\<close>

lemma put_ownD: "put_own W h r k p h' \<Longrightarrow> own W h' q m = (if q = r \<and> m = k then p else own W h q m)"
  "put_own W h r k p h' \<Longrightarrow> protos W h' = protos W h"
  by (auto simp: put_own_def)

lemma set_put:
  assumes "objects_ok W E"
  obtains p where "put_own W h r k p (v_set E h r k v)"
    "\<And>p'. p = Some p' \<Longrightarrow> (case own W h r k of None \<Rightarrow> writable p' | Some p0 \<Rightarrow> writable p' = writable p0)"
    "soft W h r k \<Longrightarrow> \<exists>p'. p = Some p' \<and> pval p' = v"
proof -
  let ?p = "case own W h r k of
           Some p \<Rightarrow> Some (if writable p then p\<lparr>pval := v\<rparr> else p)
         | None \<Rightarrow> if \<exists>p. lookup W h r k = Some p \<and> \<not> writable p then None
                   else Some \<lparr>pval = v, enumerable = True, configurable = True, writable = True\<rparr>"
  have a: "put_own W h r k ?p (v_set E h r k v)" using assms unfolding objects_ok_def by blast
  have d: "\<exists>p'. ?p = Some p' \<and> pval p' = v" if "soft W h r k"
  proof (cases "own W h r k")
    case None
    have "\<not> (\<exists>p. lookup W h r k = Some p \<and> \<not> writable p)"
      using that nearest_in [of "own W h" "r # protos W h r" k] unfolding soft_def by blast
    then show ?thesis using None by simp
  next
    case (Some p)
    then show ?thesis using that by (simp add: soft_def)
  qed
  show ?thesis by (rule that [OF a _ d]) (auto split: if_splits option.splits)
qed

lemma delete_put:
  assumes "objects_ok W E"
  shows "put_own W h r k (deleted (own W h r k)) (v_delete E h r k)"
  using assms unfolding objects_ok_def by blast

lemma soft_set:
  assumes "objects_ok W E" "soft W h q m"
  shows "soft W (v_set E h r k v) q m"
proof -
  obtain p where p: "put_own W h r k p (v_set E h r k v)"
      "\<And>p'. p = Some p' \<Longrightarrow> (case own W h r k of None \<Rightarrow> writable p' | Some p0 \<Rightarrow> writable p' = writable p0)"
    by (rule set_put [OF assms(1), of h r k v]) (rule that; assumption)
  have "writable p'" if "q' \<in> set (q # protos W h q)" "own W (v_set E h r k v) q' m = Some p'" for q' p'
    using that p(2) [of p'] assms(2) put_ownD(1) [OF p(1), of q' m]
    by (cases "own W h q' m") (fastforce simp: soft_def split: if_splits)+
  then show ?thesis unfolding soft_def put_ownD(2) [OF p(1)] by blast
qed

lemma soft_delete: "objects_ok W E \<Longrightarrow> soft W h q m \<Longrightarrow> soft W (v_delete E h r k) q m"
  using delete_put [of W E h r k] by (auto simp: soft_def put_ownD deleted_def split: if_splits option.splits)

text \<open>Nothing the code does on the way moves a constructor or a prototype object.\<close>

definition builtins_same :: "'h heap_view \<Rightarrow> oref \<Rightarrow> 'h \<Rightarrow> 'h \<Rightarrow> bool" where
  "builtins_same W global h h' \<longleftrightarrow> protos W h' = protos W h \<and>
     (\<forall>n \<in> set builtin_names. own W h' global n = own W h global n) \<and>
     (\<forall>r. r \<noteq> global \<longrightarrow> own W h' r ''prototype'' = own W h r ''prototype'')"

lemma same_refl [simp]: "builtins_same W global h h"
  by (simp add: builtins_same_def)

lemma same_trans: "builtins_same W global h h' \<Longrightarrow> builtins_same W global h' h'' \<Longrightarrow> builtins_same W global h h''"
  by (simp add: builtins_same_def)

lemma put_same:
  "put_own W h r k p h' \<Longrightarrow> (r = global \<longrightarrow> k \<notin> set builtin_names) \<Longrightarrow> (r \<noteq> global \<longrightarrow> k \<noteq> ''prototype'') \<Longrightarrow>
   builtins_same W global h h'"
  by (auto simp: builtins_same_def put_ownD)

lemma disjoint_names:
  "m \<in> set locale_names \<Longrightarrow> m \<notin> set builtin_names \<and> m \<noteq> ''prototype'' \<and> m \<noteq> ''random'' \<and> m \<noteq> ''WebAssembly'' \<and> m \<noteq> ''Intl'' \<and>
     m \<notin> set contract_modules"
  "m \<in> set contract_modules \<Longrightarrow> m \<notin> set builtin_names \<and> m \<noteq> ''prototype'' \<and> m \<noteq> ''random'' \<and> m \<noteq> ''WebAssembly'' \<and> m \<noteq> ''Intl''"
  by (auto simp: locale_names_def builtin_names_def s_localeobjects_def contract_modules_def)

lemma fresh_builtin:
  assumes "fresh_global W global h" "n \<in> set builtin_names"
  obtains p r where "own W h global n = Some p" "\<not> enumerable p" "pval p = Ref r" "global \<notin> set (r # protos W h r)"
    "n \<noteq> ''Math'' \<longrightarrow> (\<exists>pp q. lookup W h r ''prototype'' = Some pp \<and> pval pp = Ref q \<and> q \<noteq> global \<and>
       (\<forall>m \<in> set locale_names. soft W h q m))"
    "n = ''Math'' \<longrightarrow> (\<forall>p. own W h r ''random'' = Some p \<longrightarrow> configurable p) \<and>
       (\<forall>q \<in> set (protos W h r). own W h q ''random'' = None)"
proof -
  have "\<forall>n \<in> set builtin_names. \<exists>p r. own W h global n = Some p \<and> \<not> enumerable p \<and> pval p = Ref r \<and>
        global \<notin> set (r # protos W h r) \<and>
        (n \<noteq> ''Math'' \<longrightarrow> (\<exists>pp q. lookup W h r ''prototype'' = Some pp \<and> pval pp = Ref q \<and> q \<noteq> global \<and>
           (\<forall>m \<in> set locale_names. soft W h q m))) \<and>
        (n = ''Math'' \<longrightarrow> (\<forall>p. own W h r ''random'' = Some p \<longrightarrow> configurable p) \<and>
           (\<forall>q \<in> set (protos W h r). own W h q ''random'' = None))"
    using assms(1) unfolding fresh_global_def by (rule conjunct1)
  from bspec [OF this assms(2)] show ?thesis by (elim exE conjE) (rule that; assumption)
qed

lemma fresh_prototype:
  assumes "objects_ok W E" "fresh_global W global h" "n \<in> set builtin_names" "n \<noteq> ''Math''"
  obtains q where "prototype_of E global n h = Some q" "q \<noteq> global" "\<forall>m \<in> set locale_names. soft W h q m"
proof -
  obtain p r where b: "own W h global n = Some p" "pval p = Ref r"
      "n \<noteq> ''Math'' \<longrightarrow> (\<exists>pp q. lookup W h r ''prototype'' = Some pp \<and> pval pp = Ref q \<and> q \<noteq> global \<and>
         (\<forall>m \<in> set locale_names. soft W h q m))"
    by (rule fresh_builtin [OF assms(2,3)]) (rule that; assumption)
  from b(3) assms(4) obtain pp q where f: "lookup W h r ''prototype'' = Some pp" "pval pp = Ref q" "q \<noteq> global"
      "\<forall>m \<in> set locale_names. soft W h q m"
    by blast
  have "v_get E h global n = Ref r" using b(1,2) by (simp add: objects_get [OF assms(1)])
  moreover have "v_get E h r ''prototype'' = Ref q" using f(1,2) by (simp only: objects_get [OF assms(1)] option.case)
  ultimately show ?thesis using that [OF _ f(3,4)] by (simp add: prototype_of_def)
qed

lemma prototype_same:
  assumes "objects_ok W E" "fresh_global W global h" "builtins_same W global h h'" "n \<in> set builtin_names"
  shows "prototype_of E global n h' = prototype_of E global n h" "v_get E h' global n = v_get E h global n"
proof -
  obtain p r where b: "own W h global n = Some p" "pval p = Ref r" "global \<notin> set (r # protos W h r)"
    by (rule fresh_builtin [OF assms(2,4)]) (rule that; assumption)
  have "own W h' global n = Some p" using assms(3,4) b(1) by (simp add: builtins_same_def)
  then have g: "v_get E h' global n = Ref r" "v_get E h global n = Ref r" using b by (simp_all add: objects_get [OF assms(1)])
  have "\<forall>q \<in> set (r # protos W h r). own W h' q ''prototype'' = own W h q ''prototype''"
    using assms(3) b(3) unfolding builtins_same_def by metis
  then have "lookup W h' r ''prototype'' = lookup W h r ''prototype''"
    using nearest_cong assms(3) unfolding builtins_same_def by metis
  then have "v_get E h' r ''prototype'' = v_get E h r ''prototype''" by (simp only: objects_get [OF assms(1)])
  then show "prototype_of E global n h' = prototype_of E global n h" "v_get E h' global n = v_get E h global n"
    using g by (simp_all add: prototype_of_def)
qed

text \<open>A function that has been set to undefined stays so.\<close>

definition off :: "'h heap_view \<Rightarrow> 'h \<Rightarrow> oref \<Rightarrow> string \<Rightarrow> bool" where
  "off W h q m \<longleftrightarrow> (\<exists>p. own W h q m = Some p \<and> pval p = Undefined)"

lemma off_value:
  assumes "objects_ok W E" "off W h q m"
  shows "v_get E h q m = Undefined"
    "q \<in> set (protos W h r) \<Longrightarrow> \<forall>r' \<in> set (r # takeWhile (\<lambda>x. x \<noteq> q) (protos W h r)). own W h r' m = None \<Longrightarrow> v_get E h r m = Undefined"
proof -
  show "v_get E h q m = Undefined" using assms(2) by (auto simp: objects_get [OF assms(1)] off_def)
  assume q: "q \<in> set (protos W h r)" "\<forall>r' \<in> set (r # takeWhile (\<lambda>x. x \<noteq> q) (protos W h r)). own W h r' m = None"
  have "nearest (own W h) rs m = own W h q m"
    if "q \<in> set rs" "\<forall>r' \<in> set (takeWhile (\<lambda>x. x \<noteq> q) rs). own W h r' m = None" for rs
    using that
  proof (induction rs)
    case (Cons a rs)
    then show ?case using assms(2) by (cases "a = q") (auto simp: off_def)
  qed simp
  then show "v_get E h r m = Undefined" using q assms(2) by (auto simp: objects_get [OF assms(1)] off_def)
qed

lemma off_put: "put_own W h r k p h' \<Longrightarrow> off W h q m \<Longrightarrow> r \<noteq> q \<or> k \<noteq> m \<Longrightarrow> off W h' q m"
  by (auto simp: off_def put_ownD)

lemma off_set: "objects_ok W E \<Longrightarrow> soft W h r k \<Longrightarrow> off W (v_set E h r k Undefined) r k"
  by (rule set_put [of W E h r k Undefined]) (auto simp: off_def put_ownD)

lemma off_kept: "objects_ok W E \<Longrightarrow> off W h q m \<Longrightarrow> soft W h r k \<Longrightarrow> off W (v_set E h r k Undefined) q m"
  using off_set [of W E h r k] set_put [of W E h r k Undefined] off_put by metis

text \<open>What the sets of one step keep: everything said so far, and all other properties.\<close>

definition kept :: "'h heap_view \<Rightarrow> oref \<Rightarrow> (oref \<times> string) set \<Rightarrow> 'h \<Rightarrow> 'h \<Rightarrow> bool" where
  "kept W global K h h' \<longleftrightarrow> builtins_same W global h h' \<and> (\<forall>q m. soft W h q m \<longrightarrow> soft W h' q m) \<and>
     (\<forall>q k. (q, k) \<notin> K \<longrightarrow> own W h' q k = own W h q k)"

lemma kept_refl [simp]: "kept W global K h h"
  by (simp add: kept_def)

lemma kept_trans: "kept W global K h h' \<Longrightarrow> kept W global K h' h'' \<Longrightarrow> kept W global K h h''"
  by (auto simp: kept_def intro: same_trans)

lemma kept_set:
  assumes "objects_ok W E" "(r, k) \<in> K" "k \<noteq> ''prototype''" "k \<notin> set builtin_names"
  shows "kept W global K h (v_set E h r k v)"
proof -
  obtain p where "put_own W h r k p (v_set E h r k v)" by (rule set_put [OF assms(1), of h r k v]) (rule that; assumption)
  then show ?thesis using put_same [of W h r k p _ global] put_ownD(1) [of W h r k p] assms(2-4) soft_set [OF assms(1)]
    unfolding kept_def by metis
qed

text \<open>Setting the functions of one prototype to undefined, and of all.\<close>

lemma disable_sets:
  assumes "objects_ok W E" "q \<noteq> global" "set ms \<subseteq> set locale_names" "\<forall>m \<in> set ms. soft W h q m"
  shows "kept W global ((- {global}) \<times> set locale_names) h (foldl (\<lambda>h m. v_set E h q m Undefined) h ms) \<and>
    (\<forall>m \<in> set ms. off W (foldl (\<lambda>h m. v_set E h q m Undefined) h ms) q m) \<and>
    (\<forall>q' m'. off W h q' m' \<longrightarrow> off W (foldl (\<lambda>h m. v_set E h q m Undefined) h ms) q' m')"
  using assms(3,4)
proof (induction ms arbitrary: h)
  case (Cons m ms)
  let ?h = "v_set E h q m Undefined"
  have k: "kept W global ((- {global}) \<times> set locale_names) h ?h"
    using kept_set [OF assms(1)] disjoint_names(1) [of m] Cons.prems(1) assms(2) by simp
  then have "\<forall>m \<in> set ms. soft W ?h q m" using Cons.prems(2) by (simp add: kept_def)
  then have "kept W global ((- {global}) \<times> set locale_names) ?h (foldl (\<lambda>h m. v_set E h q m Undefined) ?h ms) \<and>
    (\<forall>m \<in> set ms. off W (foldl (\<lambda>h m. v_set E h q m Undefined) ?h ms) q m) \<and>
    (\<forall>q' m'. off W ?h q' m' \<longrightarrow> off W (foldl (\<lambda>h m. v_set E h q m Undefined) ?h ms) q' m')"
    using Cons.IH Cons.prems(1) by simp
  moreover have "off W ?h q m" using off_set [OF assms(1)] Cons.prems(2) by simp
  moreover have "\<forall>q' m'. off W h q' m' \<longrightarrow> off W ?h q' m'" using off_kept [OF assms(1)] Cons.prems(2) by simp
  ultimately show ?case using kept_trans [OF k] by auto
qed simp

lemma disable_all_sets:
  assumes "objects_ok W E" "fresh_global W global h0"
    "\<forall>(n, ms) \<in> set fs. n \<in> set builtin_names \<and> n \<noteq> ''Math'' \<and> set ms \<subseteq> set locale_names"
    "builtins_same W global h0 h" "\<forall>q m. soft W h0 q m \<longrightarrow> soft W h q m"
  shows "\<exists>h'. disable_all E global fs h = Some h' \<and> kept W global ((- {global}) \<times> set locale_names) h h' \<and>
    (\<forall>(n, ms) \<in> set fs. \<exists>q. prototype_of E global n h0 = Some q \<and> (\<forall>m \<in> set ms. off W h' q m)) \<and>
    (\<forall>q m. off W h q m \<longrightarrow> off W h' q m)"
  using assms(3-5)
proof (induction fs arbitrary: h)
  case (Cons f fs)
  obtain n ms where f: "f = (n, ms)" "n \<in> set builtin_names" "n \<noteq> ''Math''" "set ms \<subseteq> set locale_names"
    using Cons.prems(1) by (cases f) auto
  have fs: "\<forall>(n, ms) \<in> set fs. n \<in> set builtin_names \<and> n \<noteq> ''Math'' \<and> set ms \<subseteq> set locale_names"
    using Cons.prems(1) by simp
  obtain q where q: "prototype_of E global n h0 = Some q" "\<forall>m \<in> set locale_names. soft W h0 q m" "q \<noteq> global"
    by (rule fresh_prototype [OF assms(1,2) f(2,3)]) (rule that; assumption)
  let ?h = "foldl (\<lambda>h m. v_set E h q m Undefined) h ms"
  have d: "disable E global n ms h = Some ?h"
    using q(1) prototype_same(1) [OF assms(1,2) Cons.prems(2) f(2)] by (simp add: disable_def)
  have "\<forall>m \<in> set ms. soft W h q m" using q(2) f(4) Cons.prems(3) by auto
  note one = disable_sets [OF assms(1) q(3) f(4) this]
  then have "builtins_same W global h ?h" "\<forall>q m. soft W h q m \<longrightarrow> soft W ?h q m" by (simp_all add: kept_def)
  with Cons.prems(3) have "\<forall>q m. soft W h0 q m \<longrightarrow> soft W ?h q m" by simp
  from Cons.IH [OF fs same_trans [OF Cons.prems(2) \<open>builtins_same W global h ?h\<close>] this] obtain h' where h': "disable_all E global fs ?h = Some h'"
      "kept W global ((- {global}) \<times> set locale_names) ?h h'"
      "\<forall>(n, ms) \<in> set fs. \<exists>q. prototype_of E global n h0 = Some q \<and> (\<forall>m \<in> set ms. off W h' q m)"
      "\<forall>q m. off W ?h q m \<longrightarrow> off W h' q m"
    by (elim exE conjE) (rule that; assumption)
  show ?case
  proof (intro exI [of _ h'] conjI)
    show "disable_all E global (f # fs) h = Some h'" using h'(1) d f(1) by simp
    show "kept W global ((- {global}) \<times> set locale_names) h h'" by (rule kept_trans [OF conjunct1 [OF one] h'(2)])
    show "\<forall>(n, ms) \<in> set (f # fs). \<exists>q. prototype_of E global n h0 = Some q \<and> (\<forall>m \<in> set ms. off W h' q m)"
      using h'(3,4) one q(1) f(1) by auto
    show "\<forall>q m. off W h q m \<longrightarrow> off W h' q m" using h'(4) one by blast
  qed
qed auto

lemma deleted_idem [simp]: "deleted (deleted p) = deleted p" "deleted None = None"
  by (simp_all add: deleted_def split: option.split)

lemma delete_own:
  assumes "objects_ok W E"
  shows "protos W (foldl (\<lambda>h v. v_delete E h r v) h ks) = protos W h"
    "own W (foldl (\<lambda>h v. v_delete E h r v) h ks) q k = (if q = r \<and> k \<in> set ks then deleted (own W h r k) else own W h q k)"
    "soft W h q' m \<Longrightarrow> soft W (foldl (\<lambda>h v. v_delete E h r v) h ks) q' m"
proof (induction ks arbitrary: h)
  case (Cons a ks)
  { case (1 h) show ?case using Cons(1) [of "v_delete E h r a"] put_ownD(2) [OF delete_put [OF assms, of h r a]] by simp }
  { case (2 h) show ?case using Cons(2) [of "v_delete E h r a"] put_ownD(1) [OF delete_put [OF assms, of h r a]] by auto }
  { case (3 h) then show ?case using Cons(3) [of "v_delete E h r a"] soft_delete [OF assms] by simp }
qed simp_all

lemma module_sets:
  assumes "objects_ok W E" "set ms \<subseteq> set contract_modules" "distinct ms" "\<forall>m \<in> set ms. soft W h global m"
  shows "kept W global ({global} \<times> set contract_modules) h (foldl (\<lambda>h m. v_set E h global m (cm m)) h ms) \<and>
    (\<forall>m \<in> set ms. v_get E (foldl (\<lambda>h m. v_set E h global m (cm m)) h ms) global m = cm m) \<and>
    (\<forall>q k. q \<noteq> global \<or> k \<notin> set ms \<longrightarrow> own W (foldl (\<lambda>h m. v_set E h global m (cm m)) h ms) q k = own W h q k)"
  using assms(2-4)
proof (induction ms rule: rev_induct)
  case (snoc m ms)
  let ?h = "foldl (\<lambda>h m. v_set E h global m (cm m)) h ms"
  have ih: "kept W global ({global} \<times> set contract_modules) h ?h" "\<forall>m \<in> set ms. v_get E ?h global m = cm m"
      "\<forall>q k. q \<noteq> global \<or> k \<notin> set ms \<longrightarrow> own W ?h q k = own W h q k"
    using snoc by auto
  have "soft W ?h global m" using ih(1) snoc.prems(3) by (simp add: kept_def)
  obtain p where p: "put_own W ?h global m p (v_set E ?h global m (cm m))"
      "soft W ?h global m \<Longrightarrow> \<exists>p'. p = Some p' \<and> pval p' = cm m"
    by (rule set_put [OF assms(1), of ?h global m "cm m"]) (rule that; assumption)
  note pv = p(2) [OF \<open>soft W ?h global m\<close>]
  have "kept W global ({global} \<times> set contract_modules) ?h (v_set E ?h global m (cm m))"
    using kept_set [OF assms(1)] disjoint_names(2) [of m] snoc.prems(1) by simp
  moreover have "v_get E (v_set E ?h global m (cm m)) global k = (if k = m then cm m else v_get E ?h global k)" for k
  proof (cases "k = m")
    case False
    then have "own W (v_set E ?h global m (cm m)) q k = own W ?h q k" for q using put_ownD(1) [OF p(1)] by simp
    then have "lookup W (v_set E ?h global m (cm m)) global k = lookup W ?h global k"
      using put_ownD(2) [OF p(1)] nearest_cong [of "global # protos W ?h global" "own W (v_set E ?h global m (cm m))" k "own W ?h"] by simp
    then show ?thesis using False by (simp only: objects_get [OF assms(1)] if_False)
  qed (use pv put_ownD [OF p(1)] in \<open>auto simp: objects_get [OF assms(1)]\<close>)
  ultimately show ?case using ih put_ownD(1) [OF p(1)] kept_trans snoc.prems(2) by auto
qed simp

text \<open>The deletions at the start.\<close>

lemma global_deletes:
  assumes "objects_ok W E" "fresh_global W global h"
    and "h3 = v_delete E (v_delete E (delete_names E global h) global ''WebAssembly'') global ''Intl''"
  shows "builtins_same W global h h3" "soft W h q m \<Longrightarrow> soft W h3 q m"
    "own W h3 q k = (if q = global \<and> k \<in> set (v_names E h global) \<union> {''WebAssembly'', ''Intl''} then deleted (own W h global k) else own W h q k)"
proof -
  let ?ks = "v_names E h global @ [''WebAssembly'', ''Intl'']"
  have h3: "h3 = foldl (\<lambda>h v. v_delete E h global v) h ?ks" by (simp add: assms(3) delete_names_def)
  note d = delete_own [OF assms(1), where r = global and h = h and ks = ?ks, folded h3]
  show "own W h3 q k = (if q = global \<and> k \<in> set (v_names E h global) \<union> {''WebAssembly'', ''Intl''} then deleted (own W h global k) else own W h q k)" for q k
    using d(2) [of q k] by auto
  show "soft W h q m \<Longrightarrow> soft W h3 q m" by (rule d(3))
  have "n \<notin> set ?ks" if n: "n \<in> set builtin_names" for n
  proof -
    obtain p r where "own W h global n = Some p" "\<not> enumerable p" by (rule fresh_builtin [OF assms(2) n]) (rule that; assumption)
    then have "n \<notin> set (v_names E h global)" by (simp add: objects_names [OF assms(1)])
    then show ?thesis using that by (auto simp: builtin_names_def s_localeobjects_def)
  qed
  then show "builtins_same W global h h3" using d(1,2) by (auto simp: builtins_same_def)
qed

lemma unreachable:
  assumes "objects_ok W E" "\<forall>r' \<in> set (r # protos W h r). own W h r' k = None"
  shows "v_get E h r k = Undefined"
proof -
  have "lookup W h r k = None" using assms(2) by (simp only: nearest_None)
  then show ?thesis by (simp only: objects_get [OF assms(1)] option.case)
qed

lemma prototype_member: "prototype_of E global n h = Some q \<Longrightarrow> member_value E h (Ref global) [n, ''prototype''] = Ref q"
  by (cases "v_get E h global n"; cases "v_get E h (the (cast_object (v_get E h global n))) ''prototype''")
    (auto simp: prototype_of_def)

lemma fresh_hidden:
  assumes "fresh_global W global h" "k \<in> {''WebAssembly'', ''Intl''}"
  shows "\<forall>p. own W h global k = Some p \<longrightarrow> configurable p" "\<forall>q \<in> set (protos W h global). own W h q k = None"
    "global \<notin> set (protos W h global)"
proof -
  note f = conjunct2 [OF assms(1) [unfolded fresh_global_def]]
  show "global \<notin> set (protos W h global)" by (rule conjunct1 [OF f])
  show "\<forall>p. own W h global k = Some p \<longrightarrow> configurable p" "\<forall>q \<in> set (protos W h global). own W h q k = None"
    using bspec [OF conjunct1 [OF conjunct2 [OF f]] assms(2)] by blast+
qed

text \<open>The states the code goes through, and what the last one has kept.\<close>

lemma init_steps:
  assumes "objects_ok W E" "fresh_global W global h"
  obtains math h' where "init_isolate E global class_module h = Some h'" "builtins_same W global h h'"
    "v_get E h' global ''Math'' = Ref math" "math \<noteq> global" "own W h' math ''random'' = None" "\<forall>q \<in> set (protos W h math). q \<noteq> global \<and> own W h q ''random'' = None"
    "\<forall>(n, ms) \<in> set locale_functions. \<exists>q. prototype_of E global n h' = Some q \<and> (\<forall>m \<in> set ms. off W h' q m)"
    "\<forall>m \<in> set contract_modules. v_get E h' global m = class_module m"
    "\<forall>k. k \<notin> set contract_modules \<longrightarrow> own W h' global k =
       (if k \<in> set (v_names E h global) \<union> {''WebAssembly'', ''Intl''} then deleted (own W h global k) else own W h global k)"
    "\<forall>q k. q \<noteq> global \<longrightarrow> k \<notin> set locale_names \<longrightarrow> (q, k) \<noteq> (math, ''random'') \<longrightarrow> own W h' q k = own W h q k"
proof -
  define h3 where "h3 = v_delete E (v_delete E (delete_names E global h) global ''WebAssembly'') global ''Intl''"
  note three = global_deletes [OF assms h3_def]
  have M: "''Math'' \<in> set builtin_names" by (simp add: builtin_names_def)
  obtain p math where math: "own W h global ''Math'' = Some p" "pval p = Ref math" "global \<notin> set (math # protos W h math)"
      "\<forall>p. own W h math ''random'' = Some p \<longrightarrow> configurable p" "\<forall>q \<in> set (protos W h math). own W h q ''random'' = None"
    by (rule fresh_builtin [OF assms(2) M]) (rule that; blast)
  have mref: "v_get E k global ''Math'' = Ref math" if "builtins_same W global h k" for k
    using prototype_same(2) [OF assms that, of "''Math''"] math(1,2) by (simp add: builtin_names_def objects_get [OF assms(1)])
  define h4 where "h4 = v_delete E h3 math ''random''"
  note d4 = delete_put [OF assms(1), of h3 math "''random''", folded h4_def]
  have s4: "builtins_same W global h3 h4" using put_same [OF d4] math(3) by simp
  have soft4: "\<forall>q m. soft W h q m \<longrightarrow> soft W h4 q m" using three(2) soft_delete [OF assms(1)] unfolding h4_def by blast
  have fs: "\<forall>(n, ms) \<in> set locale_functions. n \<in> set builtin_names \<and> n \<noteq> ''Math'' \<and> set ms \<subseteq> set locale_names"
    by (auto simp: locale_functions_def builtin_names_def s_localeobjects_def locale_names_def)
  obtain h5 where h5: "disable_all E global locale_functions h4 = Some h5" "kept W global ((- {global}) \<times> set locale_names) h4 h5"
      "\<forall>(n, ms) \<in> set locale_functions. \<exists>q. prototype_of E global n h = Some q \<and> (\<forall>m \<in> set ms. off W h5 q m)"
    using disable_all_sets [OF assms fs same_trans [OF three(1) s4] soft4] by (elim exE conjE) (rule that; assumption)
  define h6 where "h6 = foldl (\<lambda>h m. v_set E h global m (class_module m)) h5 contract_modules"
  have "soft W h global m" if "m \<in> set contract_modules" for m using assms(2) that unfolding fresh_global_def by blast
  then have "\<forall>m \<in> set contract_modules. soft W h5 global m" using soft4 h5(2) unfolding kept_def by blast
  then have h6: "kept W global ({global} \<times> set contract_modules) h5 h6"
      "\<forall>m \<in> set contract_modules. v_get E h6 global m = class_module m"
    using module_sets [OF assms(1) subset_refl, of h5 global class_module] by (simp_all add: h6_def contract_modules_def)
  have same: "builtins_same W global h h6"
    using three(1) s4 h5(2) h6(1) same_trans unfolding kept_def by meson
  have run: "init_isolate E global class_module h = Some h6"
    using h5(1) mref [OF three(1)] by (simp add: init_isolate_def h6_def h4_def h3_def Let_def)
  have own6: "own W h6 q k = own W h4 q k" if "q = global \<longrightarrow> k \<notin> set contract_modules" "q \<noteq> global \<longrightarrow> k \<notin> set locale_names" for q k
    using h5(2) h6(1) that unfolding kept_def by (cases "q = global") simp_all
  have own4: "own W h4 q k = (if q = math \<and> k = ''random'' then deleted (own W h3 math k) else own W h3 q k)" for q k
    using put_ownD(1) [OF d4] by simp
  have fn: "\<forall>(n, ms) \<in> set locale_functions. \<exists>q. prototype_of E global n h6 = Some q \<and> (\<forall>m \<in> set ms. off W h6 q m)"
  proof (intro ballI, clarify)
    fix n ms assume n: "(n, ms) \<in> set locale_functions"
    then obtain q where q: "prototype_of E global n h = Some q" "\<forall>m \<in> set ms. off W h5 q m" using h5(3) by blast
    have ms: "n \<in> set builtin_names" "set ms \<subseteq> set locale_names" using fs n by auto
    then have "own W h6 q m = own W h5 q m" if "m \<in> set ms" for m
      using h6(1) that disjoint_names(1) [of m] unfolding kept_def by blast
    then have "\<forall>m \<in> set ms. off W h6 q m" using q(2) by (simp add: off_def)
    then show "\<exists>q. prototype_of E global n h6 = Some q \<and> (\<forall>m \<in> set ms. off W h6 q m)"
      using q(1) prototype_same(1) [OF assms same ms(1)] by simp
  qed
  show ?thesis
    by (rule that [OF run same mref [OF same] _ _ _ fn h6(2)])
      (use math(3-5) own6 own4 three(3) disjoint_names in \<open>auto simp: deleted_def locale_names_def contract_modules_def split: option.splits\<close>)
qed


text \<open>A heap with these laws, without prototypes: the own properties as a list.\<close>

type_synonym list_heap = "((oref \<times> string) \<times> js_property) list"

definition list_view :: "list_heap heap_view" where
  "list_view = \<lparr>own = (\<lambda>h r k. map_of h (r, k)), protos = (\<lambda>h r. [])\<rparr>"

definition list_put :: "list_heap \<Rightarrow> oref \<Rightarrow> string \<Rightarrow> js_property option \<Rightarrow> list_heap" where
  "list_put h r k p = (let rest = filter (\<lambda>e. fst e \<noteq> (r, k)) h in case p of None \<Rightarrow> rest | Some p \<Rightarrow> ((r, k), p) # rest)"

definition list_v8 :: "list_heap v8" where
  "list_v8 = \<lparr>v_get = (\<lambda>h r k. case map_of h (r, k) of None \<Rightarrow> Undefined | Some p \<Rightarrow> pval p),
     v_set = (\<lambda>h r k v. list_put h r k (case map_of h (r, k) of
        Some p \<Rightarrow> Some (if writable p then p\<lparr>pval := v\<rparr> else p)
      | None \<Rightarrow> Some \<lparr>pval = v, enumerable = True, configurable = True, writable = True\<rparr>)),
     v_delete = (\<lambda>h r k. list_put h r k (deleted (map_of h (r, k)))),
     v_names = (\<lambda>h r. map (snd \<circ> fst) (filter (\<lambda>e. fst (fst e) = r \<and>
        (case map_of h (fst e) of None \<Rightarrow> False | Some p \<Rightarrow> enumerable p)) h))\<rparr>"

lemma map_of_filter: "map_of (filter (\<lambda>e. fst e \<noteq> x) h) y = (if y = x then None else map_of h y)"
  by (induction h) auto

lemma list_put_own: "put_own list_view h r k p (list_put h r k p)"
  by (auto simp: put_own_def list_view_def list_put_def Let_def map_of_filter fun_eq_iff split: option.split)

lemma list_objects_ok: "objects_ok list_view list_v8"
proof -
  have n: "k \<in> set (v_names list_v8 h r) \<longleftrightarrow> (\<exists>p. lookup list_view h r k = Some p \<and> enumerable p)" for h r k
  proof
    assume "k \<in> set (v_names list_v8 h r)"
    then show "\<exists>p. lookup list_view h r k = Some p \<and> enumerable p"
      by (auto simp: list_v8_def list_view_def split: option.splits)
  next
    assume "\<exists>p. lookup list_view h r k = Some p \<and> enumerable p"
    then obtain p where p: "map_of h (r, k) = Some p" "enumerable p"
      by (auto simp: list_view_def split: option.splits)
    then have "((r, k), p) \<in> set (filter (\<lambda>e. fst (fst e) = r \<and>
        (case map_of h (fst e) of None \<Rightarrow> False | Some p \<Rightarrow> enumerable p)) h)"
      by (simp add: map_of_SomeD)
    then have "(snd \<circ> fst) ((r, k), p) \<in> set (v_names list_v8 h r)" unfolding list_v8_def v8.simps by (simp only: set_map) (rule imageI)
    then show "k \<in> set (v_names list_v8 h r)" by simp
  qed
  have v: "own list_view h r k = map_of h (r, k)" "lookup list_view h r k = map_of h (r, k)" for h r k
    by (simp_all add: list_view_def split: option.split)
  have g: "v_get list_v8 h r k = (case lookup list_view h r k of None \<Rightarrow> Undefined | Some p \<Rightarrow> pval p)" for h r k
    unfolding v by (simp add: list_v8_def)
  have d: "put_own list_view h r k (deleted (own list_view h r k)) (v_delete list_v8 h r k)" for h r k
    unfolding v using list_put_own by (simp add: list_v8_def)
  have s: "put_own list_view h r k
        (case own list_view h r k of
           Some p \<Rightarrow> Some (if writable p then p\<lparr>pval := v\<rparr> else p)
         | None \<Rightarrow> if \<exists>p. lookup list_view h r k = Some p \<and> \<not> writable p then None
                   else Some \<lparr>pval = v, enumerable = True, configurable = True, writable = True\<rparr>)
        (v_set list_v8 h r k v)" for h r k v
    unfolding v using list_put_own by (cases "map_of h (r, k)") (simp_all add: list_v8_def)
  show ?thesis unfolding objects_ok_def using g s d n by blast
qed

definition builtin :: "jval \<Rightarrow> js_property" where
  "builtin v = \<lparr>pval = v, enumerable = False, configurable = True, writable = True\<rparr>"

text \<open>The global object is 0; each constructor shares the prototype 2, and 3 is \<open>Math\<close>.\<close>

definition demo_heap :: list_heap where
  "demo_heap = ((0, ''global''), \<lparr>pval = Ref 0, enumerable = True, configurable = True, writable = True\<rparr>) #
     ((0, ''Math''), builtin (Ref 3)) # ((0, ''Intl''), builtin (Ref 4)) # ((0, ''WebAssembly''), builtin (Ref 4)) #
     ((3, ''random''), builtin (Primitive ''random'')) # ((1, ''prototype''), builtin (Ref 2)) #
     ((2, ''toLocaleString''), builtin (Primitive ''f'')) # map (\<lambda>n. ((0, n), builtin (Ref 1))) (''String'' # s_localeobjects)"

lemma demo_fresh: "fresh_global list_view 0 demo_heap"
  by (auto simp: fresh_global_def builtin_names_def s_localeobjects_def locale_names_def contract_modules_def demo_heap_def
      list_view_def builtin_def soft_def)


section \<open>Clock and time zone\<close>

text \<open>The broken-down local time of the C library, as far as it is read; None is a null pointer.\<close>

record tm =
  tm_isdst :: int
  tm_gmtoff :: int
  tm_zone :: "string option"

text \<open>The machine: its \<open>localtime_r\<close> and \<open>time\<close>, in seconds, and the engine's own clocks.\<close>

record machine =
  localtime_r :: "int \<Rightarrow> tm option"
  time_now :: int
  default_monotonic :: rat
  default_clock :: rat

text \<open>Where the question is asked: in the isolate of contracts or not, and the block time of the
  action being run, in microseconds.  A double is the rational it stands for: block times are
  multiples of half a second, so that dividing by 1000 is exact.  \<open>sec_since_epoch\<close> is the
  chain's conversion to seconds.\<close>

record asker =
  in_contracts :: bool
  block_time :: "int option"

definition MonotonicallyIncreasingTime :: "(int \<Rightarrow> nat) \<Rightarrow> machine \<Rightarrow> asker \<Rightarrow> rat" where
  "MonotonicallyIncreasingTime sec_since_epoch m a =
     (if in_contracts a then (case block_time a of Some t \<Rightarrow> of_nat (sec_since_epoch t) | None \<Rightarrow> default_monotonic m)
      else default_monotonic m)"

definition CurrentClockTimeMillis :: "machine \<Rightarrow> asker \<Rightarrow> rat" where
  "CurrentClockTimeMillis m a =
     (if in_contracts a then (case block_time a of Some t \<Rightarrow> of_int (t mod 2 ^ 64) / 1000 | None \<Rightarrow> default_clock m)
      else default_clock m)"

definition msPerSecond :: int where
  "msPerSecond = 1000"

text \<open>\<open>time\<close> in milliseconds, None for NaN.\<close>

definition LocalTimezone :: "machine \<Rightarrow> asker \<Rightarrow> int option \<Rightarrow> string" where
  "LocalTimezone m a time =
     (if in_contracts a then ''UTC''
      else (case time of
              None \<Rightarrow> ''''
            | Some ms \<Rightarrow>
                (case localtime_r m (ms div msPerSecond) of
                   None \<Rightarrow> ''''
                 | Some t \<Rightarrow> (case tm_zone t of None \<Rightarrow> '''' | Some z \<Rightarrow> z))))"

text \<open>The offset of the zone; no test for a null pointer here.  It is asked for once, with the
  wall clock of the machine, in both isolates.\<close>

definition LocalTimeOffset :: "machine \<Rightarrow> asker \<Rightarrow> int option" where
  "LocalTimeOffset m a =
     (case localtime_r m (time_now m) of
        None \<Rightarrow> None
      | Some t \<Rightarrow>
          if in_contracts a then Some (- (if tm_isdst t > 0 then 3600 * msPerSecond else 0))
          else Some (tm_gmtoff t * msPerSecond - (if tm_isdst t > 0 then 3600 * msPerSecond else 0)))"

text \<open>What the engine makes of it without its own zone data (the node switches that off): the
  offset plus one hour when the host's rules have daylight saving at the time in question.
  \<open>daylight\<close> is that part of the engine.\<close>

definition local_millis :: "(machine \<Rightarrow> int \<Rightarrow> int) \<Rightarrow> machine \<Rightarrow> asker \<Rightarrow> int \<Rightarrow> int option" where
  "local_millis daylight m a ms = map_option (\<lambda>off. ms + off + daylight m ms) (LocalTimeOffset m a)"


definition zone_of :: "bool \<Rightarrow> machine" where
  "zone_of summer = \<lparr>localtime_r = (\<lambda>s. Some \<lparr>tm_isdst = (if 0 < s \<and> s < 100 then 1 else 0), tm_gmtoff = 3600, tm_zone = None\<rparr>),
     time_now = (if summer then 50 else 500), default_monotonic = 0, default_clock = 0\<rparr>"


section \<open>Console and hash functions\<close>

text \<open>A line of the console: a contract's goes to the trace of its action, others to the log.\<close>

definition putLog :: "asker \<Rightarrow> string \<Rightarrow> string list \<times> string list \<Rightarrow> string list \<times> string list" where
  "putLog a msg out =
     (if in_contracts a \<and> block_time a \<noteq> None then (fst out @ [msg @ [CHR 0x0A]], snd out)
      else (fst out, snd out @ [msg]))"

datatype severity = Sev_log | Sev_debug | Sev_info | Sev_notice | Sev_warn | Sev_error | Sev_crit | Sev_alert | Sev_trace

text \<open>The console of contracts offers these calls and passes them on to the engine's console and
  its \<open>assert\<close>; the first text of a print is its format, if there is one.\<close>

datatype 'a console_call = Print severity "string option" "'a list" | Dir 'a 'a | Assert 'a string

record ('a, 'r) fibjs_console =
  console_print :: "severity \<Rightarrow> string option \<Rightarrow> 'a list \<Rightarrow> 'r"
  console_dir :: "'a \<Rightarrow> 'a \<Rightarrow> 'r"
  assert_ok :: "'a \<Rightarrow> string \<Rightarrow> 'r"

fun bc_console :: "('a, 'r) fibjs_console \<Rightarrow> 'a console_call \<Rightarrow> 'r" where
  "bc_console f (Print sev fmt args) = console_print f sev fmt args"
| "bc_console f (Dir obj options) = console_dir f obj options"
| "bc_console f (Assert v msg) = assert_ok f v msg"

record 'e encoder =
  e_new :: 'e
  e_write :: "'e \<Rightarrow> 8 word list \<Rightarrow> 'e"
  e_result :: "'e \<Rightarrow> 8 word list"

text \<open>The hash functions of the chain's library and its time check, with the block size between
  two checks.\<close>

record ('e, 's) hashing =
  sha1_encoder :: "'e encoder"
  sha256_encoder :: "'e encoder"
  sha512_encoder :: "'e encoder"
  ripemd160_encoder :: "'e encoder"
  hashing_block_size :: nat
  hash_checktime :: "'s \<Rightarrow> (exn + unit) \<times> 's"
  hash_hex :: "8 word list \<Rightarrow> string"

definition hash_text :: "('e, 's) hashing \<Rightarrow> 'e encoder \<Rightarrow> 8 word list \<Rightarrow> 's \<Rightarrow> (js_error + string) \<times> 's" where
  "hash_text l x data s = encode (hashing_block_size l) (e_write x) (e_result x) (hash_hex l) (hash_checktime l) (e_new x) data s"

definition crypto_sha1 :: "('e, 's) hashing \<Rightarrow> 8 word list \<Rightarrow> 's \<Rightarrow> (js_error + string) \<times> 's" where
  "crypto_sha1 l data s = hash_text l (sha1_encoder l) data s"

definition crypto_sha256 :: "('e, 's) hashing \<Rightarrow> 8 word list \<Rightarrow> 's \<Rightarrow> (js_error + string) \<times> 's" where
  "crypto_sha256 l data s = hash_text l (sha256_encoder l) data s"

definition crypto_sha512 :: "('e, 's) hashing \<Rightarrow> 8 word list \<Rightarrow> 's \<Rightarrow> (js_error + string) \<times> 's" where
  "crypto_sha512 l data s = hash_text l (sha512_encoder l) data s"

definition crypto_ripemd160 :: "('e, 's) hashing \<Rightarrow> 8 word list \<Rightarrow> 's \<Rightarrow> (js_error + string) \<times> 's" where
  "crypto_ripemd160 l data s = hash_text l (ripemd160_encoder l) data s"

text \<open>Reading a signature, the digest and the key may each throw; here any exception of the
  library gives its own text.\<close>

fun fc_error :: "exn \<Rightarrow> js_error" where
  "fc_error (Chain_exception msg args) = Set_error msg"
| "fc_error (Fc_exception msg) = Set_error msg"
| "fc_error x = Set_error ''unknown exception''"

definition recover_key :: "(string \<Rightarrow> exn + 'sig) \<Rightarrow> (string \<Rightarrow> exn + 'd) \<Rightarrow> ('sig \<Rightarrow> 'd \<Rightarrow> bool \<Rightarrow> exn + 'k) \<Rightarrow> ('k \<Rightarrow> string) \<Rightarrow>
    string \<Rightarrow> string \<Rightarrow> js_error + string" where
  "recover_key read_signature read_digest public_key to_string digest sig =
     (case read_signature sig of Inl x \<Rightarrow> Inl (fc_error x)
      | Inr sg \<Rightarrow> (case read_digest digest of Inl x \<Rightarrow> Inl (fc_error x)
      | Inr d \<Rightarrow> (case public_key sg d False of Inl x \<Rightarrow> Inl (fc_error x)
      | Inr k \<Rightarrow> Inr (to_string k))))"

lemma hash_text_whole:
  assumes "0 < hashing_block_size l" "\<And>e xs ys. e_write x (e_write x e xs) ys = e_write x e (xs @ ys)"
    "\<And>s. hash_checktime l s = (Inr (), s)"
  shows "hash_text l x data s = (Inr (hash_hex l (e_result x (e_write x (e_new x) data))), s)"
proof -
  have "checks n (hash_checktime l) s = (Inr (), s)" for n by (induction n) (simp_all add: assms(3))
  then show ?thesis unfolding hash_text_def encode_def encode_loop_whole [OF assms(1,2)] by simp
qed

end
