(* ===== verification/Sym_Linux.thy ===== *)
theory Sym_Linux
  imports InfInt_Conv "HOL-Library.Word"
begin

unbundle bit_operations_syntax

text \<open>
  The C library functions the node brings along for old Linux systems, \<^verbatim>\<open>src/patch/sym_linux.cpp\<close>.
  Sizes are 64-bit words; \<open>posix_memalign\<close> of the system is a parameter.
\<close>

section \<open>Aligned memory\<close>

definition EINVAL :: int where "EINVAL = 22"

definition sizeof_pointer :: "64 word" where "sizeof_pointer = 8"

text \<open>\<open>posix_memalign\<close> gives an error number or a pointer.  The result is the pointer, null being
  None, and the error number that is stored in \<open>errno\<close>, if one is.\<close>

definition aligned_alloc ::
    "(64 word \<Rightarrow> 64 word \<Rightarrow> int + 64 word) \<Rightarrow> 64 word \<Rightarrow> 64 word \<Rightarrow> 64 word option \<times> int option" where
  "aligned_alloc posix_memalign align sz =
     (if align AND (align - 1) \<noteq> 0 \<or> sz AND (align - 1) \<noteq> 0 then (None, Some EINVAL)
      else (let align = (if align < sizeof_pointer then sizeof_pointer else align) in
            case posix_memalign align sz of
              Inl err \<Rightarrow> (None, Some err)
            | Inr ptr \<Rightarrow> (Some ptr, None)))"

text \<open>The bit trick: a number and its predecessor share no bit exactly if it is a power of two.\<close>

lemma and_pred_nat: "0 < (a :: nat) \<Longrightarrow> a AND (a - 1) = 0 \<longleftrightarrow> (\<exists>k. a = 2 ^ k)"
proof (induction a rule: less_induct)
  case (less a)
  show ?case
  proof (cases "even a")
    case True
    then obtain b where b: "a = 2 * b" by blast
    with less.prems have b0: "0 < b" by simp
    then have p: "a - 1 = 2 * (b - 1) + 1" using b by simp
    have "a AND (a - 1) = 2 * (b AND (b - 1))" unfolding p unfolding b by (simp add: and_nat_rec [of "2 * b"])
    moreover have "(\<exists>k. b = 2 ^ k) \<longleftrightarrow> (\<exists>k. a = 2 ^ k)"
    proof
      assume "\<exists>k. a = 2 ^ k"
      then obtain k where k: "a = 2 ^ k" by blast
      then have "k \<noteq> 0" using True by (cases k) auto
      then show "\<exists>k. b = 2 ^ k" using b k by (cases k) auto
    qed (use b in \<open>metis power_Suc\<close>)
    ultimately show ?thesis using less.IH [of b] b b0 by simp
  next
    case False
    then obtain b where b: "a = Suc (2 * b)" using oddE by (metis Suc_eq_plus1)
    have "a AND (a - 1) = 2 * b" unfolding b by (simp add: and_nat_rec [of "Suc (2 * b)"])
    moreover have "(\<exists>k. a = 2 ^ k) \<longleftrightarrow> b = 0"
    proof
      assume "\<exists>k. a = 2 ^ k"
      then obtain k where "a = 2 ^ k" by blast
      then show "b = 0" using b False by (cases k) auto
    qed (use b in \<open>auto intro: exI [of _ 0]\<close>)
    ultimately show ?thesis by simp
  qed
qed

lemma and_pred_word: "(a :: 64 word) AND (a - 1) = 0 \<longleftrightarrow> a = 0 \<or> (\<exists>k < 64. unat a = 2 ^ k)"
proof (cases "a = 0")
  case False
  then have "unat (a - 1) = unat a - 1" "0 < unat a" by (simp_all add: unat_minus_one unat_gt_0)
  then have "unat (a AND (a - 1)) = 0 \<longleftrightarrow> (\<exists>k. unat a = 2 ^ k)"
    using and_pred_nat [of "unat a"] by (simp add: unsigned_and_eq)
  moreover have "k < 64" if "unat a = 2 ^ k" for k
    using that unsigned_less [of a, where 'a = nat] power_less_imp_less_exp [of "2 :: nat" k 64] by simp
  ultimately show ?thesis using False by (auto simp: unat_eq_0)
qed simp

lemma and_pred_dvd: "unat (a :: 64 word) = 2 ^ k \<Longrightarrow> k < 64 \<Longrightarrow> (x :: 64 word) AND (a - 1) = 0 \<longleftrightarrow> 2 ^ k dvd unat x"
proof -
  assume a: "unat a = 2 ^ k" "k < 64"
  then have "a = 2 ^ k" using of_nat_unat [of a] by (metis of_nat_numeral of_nat_power ucast_id)
  then have "a - 1 = mask k" by (simp add: mask_eq_decr_exp)
  then show ?thesis using and_mask_dvd_nat [of k x] by simp
qed

text \<open>What the C library promises of \<open>posix_memalign\<close>.\<close>

definition memalign_ok :: "(64 word \<Rightarrow> 64 word \<Rightarrow> int + 64 word) \<Rightarrow> bool" where
  "memalign_ok posix_memalign \<longleftrightarrow>
     (\<forall>al sz. (\<exists>k < 64. unat al = 2 ^ k) \<and> 8 dvd unat al \<longrightarrow> posix_memalign al sz \<noteq> Inl EINVAL) \<and>
     (\<forall>al sz p. posix_memalign al sz = Inr p \<longrightarrow> unat al dvd unat p)"

text \<open>
  C40: Memory is asked for exactly when the alignment is a power of two that divides the size, or
  both are zero; every other request fails with \<open>EINVAL\<close> and null.  The system is then always
  asked for a power of two of at least the size of a pointer, so that \<open>EINVAL\<close> never comes from
  it, and the pointer it gives is a multiple of the alignment the caller wanted.
\<close>

theorem aligned_alloc_request:
  assumes "memalign_ok posix_memalign"
  shows "(snd (aligned_alloc posix_memalign align sz) = Some EINVAL \<longleftrightarrow>
      \<not> (align = 0 \<and> sz = 0 \<or> (\<exists>k < 64. unat align = 2 ^ k \<and> 2 ^ k dvd unat sz))) \<and>
    (\<forall>p. fst (aligned_alloc posix_memalign align sz) = Some p \<longrightarrow> unat align dvd unat p \<or> align = 0) \<and>
    (fst (aligned_alloc posix_memalign align sz) = None \<longleftrightarrow> snd (aligned_alloc posix_memalign align sz) \<noteq> None)"
proof -
  let ?ok = "align = 0 \<and> sz = 0 \<or> (\<exists>k < 64. unat align = 2 ^ k \<and> 2 ^ k dvd unat sz)"
  let ?al = "if align < sizeof_pointer then sizeof_pointer else align"
  have ok: "align AND (align - 1) = 0 \<and> sz AND (align - 1) = 0 \<longleftrightarrow> ?ok"
  proof (cases "align = 0")
    case False
    then show ?thesis using and_pred_word [of align] and_pred_dvd [of align _ sz] by auto
  qed simp
  show ?thesis
  proof (cases ?ok)
    case False
    then show ?thesis using ok by (auto simp: aligned_alloc_def)
  next
    case True
    have al: "(\<exists>k < 64. unat ?al = 2 ^ k) \<and> 8 dvd unat ?al \<and> (align = 0 \<or> unat align dvd unat ?al)"
    proof (cases "align = 0")
      case True
      then show ?thesis by (auto simp: sizeof_pointer_def intro!: exI [of _ 3])
    next
      case False
      then obtain k where k: "k < 64" "unat align = 2 ^ k" using True by auto
      have lt: "align < 8 \<longleftrightarrow> k < 3"
        using k power_strict_increasing_iff [of "2 :: nat" k 3] by (simp add: word_less_nat_alt)
      then show ?thesis
      proof (cases "k < 3")
        case True
        then have "unat align dvd 8" using k(2) le_imp_power_dvd [of k 3 "2 :: nat"] by simp
        then show ?thesis using True lt by (auto simp: sizeof_pointer_def intro!: exI [of _ 3])
      next
        case False
        then have "8 dvd unat align" using k(2) le_imp_power_dvd [of 3 k "2 :: nat"] by simp
        then show ?thesis using False lt k by (auto simp: sizeof_pointer_def)
      qed
    qed
    have run: "aligned_alloc posix_memalign align sz =
        (case posix_memalign ?al sz of Inl err \<Rightarrow> (None, Some err) | Inr ptr \<Rightarrow> (Some ptr, None))"
      using True ok by (simp add: aligned_alloc_def Let_def)
    have "posix_memalign ?al sz \<noteq> Inl EINVAL" "\<And>p. posix_memalign ?al sz = Inr p \<Longrightarrow> unat ?al dvd unat p"
      using assms al unfolding memalign_ok_def by blast+
    then show ?thesis using True al dvd_trans unfolding run by (cases "posix_memalign ?al sz") auto
  qed
qed

definition demo_memalign :: "64 word \<Rightarrow> 64 word \<Rightarrow> int + 64 word" where
  "demo_memalign al sz = Inr 0"

lemma aligned_alloc_request_witness:
  "snd (aligned_alloc demo_memalign 24 48) = Some EINVAL \<and> snd (aligned_alloc demo_memalign 4 48) = None"
proof -
  have d: "memalign_ok demo_memalign" by (simp add: memalign_ok_def demo_memalign_def)
  have "k < 64 \<Longrightarrow> (24 :: nat) \<noteq> 2 ^ k" for k :: nat
  proof
    assume "(24 :: nat) = 2 ^ k"
    moreover have "k < 5 \<or> (2 :: nat) ^ 5 \<le> 2 ^ k" using power_increasing [of 5 k "2 :: nat"] by linarith
    ultimately have "k \<in> {0, 1, 2, 3, 4}" by auto
    then show False using \<open>24 = 2 ^ k\<close> by auto
  qed
  then have "snd (aligned_alloc demo_memalign 24 48) = Some EINVAL"
    using conjunct1 [OF aligned_alloc_request [OF d, of 24 48]] by auto
  moreover have "snd (aligned_alloc demo_memalign 4 48) = None"
    by (simp add: aligned_alloc_def demo_memalign_def Let_def)
  ultimately show ?thesis by blast
qed

section \<open>The other functions\<close>

definition FD_SETSIZE :: int where "FD_SETSIZE = 1024"
definition NFDBITS :: int where "NFDBITS = 64"

text \<open>None is \<open>__chk_fail\<close>, which does not return.\<close>

definition fdelt_chk :: "int \<Rightarrow> int option" where
  "fdelt_chk d = (if d \<ge> FD_SETSIZE \<or> d < 0 then None else Some (d div NFDBITS))"

lemma fdelt_in_set: "fdelt_chk d = Some w \<Longrightarrow> 0 \<le> w \<and> w < FD_SETSIZE div NFDBITS"
  by (auto simp: fdelt_chk_def FD_SETSIZE_def NFDBITS_def split: if_splits)

definition explicit_bzero_chk :: "8 word list \<Rightarrow> nat \<Rightarrow> 8 word list" where
  "explicit_bzero_chk dst n = replicate n 0 @ drop n dst"

definition getauxval :: "nat \<Rightarrow> nat" where "getauxval type = 0"

definition pthread_setname_np :: "string \<Rightarrow> int" where "pthread_setname_np name = 0"

definition pthread_mutexattr_setrobust :: "int \<Rightarrow> int" where "pthread_mutexattr_setrobust robust = 0"

text \<open>The bytes written to the caller's buffer, whose length is not looked at, and the counter.\<close>

definition pthread_getname_np :: "nat \<Rightarrow> nat \<Rightarrow> int \<times> string \<times> nat" where
  "pthread_getname_np thread_count len = (0, ''thread-'' @ show_nat thread_count @ [CHR 0x00], Suc thread_count)"

lemma getname_overflows:
  "length (fst (snd (pthread_getname_np thread_count len))) = 8 + length (show_nat thread_count)"
  by (simp add: pthread_getname_np_def)

end
