(* ===== verification/Emitter_Signals.thy ===== *)
theory Emitter_Signals
  imports Emitter
begin

text \<open>
  What feeds the emitter (\<^verbatim>\<open>src/plugin/emitter_plugin.cpp\<close>): the chain's signals between
  \<open>plugin_startup\<close> and \<open>plugin_shutdown\<close>, and the value a transaction is stashed as
  (\<open>to_variant_with_abi\<close>, \<open>applied_event\<close>).
\<close>

section \<open>Values of transactions\<close>

text \<open>The serializer of an account's ABI.  None for a bad name, an account without a readable ABI,
  and after an exception, which is logged and dropped.\<close>

definition abi_resolver :: "('n \<Rightarrow> bool) \<Rightarrow> ('n \<Rightarrow> exn + 'r) \<Rightarrow> ('r \<Rightarrow> exn + 'abi option) \<Rightarrow> ('abi \<Rightarrow> exn + 'ser) \<Rightarrow> 'n \<Rightarrow> 'ser option" where
  "abi_resolver good get_account to_abi new_serializer n =
     (if good n
      then (case get_account n of Inl x \<Rightarrow> None
            | Inr acct \<Rightarrow> (case to_abi acct of Inl x \<Rightarrow> None
            | Inr None \<Rightarrow> None
            | Inr (Some abi) \<Rightarrow> (case new_serializer abi of Inl x \<Rightarrow> None | Inr ser \<Rightarrow> Some ser)))
      else None)"

definition to_variant_with_abi :: "('t \<Rightarrow> ('n \<Rightarrow> 'ser option) \<Rightarrow> exn + fcv) \<Rightarrow> ('n \<Rightarrow> 'ser option) \<Rightarrow> 't \<Rightarrow> exn + fcv" where
  "to_variant_with_abi to_variant resolver obj = to_variant obj resolver"

text \<open>\<open>applied_event\<close> for a transaction: any exception makes the application quit.\<close>

definition applied_trace :: "('t \<Rightarrow> ('n \<Rightarrow> 'ser option) \<Rightarrow> exn + fcv) \<Rightarrow> ('n \<Rightarrow> 'ser option) \<Rightarrow> (fcv \<Rightarrow> exn + 8 word list) \<Rightarrow>
    event_type \<Rightarrow> 't \<Rightarrow> label" where
  "applied_trace to_variant resolver pack ev data =
     (case to_variant_with_abi to_variant resolver data of
        Inl x \<Rightarrow> Env Quit
      | Inr v \<Rightarrow> applied_event pack ev v)"

section \<open>Signals\<close>

text \<open>The members the signals work with: the last irreversible block reported, and whether the
  handlers are connected.\<close>

record signal_state =
  s_last_irreversible_block :: "32 word"
  connected :: bool

definition plugin_startup :: "32 word \<Rightarrow> signal_state \<Rightarrow> signal_state" where
  "plugin_startup lib st = st\<lparr>s_last_irreversible_block := lib\<rparr>"

definition plugin_shutdown :: "signal_state \<Rightarrow> signal_state" where
  "plugin_shutdown st = st\<lparr>connected := False\<rparr>"

text \<open>\<open>Block_accepted\<close> has the chain's last irreversible block, the number and the block;
  \<open>Transaction_applied\<close> the account and name of each action trace, and the trace.\<close>

datatype ('b, 't) signal =
    Block_accepted "32 word" "32 word" 'b
  | Transaction_applied "(string \<times> string) list" 't
  | Shutdown

definition on_signal :: "(32 word \<Rightarrow> 'b option) \<Rightarrow> ('b, 't) signal \<Rightarrow> signal_state \<Rightarrow>
    ((event_type \<times> ('b + 't)) list \<times> signal_state) option" where
  "on_signal fetch sig st =
     (case sig of
        Shutdown \<Rightarrow> Some ([], plugin_shutdown st)
      | Transaction_applied traces t \<Rightarrow>
          Some (if connected st \<and> on_applied_transaction traces then [(Transaction_type, Inr t)] else [], st)
      | Block_accepted lib num blk \<Rightarrow>
          if \<not> connected st then Some ([], st)
          else (case on_accepted_block fetch (s_last_irreversible_block st) lib num blk of
                  None \<Rightarrow> None
                | Some (evs, lst) \<Rightarrow> Some (map (map_prod id Inl) evs, st\<lparr>s_last_irreversible_block := lst\<rparr>)))"

text \<open>What is stashed over a run of signals, None if the missing first block has been used.\<close>

fun feed :: "(32 word \<Rightarrow> 'b option) \<Rightarrow> ('b, 't) signal list \<Rightarrow> signal_state \<Rightarrow>
    ((event_type \<times> ('b + 't)) list \<times> signal_state) option" where
  "feed fetch [] st = Some ([], st)"
| "feed fetch (sig # sigs) st =
     (case on_signal fetch sig st of
        None \<Rightarrow> None
      | Some (evs, st') \<Rightarrow> map_option (map_prod ((@) evs) id) (feed fetch sigs st'))"

section \<open>What is stashed\<close>

definition irreversible_between :: "(32 word \<Rightarrow> 'b option) \<Rightarrow> nat \<Rightarrow> nat \<Rightarrow> (event_type \<times> ('b + 't)) list" where
  "irreversible_between fetch m n =
     concat (map (\<lambda>i. case fetch (word_of_nat i) of None \<Rightarrow> [] | Some b \<Rightarrow> [(Irreversible_block_type, Inl b)]) [Suc m..<Suc n])"

fun highest :: "32 word \<Rightarrow> ('b, 't) signal list \<Rightarrow> 32 word" where
  "highest lst [] = lst"
| "highest lst (Block_accepted lib num blk # sigs) = highest (max lst lib) sigs"
| "highest lst (sig # sigs) = highest lst sigs"

fun others :: "(32 word \<Rightarrow> 'b option) \<Rightarrow> ('b, 't) signal list \<Rightarrow> (event_type \<times> ('b + 't)) list" where
  "others fetch [] = []"
| "others fetch (Block_accepted lib num blk # sigs) =
     (if num = 2 then [(Block_type, Inl (the (fetch 1)))] else []) @ (Block_type, Inl blk) # others fetch sigs"
| "others fetch (Transaction_applied traces t # sigs) =
     (if on_applied_transaction traces then [(Transaction_type, Inr t)] else []) @ others fetch sigs"
| "others fetch (sig # sigs) = others fetch sigs"

abbreviation irreversible :: "event_type \<times> 'x \<Rightarrow> bool" where
  "irreversible e \<equiv> fst e = Irreversible_block_type"

lemma between_append:
  "m \<le> k \<Longrightarrow> k \<le> n \<Longrightarrow> irreversible_between fetch m k @ irreversible_between fetch k n = irreversible_between fetch m n"
  using upt_add_eq_append [of "Suc m" "Suc k" "n - k"] by (simp add: irreversible_between_def del: upt_Suc flip: concat_append map_append)

lemma between_irreversible:
  "filter irreversible (irreversible_between fetch m n) = irreversible_between fetch m n"
  "filter (\<lambda>e. \<not> irreversible e) (irreversible_between fetch m n) = []"
  by (subst filter_id_conv, auto simp: irreversible_between_def filter_empty_conv split: option.splits)

lemma accepted_events:
  assumes "on_accepted_block fetch lst lib num blk = Some (evs, lst')"
  shows "lst' = max lst lib"
    "map (map_prod id Inl) evs = (if num = 2 then [(Block_type, Inl (the (fetch 1)))] else []) @ (Block_type, Inl blk) #
       irreversible_between fetch (unat lst) (unat lib)"
  using assms irreversible_events_range [of fetch lst lib]
  by (auto simp: on_accepted_block_def irreversible_between_def map_concat comp_def Let_def split: if_splits option.splits
      intro!: arg_cong [where f = concat] simp del: upt_Suc)

lemma highest_ge: "lst \<le> highest lst sigs"
  by (induction lst sigs rule: highest.induct) auto

lemma between_max:
  "max lst lib \<le> m \<Longrightarrow> irreversible_between fetch (unat lst) (unat lib) @ irreversible_between fetch (unat (max lst lib)) (unat m) =
     irreversible_between fetch (unat lst) (unat (m :: 32 word))"
proof (cases "lst \<le> lib")
  case True
  then show "max lst lib \<le> m \<Longrightarrow> ?thesis" using between_append [of "unat lst" "unat lib" "unat m" fetch] by (simp add: max_def word_le_nat_alt)
next
  case False
  then have "irreversible_between fetch (unat lst) (unat lib) = []" by (simp add: irreversible_between_def word_le_nat_alt)
  then show ?thesis using False by (simp add: max_def)
qed

lemma feed_connected:
  "connected st \<Longrightarrow> Shutdown \<notin> set sigs \<Longrightarrow> feed fetch sigs st = Some (evs, st') \<Longrightarrow>
   connected st' \<and> s_last_irreversible_block st' = highest (s_last_irreversible_block st) sigs \<and>
   filter (\<lambda>e. \<not> irreversible e) evs = others fetch sigs \<and>
   filter irreversible evs = irreversible_between fetch (unat (s_last_irreversible_block st)) (unat (highest (s_last_irreversible_block st) sigs))"
proof (induction sigs arbitrary: st evs)
  case (Cons sig sigs)
  obtain evs1 st1 evs2 where f: "on_signal fetch sig st = Some (evs1, st1)" "feed fetch sigs st1 = Some (evs2, st')" "evs = evs1 @ evs2"
    using Cons.prems(3) by (auto split: option.splits)
  show ?case
  proof (cases sig)
    case (Transaction_applied traces t)
    then show ?thesis using Cons f by (auto simp: on_signal_def split: if_splits)
  next
    case (Block_accepted lib num blk)
    let ?l = "s_last_irreversible_block st"
    obtain es where e: "on_accepted_block fetch ?l lib num blk = Some (es, s_last_irreversible_block st1)" "connected st1"
        "evs1 = map (map_prod id Inl) es"
      using f(1) Cons.prems(1) Block_accepted by (auto simp: on_signal_def split: option.splits)
    note a = accepted_events [OF e(1)]
    have "Shutdown \<notin> set sigs" using Cons.prems(2) by simp
    note ih = Cons.IH [OF e(2) this f(2)]
    have g: "max ?l lib \<le> highest (max ?l lib) sigs" by (rule highest_ge)
    show ?thesis
      using ih between_max [OF g, of fetch] Block_accepted
      by (simp add: f(3) e(3) a between_irreversible)
  qed (use Cons.prems(2) in simp)
qed (simp add: irreversible_between_def)

lemma feed_append:
  "feed fetch (xs @ ys) st = (case feed fetch xs st of None \<Rightarrow> None | Some (evs, st') \<Rightarrow> map_option (map_prod ((@) evs) id) (feed fetch ys st'))"
  by (induction xs arbitrary: st) (auto simp: option.map_comp option.map_ident comp_def map_prod_def split_def split: option.split)

lemma feed_total:
  "\<forall>lib num blk. Block_accepted lib num blk \<in> set sigs \<longrightarrow> num \<noteq> 2 \<or> fetch 1 \<noteq> None \<Longrightarrow> \<exists>r. feed fetch sigs st = Some r"
proof (induction sigs arbitrary: st)
  case (Cons sig sigs)
  then have "\<exists>r. on_signal fetch sig st = Some r"
    by (cases sig; cases "fetch 1") (auto simp: on_signal_def on_accepted_block_def Let_def split_def)
  then show ?case using Cons by (fastforce simp: split_def)
qed simp

lemma feed_disconnected: "\<not> connected st \<Longrightarrow> feed fetch sigs st = Some ([], st)"
proof (induction sigs)
  case (Cons sig sigs)
  then have "on_signal fetch sig st = Some ([], st)" by (cases sig) (auto simp: on_signal_def plugin_shutdown_def)
  then show ?case using Cons by (simp add: map_prod_def split_def)
qed simp

text \<open>
  C9: Between start and shutdown the emitter stashes every accepted block, with the first block
  before the second, and every transaction that is not the chain's own, in the order of the
  signals; and one irreversible event for each block of the log from the one after the last
  irreversible block at the start to the highest the chain has reported, in the order of the
  numbers, none twice and none left out over all the calls together, even if the chain's number
  goes back in between.  After the shutdown nothing is stashed.
\<close>

theorem signals_stashed:
  assumes "feed fetch (sigs @ Shutdown # rest) (plugin_startup lib st) = Some (evs, st')" "connected st" "Shutdown \<notin> set sigs"
  shows "filter (\<lambda>e. \<not> irreversible e) evs = others fetch sigs \<and>
    filter irreversible evs = irreversible_between fetch (unat lib) (unat (highest lib sigs)) \<and> \<not> connected st'"
proof -
  obtain evs1 st1 where f: "feed fetch sigs (plugin_startup lib st) = Some (evs1, st1)"
    using assms(1) by (auto simp: feed_append split: option.splits)
  have "connected (plugin_startup lib st)" "s_last_irreversible_block (plugin_startup lib st) = lib"
    using assms(2) by (simp_all add: plugin_startup_def)
  note c = feed_connected [OF this(1) assms(3) f, unfolded this(2)]
  have "feed fetch (Shutdown # rest) st1 = Some ([], plugin_shutdown st1)"
    using feed_disconnected [of "plugin_shutdown st1" fetch rest] by (simp add: on_signal_def plugin_shutdown_def)
  then have "evs = evs1" "st' = plugin_shutdown st1" using assms(1) by (simp_all add: feed_append f)
  then show ?thesis using c by (simp add: plugin_shutdown_def)
qed

lemma signals_stashed_witness:
  "\<exists>evs st'. feed Some [Block_accepted 5 7 (7 :: 32 word), Block_accepted 4 8 8, Transaction_applied [(''eosio'', ''onblock'')] (),
      Block_accepted 6 9 9, Shutdown, Block_accepted 9 10 10]
      (plugin_startup 4 \<lparr>s_last_irreversible_block = 0, connected = True\<rparr>) = Some (evs, st') \<and>
     filter (\<lambda>e. \<not> irreversible e) evs = [(Block_type, Inl 7), (Block_type, Inl 8), (Block_type, Inl 9)] \<and>
     filter irreversible evs = [(Irreversible_block_type, Inl 5), (Irreversible_block_type, Inl 6)]"
proof -
  let ?sigs = "[Block_accepted 5 7 (7 :: 32 word), Block_accepted 4 8 8, Transaction_applied [(''eosio'', ''onblock'')] (), Block_accepted 6 9 9]"
  let ?st = "\<lparr>s_last_irreversible_block = 0, connected = True\<rparr>"
  have "\<exists>evs st'. feed Some (?sigs @ Shutdown # [Block_accepted 9 10 10]) (plugin_startup 4 ?st) = Some (evs, st')"
    using feed_total [of "?sigs @ Shutdown # [Block_accepted 9 10 10]" Some "plugin_startup 4 ?st"] by auto
  then obtain evs st' where f: "feed Some (?sigs @ Shutdown # [Block_accepted 9 10 10]) (plugin_startup 4 ?st) = Some (evs, st')" by blast
  have u: "[Suc (unat (4 :: 32 word))..<Suc (unat (6 :: 32 word))] = [5, 6]" by (simp add: upt_rec)
  from signals_stashed [OF f] show ?thesis
    using f by (intro exI [of _ evs] exI [of _ st']) (simp add: irreversible_between_def u on_applied_transaction_def max_def)
qed

end
