(* ===== verification/Sign_Push.thy ===== *)
theory Sign_Push
  imports Sign_Loop
begin

text \<open>
  What the plugin does around its signing service (\<^verbatim>\<open>src/cross/plugin/cross_plugin.cpp\<close>): reading
  its options (\<open>plugin_initialize\<close>), making the action that carries a signature (\<open>fill_action\<close>),
  handing over a transaction (\<open>push_action\<close>), and the answer of \<open>get_sign_key\<close>.
\<close>

section \<open>Actions\<close>

record 'l sign_msg =
  msg_account :: "64 word"
  msg_name :: "64 word"
  msg_authorization :: "'l list"
  msg_data :: "8 word list"

text \<open>Whatever throws is logged and gives no action; an action the ABI does not know is refused.\<close>

definition cross_fill_action ::
    "(64 word \<Rightarrow> 'abi option) \<Rightarrow> ('abi \<Rightarrow> 64 word \<Rightarrow> string) \<Rightarrow> ('abi \<Rightarrow> string \<Rightarrow> 'v \<Rightarrow> 8 word list option) \<Rightarrow>
     64 word \<Rightarrow> 64 word \<Rightarrow> 'l list \<Rightarrow> 'v \<Rightarrow> 'l sign_msg option" where
  "cross_fill_action get_abi get_action_type variant_to_binary code acttype auths data =
     (case get_abi code of None \<Rightarrow> None | Some abi \<Rightarrow>
      let action_type_name = get_action_type abi acttype in
      if action_type_name = '''' then None
      else case variant_to_binary abi action_type_name data of None \<Rightarrow> None | Some bytes \<Rightarrow>
        Some \<lparr>msg_account = code, msg_name = acttype, msg_authorization = auths, msg_data = bytes\<rparr>)"

text \<open>What the node answers to a transaction is only logged; the code of a duplicate is 3040008.\<close>

datatype log_line = Warn_log | Error_log

definition push_action :: "('a \<Rightarrow> 't option) \<Rightarrow> ('t \<Rightarrow> int option) \<Rightarrow> 'a \<Rightarrow> 't list \<times> log_line list" where
  "push_action generate answer actn =
     (case generate actn of
        None \<Rightarrow> ([], [Error_log])
      | Some trx \<Rightarrow> ([trx], case answer trx of None \<Rightarrow> [] | Some code \<Rightarrow> [if code = 3040008 then Warn_log else Error_log]))"

definition push_actions :: "('a \<Rightarrow> 't option) \<Rightarrow> ('t \<Rightarrow> int option) \<Rightarrow> 'a list \<Rightarrow> 't list \<times> log_line list" where
  "push_actions generate answer actns =
     (concat (map (fst \<circ> push_action generate answer) actns), concat (map (snd \<circ> push_action generate answer) actns))"

section \<open>The plugin's members\<close>

record ('k, 's) sign_members =
  s_producer :: "64 word"
  s_private_key :: 's
  s_public_key :: 'k
  s_providers :: "'k \<rightharpoonup> 's"
  s_connected :: bool

record sign_options =
  opt_producer :: string
  opt_private_key :: string
  opt_private_keys :: "string list"
  opt_providers :: "string list"

text \<open>A private key that cannot be read ends the initialisation, after the producer has been set.\<close>

definition plugin_initialize_sign ::
    "(string \<Rightarrow> 64 word) \<Rightarrow> (string \<Rightarrow> 's option) \<Rightarrow> ('s \<Rightarrow> 'k) \<Rightarrow> (string \<Rightarrow> ('k \<times> 's) option) \<Rightarrow> (string \<Rightarrow> 'k option) \<Rightarrow>
     sign_options \<Rightarrow> ('k, 's) sign_members \<Rightarrow> bool \<times> ('k, 's) sign_members" where
  "plugin_initialize_sign string_to_name private_key_type get_public_key dejsonify public_key_type opts me =
     (let me = me\<lparr>s_producer := string_to_name (opt_producer opts)\<rparr> in
      case private_key_type (opt_private_key opts) of
        None \<Rightarrow> (False, me)
      | Some key \<Rightarrow>
          (True, me\<lparr>s_private_key := key, s_public_key := get_public_key key,
             s_providers := signature_providers dejsonify public_key_type private_key_type (opt_private_keys opts) (opt_providers opts),
             s_connected := True\<rparr>))"

definition get_sign_key :: "('k, 's) sign_members \<Rightarrow> 64 word \<times> 'k" where
  "get_sign_key me = (s_producer me, s_public_key me)"

definition cross_plugin_shutdown :: "('k, 's) sign_members \<Rightarrow> ('k, 's) sign_members" where
  "cross_plugin_shutdown me = me\<lparr>s_connected := False\<rparr>"

section \<open>One pass\<close>

text \<open>Every action of a pass becomes one transaction, unless the plugin has no producer, and every
  refusal is one line of the log.\<close>

lemma pass_transactions:
  assumes "producer \<noteq> 0"
  shows "map (actions \<circ> fst) (fst (push_actions (generate_signed_transaction_from_action tps t i sign producer trx) answer as)) =
    map (\<lambda>a. actions trx @ [a]) as \<and>
   length (snd (push_actions (generate_signed_transaction_from_action tps t i sign producer trx) answer as)) \<le> length as"
  using assms
  by (induction as) (auto simp: push_actions_def push_action_def generate_signed_transaction_from_action_def
      set_transaction_headers_def Let_def split: option.split)

end
