(* ===== verification/Spec2Isabelle.thy ===== *)
theory Spec2Isabelle
  imports Plugin_Map Sign_Loop Ripemd Emitter Action_Api Node_Patches Node_Run Contract_Run Contract_Env Sym_Linux Emitter_Signals Sign_Push
begin

text \<open>
  Verification of the FIBOS node's own C++ code.

  \<^bold>\<open>The program.\<close>  FIBOS is an EOSIO node that runs inside a JavaScript engine: a script starts the
  node, listens to its events, and contracts may be written in JavaScript beside WebAssembly.
  What the repository adds to the chain and to the engine has these parts.

  \<^item> The node (\<^verbatim>\<open>src/base\<close>): \<open>chain\<close>, the object with which a script sets the names of the system
    accounts, loads plugins, and starts and stops the chain thread.
  \<^item> The emitter (\<^verbatim>\<open>src/plugin\<close>): the chain thread stashes accepted blocks, irreversible blocks and
    transactions in a table and a queue, the JavaScript thread gives them to the listeners.
  \<^item> JavaScript contracts (\<^verbatim>\<open>src/patch/eosio/contract_interface.cpp\<close>, \<^verbatim>\<open>src/js_contract\<close>): the chain
    hands an action to \<open>wasm_interface\<close>, which finds the module made of the account's code and
    applies it; the script uses tables, iterators, secondary indexes and a state object, asks
    about its action and sends others, in a global object that hides what is not deterministic.
  \<^item> The cross-chain plugin (\<^verbatim>\<open>src/cross\<close>): contracts call functions of the plugin, which verify
    Ethereum block headers (RLP, Keccak, Ethash with its caches, a big integer) and BLS keys and
    signatures; a signing service signs what waits in a contract's table.
  \<^item> Replacements of pieces of the chain, of OpenSSL, of the engine and of the C library
    (\<^verbatim>\<open>src/patch\<close>, \<^verbatim>\<open>src/cross/patch\<close>, \<^verbatim>\<open>src/js_contract/patch\<close>).

  \<^bold>\<open>Theories.\<close>  Definitions carry the names of the code's functions; paths are below \<^verbatim>\<open>src\<close>,
  those that begin with \<^verbatim>\<open>include\<close> below the root of the repository.

  Shared
  \<^item> \<open>Prelude\<close>: the C integer types as ranges with their wrap-around, the collections of hints,
    lemmas on lists and maps, and the locale \<open>positional\<close> of numbers as digits in a base.

  Arithmetic and encodings (\<^verbatim>\<open>cross/include\<close>, \<^verbatim>\<open>cross/src\<close>)
  \<^item> \<open>InfInt_Core\<close>, \<open>InfInt_Add\<close>, \<open>InfInt_Mul\<close>, \<open>InfInt_Div\<close>, \<open>InfInt_Conv\<close>, \<open>InfInt_Sqrt\<close>:
    \<^verbatim>\<open>InfInt.h\<close>.  A number is the record of its sign and its limbs in base 1,000,000,000; \<open>ival\<close> is the
    integer it stands for, \<open>inf_ok\<close> its normal form.  Each operation keeps \<open>inf_ok\<close> and is the
    operation of the integers under \<open>ival\<close>, with overflow of the intermediate 32- and 64-bit
    values excluded by proof; division truncates, and printing and parsing undo each other.
  \<^item> \<open>Base_Converter\<close> (\<^verbatim>\<open>BaseConverter.cpp\<close>) and \<open>Hex_Codec\<close> (\<^verbatim>\<open>hex.hpp\<close>): digits of one base to another
    by long division on the text; hexadecimal text to bytes and back.
  \<^item> \<open>RLP_Encoding\<close> (\<^verbatim>\<open>RLP.hpp\<close>), with a decoder as the specification.
  \<^item> \<open>Keccak\<close> (\<^verbatim>\<open>keccak.cpp\<close>): the code's permutation in place on 25 words and its sponge on 200
    bytes, against FIPS 202's definitions.
  \<^item> \<open>Ripemd\<close> (\<^verbatim>\<open>patch/openssl/rmd_dgst.c\<close>): the unrolled block function, against the rounds of the
    published algorithm.
  \<^item> \<open>Dataset_Sizes\<close> (\<^verbatim>\<open>datasize.h\<close>): the two tables of Ethash, entry by entry.

  The cross-chain plugin (\<^verbatim>\<open>cross/plugin/cross_plugin.cpp\<close>)
  \<^item> \<open>Ethash\<close>: \<open>genseed\<close>, \<open>gencache\<close>, \<open>calcDatasetItem\<close>, \<open>hashimoto\<close> on byte buffers with their
    offsets, against the algorithm on lists of words.
  \<^item> \<open>Epoch_Cache\<close>: the window of caches, the threads that fill it and the row that remembers it.  A
    step of \<open>epoch_step\<close> is what the mutex protects; the window's invariant holds in every reachable
    state in which one generator works, and a run of two generators breaks it.
  \<^item> \<open>Header_Verify\<close>: a header is accepted exactly if the nonce's digest matches and the result is
    below the target; what each failure of a conversion does.
  \<^item> \<open>Plugin_Map\<close>: the callback table and its dispatch (\<^verbatim>\<open>cross/patch/eos-vm.cpp\<close>,
    \<^verbatim>\<open>cross/include/global_var.hpp\<close>), the six callbacks, the points of keys.
  \<^item> \<open>Sign_Loop\<close>, \<open>Sign_Push\<close>: keys and permission, the loop over the sign pool, the options and the
    transaction that carries a signature.

  JavaScript contracts (\<^verbatim>\<open>js_contract\<close>)
  \<^item> \<open>Js_Value\<close> (\<^verbatim>\<open>base/js_value.cpp\<close>, \<^verbatim>\<open>include/js_value.h\<close>): values between the engine and the chain.
  \<^item> \<open>Chain_Db\<close>: the chain's database as the record \<open>chain_api\<close> of the operations the code calls
    and the laws \<open>chain_ok\<close> they have; \<open>Chain_Ref\<close>: a small database that has them.
  \<^item> \<open>Js_Index\<close> (\<^verbatim>\<open>Index.cpp\<close>), \<open>Js_Table\<close> (\<^verbatim>\<open>Table.cpp\<close>), \<open>Js_Iterator\<close> (\<^verbatim>\<open>DBIterator.cpp\<close>): every method,
    with the ladder of its errors.  \<open>Js_Consistent\<close> puts them together: rows and index entries
    stay in step, and a table is a map from numbers to rows.
  \<^item> \<open>Contract_Cache\<close> (\<^verbatim>\<open>patch/eosio/contract_interface.cpp\<close>), \<open>Js_Module\<close> (\<^verbatim>\<open>js_module.cpp\<close>),
    \<open>Contract_Run\<close>: the cache of modules, applying an action, and both together from
    \<open>wasm_interface::apply\<close> to the rows that are written.
  \<^item> \<open>Action_Api\<close> (\<^verbatim>\<open>action.cpp\<close>, \<^verbatim>\<open>trans.cpp\<close>): what a script asks about its action and sends.
  \<^item> \<open>Contract_Env\<close> (\<open>init_isolate\<close> in \<^verbatim>\<open>base/app.cpp\<close>, \<^verbatim>\<open>patch/TimeCache.cpp\<close>, \<^verbatim>\<open>bc_console.cpp\<close>,
    \<^verbatim>\<open>bc_crypto.cpp\<close>): the global object, the clock and the time zone, the console, the hashes.

  The node
  \<^item> \<open>Emitter\<close>, \<open>Emitter_Signals\<close> (\<^verbatim>\<open>plugin/emitter_plugin.cpp\<close>): the two threads as program counters
    with every lock, wait and post; the signals and what they stash.
  \<^item> \<open>Node_Api\<close>, \<open>Node_Run\<close> (\<^verbatim>\<open>base/app.cpp\<close>, \<^verbatim>\<open>base/post.cpp\<close>): settings and plugins; start, stop and
    the chain thread with its three events.
  \<^item> \<open>Node_Patches\<close> (\<^verbatim>\<open>cross/patch/transaction_context.cpp\<close>, \<^verbatim>\<open>patch/eosio/controller_ex.cpp\<close>,
    \<^verbatim>\<open>patch/eosio/chain_plugin.cpp\<close>, \<^verbatim>\<open>js_contract/patch/pow.cpp\<close>): who pays for a transaction, native
    handlers, balances and statistics of tokens, powers.
  \<^item> \<open>Sym_Linux\<close> (\<^verbatim>\<open>patch/sym_linux.cpp\<close>): stand-ins for functions of the C library.

  \<^bold>\<open>How the code is modelled.\<close>  An exception, an error code and an early return are values of a sum
  or option type, and every branch of the code is a branch of the definition.  Bounded integers
  are integers in the range of their type with the wrap-around written out, or words.  Threads
  are step relations whose steps are what a lock protects; a claim about threads is about every
  reachable state or every run.  Memory is a list of bytes, and reading or writing past its end
  is None or an error.

  Code that is not in the repository is a parameter: the chain (its database, accounts, block
  log, serializer, signals and application framework), the engine (running a script, objects,
  conversions of arguments), OpenSSL's macros for the update of a digest, the BLS library, the
  key types.  Theorems name what they use of it as a hypothesis (\<open>chain_ok\<close>, the laws of the four
  object operations, that a handler returns), and each such theorem has a witness beside it in
  which the parameters are concrete functions.

  \<^bold>\<open>Locales.\<close>  \<open>positional\<close> (numbers in a base, for limbs, decimal digits and character sets),
  \<open>charset\<close> (a set of digits), \<open>bignum\<close> (what the header verification needs of a big integer, given
  by InfInt), \<open>fixed_hash\<close> (a digest of fixed length, given by the Keccak instances) and
  \<open>index_family\<close> (the shared contract of the three widths of secondary indexes) are interpreted on
  the model's own definitions.

  \<^bold>\<open>Loops and bounds.\<close>  Loops with a bound are structural recursions or functions with a measure.
  Loops whose end depends on the data are partial functions with None for not returning: the
  digit search and the square root of InfInt, for which the result is proved to be Some; the
  radix converter, which does not return for sets of one digit and otherwise does; the loop over
  the sign pool, which returns when each page moves on and is proved not to when a page is cut
  to one row; and a generator of epoch caches, which ends when nobody interferes.  The only fuel
  is that of the RLP decoder, which is specification: \<open>rlp_size\<close> of the argument suffices, and
  strings are below the length an RLP header can state.

  \<^bold>\<open>Where the code does not keep its promise.\<close>  Several theorems state a failure: two generators
  misalign the epoch caches, a module is shared by accounts with the same code and sequence
  number and different ABIs, an iterator from the end of one table walks into another, a row
  stays without its index entries when an index function fails and the script goes on, a
  listener that throws leaves the chain thread waiting, the local time of a contract depends on
  the host, the sign pool stands still at a row that a page was cut to, callbacks for BLS keys
  and the name of a thread are written past their buffers.

  \<^bold>\<open>Not modelled.\<close>
  \<^item> \<^verbatim>\<open>patch/eosio/controller.cpp\<close>, \<^verbatim>\<open>genesis_state.cpp\<close>, \<^verbatim>\<open>json.cpp\<close>, \<^verbatim>\<open>public_key.cpp\<close> and
    \<^verbatim>\<open>cross/patch/genesis_intrinsics.cpp\<close>: they compile a source of the chain, which is not in the
    repository, under other names, and add a forwarding function or one name of a list.
  \<^item> \<open>main\<close>, \<open>importModule\<close>, \<open>init_chain\<close>, the program options and HTTP routes: registration with
    the engine and the framework.
  \<^item> \<^verbatim>\<open>include/ifs\<close>: bindings generated from interface descriptions, which convert arguments and
    call the methods that are modelled.
  \<^item> GMP under \<^verbatim>\<open>vender\<close>, tests, build files, installers and tools: not code of this program, or
    not part of it when it runs.
  \<^item> The instantiation, eviction and running of WebAssembly, and the engine's start and garbage
    collection: parts of the chain and the engine.
  \<^item> Getters and array-index names of JavaScript objects, and reads of keys shorter than the curve
    library expects, whose outcome the repository does not determine.
\<close>

end
